(* ===== verification/Elgate_Prelude.thy ===== *)
theory Elgate_Prelude
  imports Main "HOL-Library.Word"
begin

text \<open>
  The prelude of the library: the machine integers of the program's target, the outcome
  of a Rust computation, the checked arithmetic of the two build profiles, the layout
  algorithm of \<open>repr(C)\<close> structures, the collections of rewrite rules the component
  theories extend, and the generic lemmas on lists and modular counters they share.
\<close>

unbundle bit_operations_syntax

named_theorems outcome_simps \<open>evaluation of outcomes whose checks succeed\<close>
named_theorems mem_simps \<open>loads after stores on the shared memory\<close>
named_theorems layout_simps \<open>numeric values of sizes and offsets of structures\<close>
named_theorems slot_simps \<open>what a slot getter returns after a slot operation\<close>
named_theorems header_simps \<open>what a header getter returns after an operation\<close>

subsection \<open>Machine integers\<close>

text \<open>The target is 64-bit Linux: \<open>usize\<close> and \<open>u64\<close> are both 64 bits wide.\<close>

type_synonym u8 = "8 word"
type_synonym u32 = "32 word"
type_synonym u64 = "64 word"

subsection \<open>Outcomes\<close>

text \<open>
  A Rust function returns a value (\<open>Ok\<close>), returns an error value (\<open>Err\<close>),
  panics, or has undefined behaviour: a pointer that leaves its allocation, or an access
  at an address that is not aligned for its type.
\<close>

datatype panic = ArithmeticOverflow | DivisionByZero | IndexOutOfBounds | AssertionFailed
  | CapacityOverflow | InvalidThreadName | SpawnFailed | PoisonedLock | ZeroChannelBuffer
  | UnwrapFailed

datatype ('e, 'a) outcome = Ok 'a | Err 'e | Panic panic | UB

primrec bind_outcome :: "('e, 'a) outcome \<Rightarrow> ('a \<Rightarrow> ('e, 'b) outcome) \<Rightarrow> ('e, 'b) outcome" where
  "bind_outcome (Ok x) f = f x"
| "bind_outcome (Err e) f = Err e"
| "bind_outcome (Panic p) f = Panic p"
| "bind_outcome UB f = UB"

text \<open>\<open>unwrap\<close> panics where there is an error value.\<close>

primrec unwrap :: "('e, 'a) outcome \<Rightarrow> ('f, 'a) outcome" where
  "unwrap (Ok x) = Ok x"
| "unwrap (Err e) = Panic UnwrapFailed"
| "unwrap (Panic p) = Panic p"
| "unwrap UB = UB"

definition is_ok :: "('e, 'a) outcome \<Rightarrow> bool" where
  "is_ok r \<longleftrightarrow> (case r of Ok _ \<Rightarrow> True | _ \<Rightarrow> False)"

lemma is_ok_simps [simp]:
  "is_ok (Ok x)" "\<not> is_ok (Err e)" "\<not> is_ok (Panic p)" "\<not> is_ok UB"
  by (simp_all add: is_ok_def)

text \<open>A computation returned when it gave a value or an error value.\<close>

definition returned :: "('e, 'b) outcome \<Rightarrow> bool" where
  "returned r \<longleftrightarrow> (case r of Ok _ \<Rightarrow> True | Err _ \<Rightarrow> True | _ \<Rightarrow> False)"

lemma returned_simps [simp]:
  "returned (Ok x)" "returned (Err y)" "\<not> returned (Panic z)" "\<not> returned UB"
  by (simp_all add: returned_def)

lemma bind_outcome_Ok_iff:
  "bind_outcome r f = Ok y \<longleftrightarrow> (\<exists>x. r = Ok x \<and> f x = Ok y)"
  by (cases r) auto

lemma bind_outcome_assoc:
  "bind_outcome (bind_outcome r f) g = bind_outcome r (\<lambda>x. bind_outcome (f x) g)"
  by (cases r) auto

lemma bind_outcome_Ok_right [simp]: "bind_outcome r Ok = r"
  by (cases r) auto

text \<open>
  Operations on shared state return their outcome together with the state: an error or a
  panic does not undo the stores before it.
\<close>

definition and_then ::
  "('e, 'a) outcome \<times> 's \<Rightarrow> ('a \<Rightarrow> 's \<Rightarrow> ('e, 'b) outcome \<times> 's) \<Rightarrow> ('e, 'b) outcome \<times> 's" where
  "and_then r f =
     (case r of (Ok x, s) \<Rightarrow> f x s | (Err e, s) \<Rightarrow> (Err e, s) | (Panic p, s) \<Rightarrow> (Panic p, s)
      | (UB, s) \<Rightarrow> (UB, s))"

lemma and_then_simps [simp]:
  "and_then (Ok x, s) f = f x s" "and_then (Err e, s) f = (Err e, s)"
  "and_then (Panic p, s) f = (Panic p, s)" "and_then (UB, s) f = (UB, s)"
  by (simp_all add: and_then_def)

lemma and_then_Ok: "fst r = Ok x \<Longrightarrow> and_then r f = f x (snd r)"
  by (cases r) simp

subsection \<open>Checked arithmetic\<close>

text \<open>
  The two build profiles differ in what an arithmetic overflow does: a debug build
  panics, a release build wraps around. Division by zero panics in both.
\<close>

datatype profile = Debug | Release

definition overflowing :: "profile \<Rightarrow> bool \<Rightarrow> 'a \<Rightarrow> ('e, 'a) outcome" where
  "overflowing p ovf x =
     (if ovf then (case p of Debug \<Rightarrow> Panic ArithmeticOverflow | Release \<Rightarrow> Ok x) else Ok x)"

definition usize_sub :: "profile \<Rightarrow> u64 \<Rightarrow> u64 \<Rightarrow> ('e, u64) outcome" where
  "usize_sub p a b = overflowing p (a < b) (a - b)"

definition usize_add :: "profile \<Rightarrow> u64 \<Rightarrow> u64 \<Rightarrow> ('e, u64) outcome" where
  "usize_add p a b = overflowing p (2 ^ 64 \<le> unat a + unat b) (a + b)"

definition usize_mul :: "profile \<Rightarrow> u64 \<Rightarrow> u64 \<Rightarrow> ('e, u64) outcome" where
  "usize_mul p a b = overflowing p (2 ^ 64 \<le> unat a * unat b) (a * b)"

definition usize_div :: "u64 \<Rightarrow> u64 \<Rightarrow> ('e, u64) outcome" where
  "usize_div a b = (if b = 0 then Panic DivisionByZero else Ok (a div b))"

definition usize_rem :: "u64 \<Rightarrow> u64 \<Rightarrow> ('e, u64) outcome" where
  "usize_rem a b = (if b = 0 then Panic DivisionByZero else Ok (a mod b))"

text \<open>Where the mathematical result fits, every profile returns it.\<close>

lemma overflowing_fits [outcome_simps]: "overflowing p False x = Ok x"
  by (simp add: overflowing_def)

lemma usize_sub_fits [outcome_simps]: "b \<le> a \<Longrightarrow> usize_sub p a b = Ok (a - b)"
  by (auto simp: usize_sub_def overflowing_def not_less)

lemma usize_add_fits [outcome_simps]:
  "unat a + unat b < 2 ^ 64 \<Longrightarrow> usize_add p a b = Ok (a + b)"
  by (simp add: usize_add_def overflowing_def)

lemma usize_mul_fits [outcome_simps]:
  "unat a * unat b < 2 ^ 64 \<Longrightarrow> usize_mul p a b = Ok (a * b)"
  by (simp add: usize_mul_def overflowing_def)

lemma usize_div_fits [outcome_simps]: "b \<noteq> 0 \<Longrightarrow> usize_div a b = Ok (a div b)"
  by (simp add: usize_div_def)

lemma usize_rem_fits [outcome_simps]: "b \<noteq> 0 \<Longrightarrow> usize_rem a b = Ok (a mod b)"
  by (simp add: usize_rem_def)

lemma unat_u64_less [simp]: "unat (w :: u64) < 2 ^ 64"
  using unsigned_less [of w] by simp

lemma unat_add_fits:
  "unat (a :: u64) + unat b < 2 ^ 64 \<Longrightarrow> unat (a + b) = unat a + unat b"
  by (simp add: unat_word_ariths)

lemma unat_mul_fits:
  "unat (a :: u64) * unat b < 2 ^ 64 \<Longrightarrow> unat (a * b) = unat a * unat b"
  by (simp add: unat_word_ariths)

lemma unat_sub_fits: "b \<le> a \<Longrightarrow> unat (a - b :: u64) = unat a - unat b"
  by (simp add: unat_sub word_le_nat_alt)

lemma unat_of_nat_u64 [simp]: "n < 2 ^ 64 \<Longrightarrow> unat (of_nat n :: u64) = n"
  by (simp add: unat_of_nat)

subsection \<open>The layout of \<open>repr(C)\<close> structures\<close>

text \<open>
  A field is its size and its alignment. Each field goes to the next offset aligned for
  it; the size of the structure is rounded up to the structure's alignment.
\<close>

definition align_up :: "nat \<Rightarrow> nat \<Rightarrow> nat" where
  "align_up n a = (n + a - 1) div a * a"

fun repr_c_offsets :: "nat \<Rightarrow> (nat \<times> nat) list \<Rightarrow> nat list" where
  "repr_c_offsets pos [] = []"
| "repr_c_offsets pos ((sz, al) # fs) =
     align_up pos al # repr_c_offsets (align_up pos al + sz) fs"

fun repr_c_end :: "nat \<Rightarrow> (nat \<times> nat) list \<Rightarrow> nat" where
  "repr_c_end pos [] = pos"
| "repr_c_end pos ((sz, al) # fs) = repr_c_end (align_up pos al + sz) fs"

definition repr_c_size :: "nat \<Rightarrow> (nat \<times> nat) list \<Rightarrow> nat" where
  "repr_c_size al fs = align_up (repr_c_end 0 fs) al"

subsection \<open>Modular counters\<close>

lemma mod_succ_less: "0 < n \<Longrightarrow> Suc k mod n < (n :: nat)"
  by simp

lemma mod_add_cancel_left:
  fixes a i j n :: nat
  assumes eq: "(a + i) mod n = (a + j) mod n" and "i < n" "j < n"
  shows "i = j"
proof -
  have "int n dvd (int a + int i) - (int a + int j)"
    using eq by (metis mod_eq_dvd_iff of_nat_add of_nat_mod)
  then have "int i mod int n = int j mod int n"
    by (simp add: mod_eq_dvd_iff)
  then show ?thesis using assms(2,3) by simp
qed

end
