(* ===== verification/Shared_Memory.thy ===== *)
theory Shared_Memory
  imports Elgate_Prelude
begin

text \<open>
  The memory-mapped file of a ring buffer as a list of bytes, with the loads and stores
  the atomics and the raw copies make on it. An atomic access is one load or one store of
  the whole field, in the little-endian order of the target.
\<close>

type_synonym mem = "u8 list"

text \<open>The errors of the ring buffer, by the messages of the code.\<close>

datatype ring_error = DataTooLarge | RingBufferFull nat | InvalidHeader | CreateFailed
  | ResizeFailed | MapFailed | OpenFailed

subsection \<open>Byte orders\<close>

definition le_bytes :: "nat \<Rightarrow> 'a::len word \<Rightarrow> u8 list" where
  "le_bytes n w = map (\<lambda>i. ucast (drop_bit (8 * i) w)) [0..<n]"

primrec le_word :: "u8 list \<Rightarrow> 'a::len word" where
  "le_word [] = 0"
| "le_word (b # bs) = ucast b OR push_bit 8 (le_word bs)"

text \<open>\<open>to_be_bytes\<close> and \<open>from_be_bytes\<close> of \<open>u32\<close>.\<close>

definition to_be_bytes :: "u32 \<Rightarrow> u8 list" where
  "to_be_bytes w = rev (le_bytes 4 w)"

definition from_be_bytes :: "u8 list \<Rightarrow> u32" where
  "from_be_bytes bs = le_word (rev bs)"

lemma length_le_bytes [simp]: "length (le_bytes n w) = n"
  by (simp add: le_bytes_def)

lemma length_to_be_bytes [simp]: "length (to_be_bytes w) = 4"
  by (simp add: to_be_bytes_def)

lemma bit_le_word:
  "bit (le_word bs :: 'a::len word) k \<longleftrightarrow>
     k < LENGTH('a) \<and> k div 8 < length bs \<and> bit (bs ! (k div 8)) (k mod 8)"
proof (induction bs arbitrary: k)
  case Nil
  then show ?case by simp
next
  case (Cons b bs)
  show ?case
  proof (cases "k < 8")
    case True
    then show ?thesis by (auto simp: bit_simps)
  next
    case False
    then obtain j where k: "k = j + 8" by (metis le_Suc_ex not_less add.commute)
    have "\<not> bit b (j + 8)" using bit_imp_le_length [of b "j + 8"] by auto
    moreover have "(j + 8) div 8 = Suc (j div 8)" by simp
    ultimately show ?thesis using Cons.IH [of j] by (auto simp: k bit_simps)
  qed
qed

lemma le_word_le_bytes:
  assumes "LENGTH('a) \<le> 8 * n"
  shows "le_word (le_bytes n w) = (w :: 'a::len word)"
proof (rule bit_word_eqI)
  fix k assume k: "k < LENGTH('a)"
  then have "k div 8 < n" using assms by auto
  then show "bit (le_word (le_bytes n w) :: 'a word) k = bit w k"
    using k by (simp add: bit_le_word le_bytes_def bit_simps)
qed

lemma le_bytes_le_word:
  assumes "length bs = n" "8 * n \<le> LENGTH('a)"
  shows "le_bytes n (le_word bs :: 'a::len word) = bs"
proof (rule nth_equalityI)
  fix i assume "i < length (le_bytes n (le_word bs :: 'a word))"
  then have i: "i < n" by simp
  show "le_bytes n (le_word bs :: 'a word) ! i = bs ! i"
  proof (rule bit_word_eqI)
    fix k assume "k < LENGTH(8)"
    then have k: "k < 8" by simp
    then have "8 * i + k < LENGTH('a)" using i assms(2) by linarith
    then show "bit (le_bytes n (le_word bs :: 'a word) ! i) k = bit (bs ! i) k"
      using i k assms(1) by (simp add: le_bytes_def bit_simps bit_le_word)
  qed
qed (simp add: assms(1))

lemma from_be_bytes_to_be_bytes [simp]: "from_be_bytes (to_be_bytes w) = w"
  by (simp add: from_be_bytes_def to_be_bytes_def le_word_le_bytes)

lemma to_be_bytes_from_be_bytes [simp]: "length bs = 4 \<Longrightarrow> to_be_bytes (from_be_bytes bs) = bs"
  by (simp add: from_be_bytes_def to_be_bytes_def le_bytes_le_word)

subsection \<open>Loads and stores\<close>

definition load :: "nat \<Rightarrow> nat \<Rightarrow> mem \<Rightarrow> u8 list" where
  "load off n m = take n (drop off m)"

text \<open>
  A store never moves or resizes the mapping. Where a raw copy would leave it, the
  operations below report undefined behaviour before they store.
\<close>

definition store :: "nat \<Rightarrow> u8 list \<Rightarrow> mem \<Rightarrow> mem" where
  "store off bs m =
     map (\<lambda>i. if off \<le> i \<and> i < off + length bs then bs ! (i - off) else m ! i) [0..<length m]"

definition load32 :: "nat \<Rightarrow> mem \<Rightarrow> u32" where
  "load32 off m = le_word (load off 4 m)"

definition store32 :: "nat \<Rightarrow> u32 \<Rightarrow> mem \<Rightarrow> mem" where
  "store32 off w m = store off (le_bytes 4 w) m"

definition load64 :: "nat \<Rightarrow> mem \<Rightarrow> u64" where
  "load64 off m = le_word (load off 8 m)"

definition store64 :: "nat \<Rightarrow> u64 \<Rightarrow> mem \<Rightarrow> mem" where
  "store64 off w m = store off (le_bytes 8 w) m"

lemma length_store [simp]: "length (store off bs m) = length m"
  by (simp add: store_def)

lemma length_store32 [simp]: "length (store32 off w m) = length m"
  by (simp add: store32_def)

lemma length_store64 [simp]: "length (store64 off w m) = length m"
  by (simp add: store64_def)

lemma nth_store:
  "i < length m \<Longrightarrow>
   store off bs m ! i = (if off \<le> i \<and> i < off + length bs then bs ! (i - off) else m ! i)"
  by (simp add: store_def)

lemma length_load: "off + n \<le> length m \<Longrightarrow> length (load off n m) = n"
  by (simp add: load_def)

lemma length_load_eq: "length (load off n m) = min n (length m - off)"
  by (simp add: load_def min.commute)

lemma nth_load: "i < n \<Longrightarrow> off + i < length m \<Longrightarrow> load off n m ! i = m ! (off + i)"
  by (simp add: load_def)

lemma load_store_same [mem_simps]:
  "length bs = n \<Longrightarrow> off + n \<le> length m \<Longrightarrow> load off n (store off bs m) = bs"
  by (rule nth_equalityI) (simp_all add: length_load nth_load nth_store)

lemma load_0 [simp]: "load off 0 m = []"
  by (simp add: load_def)

subsection \<open>Frames: what a store leaves alone\<close>

text \<open>\<open>changes_only lo hi m m'\<close>: the two memories differ at most in \<open>[lo, hi)\<close>.\<close>

definition changes_only :: "nat \<Rightarrow> nat \<Rightarrow> mem \<Rightarrow> mem \<Rightarrow> bool" where
  "changes_only lo hi m m' \<longleftrightarrow>
     length m' = length m \<and> (\<forall>i<length m. i < lo \<or> hi \<le> i \<longrightarrow> m' ! i = m ! i)"

lemma changes_only_refl [simp]: "changes_only lo hi m m"
  by (simp add: changes_only_def)

lemma changes_only_trans:
  "changes_only lo hi m m' \<Longrightarrow> changes_only lo hi m' m'' \<Longrightarrow> changes_only lo hi m m''"
  by (auto simp: changes_only_def)

lemma changes_only_widen:
  "changes_only lo hi m m' \<Longrightarrow> lo' \<le> lo \<Longrightarrow> hi \<le> hi' \<Longrightarrow> changes_only lo' hi' m m'"
  by (auto simp: changes_only_def)

lemma changes_only_length: "changes_only lo hi m m' \<Longrightarrow> length m' = length m"
  by (simp add: changes_only_def)

lemma changes_only_store:
  "lo \<le> off \<Longrightarrow> off + length bs \<le> hi \<Longrightarrow> changes_only lo hi m (store off bs m)"
  by (auto simp: changes_only_def nth_store)

lemma changes_only_store_step:
  "changes_only lo hi m m' \<Longrightarrow> lo \<le> off \<Longrightarrow> off + length bs \<le> hi \<Longrightarrow>
   changes_only lo hi m (store off bs m')"
  by (blast intro: changes_only_trans changes_only_store)

lemma load_changes_only:
  assumes "changes_only lo hi m m'" "off + n \<le> lo \<or> hi \<le> off"
  shows "load off n m' = load off n m"
proof (rule nth_equalityI)
  have len: "length m' = length m" using assms(1) by (rule changes_only_length)
  then show "length (load off n m') = length (load off n m)" by (simp add: length_load_eq)
  fix i assume "i < length (load off n m')"
  then have i: "i < n" "off + i < length m" using len by (auto simp: length_load_eq)
  have "m' ! (off + i) = m ! (off + i)"
    using assms i by (auto simp: changes_only_def)
  then show "load off n m' ! i = load off n m ! i" using i len by (simp add: nth_load)
qed

lemma load_store_other [mem_simps]:
  "off + n \<le> off' \<or> off' + length bs \<le> off \<Longrightarrow> load off n (store off' bs m) = load off n m"
  by (rule load_changes_only [of off' "off' + length bs"]) (auto intro: changes_only_store)

subsection \<open>Atomic fields\<close>

lemma load32_store32_same [mem_simps]:
  "off + 4 \<le> length m \<Longrightarrow> load32 off (store32 off w m) = w"
  by (simp add: load32_def store32_def mem_simps le_word_le_bytes)

lemma load64_store64_same [mem_simps]:
  "off + 8 \<le> length m \<Longrightarrow> load64 off (store64 off w m) = w"
  by (simp add: load64_def store64_def mem_simps le_word_le_bytes)

lemma atomic_store_other [mem_simps]:
  "off + 4 \<le> off' \<or> off' + 4 \<le> off \<Longrightarrow> load32 off (store32 off' v m) = load32 off m"
  "off + 4 \<le> off' \<or> off' + 8 \<le> off \<Longrightarrow> load32 off (store64 off' w m) = load32 off m"
  "off + 4 \<le> off' \<or> off' + length bs \<le> off \<Longrightarrow> load32 off (store off' bs m) = load32 off m"
  "off + 8 \<le> off' \<or> off' + 4 \<le> off \<Longrightarrow> load64 off (store32 off' v m) = load64 off m"
  "off + 8 \<le> off' \<or> off' + 8 \<le> off \<Longrightarrow> load64 off (store64 off' w m) = load64 off m"
  "off + 8 \<le> off' \<or> off' + length bs \<le> off \<Longrightarrow> load64 off (store off' bs m) = load64 off m"
  "off + n \<le> off' \<or> off' + 4 \<le> off \<Longrightarrow> load off n (store32 off' v m) = load off n m"
  "off + n \<le> off' \<or> off' + 8 \<le> off \<Longrightarrow> load off n (store64 off' w m) = load off n m"
  by (simp_all add: load32_def load64_def store32_def store64_def mem_simps)

lemma atomic_changes_only:
  "lo \<le> off \<Longrightarrow> off + 4 \<le> hi \<Longrightarrow> changes_only lo hi m (store32 off v m)"
  "lo \<le> off \<Longrightarrow> off + 8 \<le> hi \<Longrightarrow> changes_only lo hi m (store64 off w m)"
  by (simp_all add: store32_def store64_def changes_only_store)

lemma atomic_load_changes_only:
  assumes "changes_only lo hi m m'"
  shows "off + 4 \<le> lo \<or> hi \<le> off \<Longrightarrow> load32 off m' = load32 off m"
    and "off + 8 \<le> lo \<or> hi \<le> off \<Longrightarrow> load64 off m' = load64 off m"
  using load_changes_only [OF assms] by (simp_all add: load32_def load64_def)

end
