(* ===== verification/Ring_Slot.thy ===== *)
theory Ring_Slot
  imports Shared_Memory
begin

text \<open>
  The slots of the ring buffer (\<open>ring/slot.rs\<close>): the two enumerations stored in a slot,
  the layout of its metadata, the handle a raw pointer is turned into, the atomic getters
  and setters, and the operations that move a payload in and out. The interface
  \<open>slot_field\<close> states what each metadata field promises; every field of the code is an
  interpretation of it.
\<close>

subsection \<open>Status and operation kind\<close>

datatype slot_status = Empty | Writing | Ready | Reading | Complete

datatype operation_kind = OpNone | DiskWrite | DiskRead | NetworkSend | NetworkReceive
  | NetworkClose | Custom

text \<open>The discriminants, and the decoding of a stored word in \<open>status\<close> and \<open>operation\<close>.\<close>

fun status_to_u32 :: "slot_status \<Rightarrow> u32" where
  "status_to_u32 Empty = 0"
| "status_to_u32 Writing = 1"
| "status_to_u32 Ready = 2"
| "status_to_u32 Reading = 3"
| "status_to_u32 Complete = 4"

definition status_of_u32 :: "u32 \<Rightarrow> slot_status" where
  "status_of_u32 w =
     (if w = 0 then Empty else if w = 1 then Writing else if w = 2 then Ready
      else if w = 3 then Reading else if w = 4 then Complete else Empty)"

fun operation_to_u32 :: "operation_kind \<Rightarrow> u32" where
  "operation_to_u32 OpNone = 0"
| "operation_to_u32 DiskWrite = 1"
| "operation_to_u32 DiskRead = 2"
| "operation_to_u32 NetworkSend = 3"
| "operation_to_u32 NetworkReceive = 4"
| "operation_to_u32 NetworkClose = 5"
| "operation_to_u32 Custom = 100"

definition operation_of_u32 :: "u32 \<Rightarrow> operation_kind" where
  "operation_of_u32 w =
     (if w = 0 then OpNone else if w = 1 then DiskWrite else if w = 2 then DiskRead
      else if w = 3 then NetworkSend else if w = 4 then NetworkReceive
      else if w = 5 then NetworkClose else if w = 100 then Custom else OpNone)"

text \<open>Both enumerations share one contract: a stored discriminant decodes to its value,
  any other word to the default.\<close>

locale enum_repr =
  fixes enc :: "'a \<Rightarrow> u32"
    and dec :: "u32 \<Rightarrow> 'a"
    and dflt :: 'a
  assumes dec_enc: "dec (enc x) = x"
    and dec_other: "w \<notin> range enc \<Longrightarrow> dec w = dflt"
begin

lemma enc_inj: "enc x = enc y \<longleftrightarrow> x = y"
  by (metis dec_enc)

lemma dec_eq_iff: "x \<noteq> dflt \<Longrightarrow> dec w = x \<longleftrightarrow> w = enc x"
  by (metis dec_enc dec_other rangeE)

lemma enc_dec: "dec w \<noteq> dflt \<Longrightarrow> enc (dec w) = w"
  using dec_eq_iff [of "dec w" w] by simp

end

interpretation status_repr: enum_repr status_to_u32 status_of_u32 Empty
proof
  fix x show "status_of_u32 (status_to_u32 x) = x"
    by (cases x) (simp_all add: status_of_u32_def)
next
  fix w assume w: "w \<notin> range status_to_u32"
  have "w \<noteq> status_to_u32 s" for s using w by auto
  from this [of Writing] this [of Ready] this [of Reading] this [of Complete]
  show "status_of_u32 w = Empty" by (simp add: status_of_u32_def)
qed

interpretation operation_repr: enum_repr operation_to_u32 operation_of_u32 OpNone
proof
  fix x show "operation_of_u32 (operation_to_u32 x) = x"
    by (cases x) (simp_all add: operation_of_u32_def)
next
  fix w assume w: "w \<notin> range operation_to_u32"
  have "w \<noteq> operation_to_u32 k" for k using w by auto
  from this [of DiskWrite] this [of DiskRead] this [of NetworkSend] this [of NetworkReceive]
    this [of NetworkClose] this [of Custom]
  show "operation_of_u32 w = OpNone" by (simp add: operation_of_u32_def)
qed

text \<open>The statuses in the order of their discriminants, which is the order a slot goes
  through.\<close>

instantiation slot_status :: linorder
begin

definition less_eq_slot_status :: "slot_status \<Rightarrow> slot_status \<Rightarrow> bool" where
  "less_eq_slot_status a b \<longleftrightarrow> status_to_u32 a \<le> status_to_u32 b"

definition less_slot_status :: "slot_status \<Rightarrow> slot_status \<Rightarrow> bool" where
  "less_slot_status a b \<longleftrightarrow> status_to_u32 a < status_to_u32 b"

instance
  by standard
    (auto simp: less_eq_slot_status_def less_slot_status_def simp flip: status_repr.enc_inj)

end

text \<open>The description of an operation that the crate exports beside the slots.\<close>

record operation_details =
  det_kind :: operation_kind
  det_size :: u64
  det_id :: "u8 list"
  det_timestamp :: u64

subsection \<open>Layout\<close>

text \<open>\<open>SlotMetadata\<close> is \<open>repr(C, align(64))\<close>: status, operation, size, id, timestamp, reserved.\<close>

definition slot_metadata_fields :: "(nat \<times> nat) list" where
  "slot_metadata_fields = [(4, 4), (4, 4), (8, 8), (4 * 4, 4), (8, 8), (2 * 4, 4)]"

definition sizeof_SlotMetadata :: nat where
  "sizeof_SlotMetadata = repr_c_size 64 slot_metadata_fields"

definition off_status :: nat where "off_status = repr_c_offsets 0 slot_metadata_fields ! 0"
definition off_operation :: nat where "off_operation = repr_c_offsets 0 slot_metadata_fields ! 1"
definition off_size :: nat where "off_size = repr_c_offsets 0 slot_metadata_fields ! 2"
definition off_id :: nat where "off_id = repr_c_offsets 0 slot_metadata_fields ! 3"
definition off_timestamp :: nat where "off_timestamp = repr_c_offsets 0 slot_metadata_fields ! 4"

lemma slot_layout [layout_simps]:
  "sizeof_SlotMetadata = 64" "off_status = 0" "off_operation = 4" "off_size = 8"
  "off_id = 16" "off_timestamp = 32"
  by (simp_all add: sizeof_SlotMetadata_def off_status_def off_operation_def off_size_def
      off_id_def off_timestamp_def slot_metadata_fields_def repr_c_size_def align_up_def)

subsection \<open>Slot handles\<close>

text \<open>
  A slot handle is the address of the metadata, relative to the mapping, and the size of
  the payload area; the payload starts behind the metadata.
\<close>

record slot =
  slot_base :: nat
  data_size :: u64

definition slot_data :: "slot \<Rightarrow> nat" where
  "slot_data s = slot_base s + sizeof_SlotMetadata"

text \<open>
  \<open>from_ptr\<close>: the payload pointer must stay inside the mapping. Every use of the handle
  dereferences the metadata, so a pointer that is not aligned for it is undefined
  behaviour as well (the mapping itself starts at a page boundary).
\<close>

definition from_ptr :: "profile \<Rightarrow> nat \<Rightarrow> u64 \<Rightarrow> mem \<Rightarrow> (ring_error, slot) outcome" where
  "from_ptr p ptr slot_size m =
     (if length m < ptr + sizeof_SlotMetadata \<or> \<not> 64 dvd ptr then UB
      else bind_outcome (usize_sub p slot_size (of_nat sizeof_SlotMetadata))
        (\<lambda>ds. Ok \<lparr>slot_base = ptr, data_size = ds\<rparr>))"

text \<open>A handle whose whole region, metadata and payload, lies in the mapping.\<close>

definition slot_in :: "slot \<Rightarrow> mem \<Rightarrow> bool" where
  "slot_in s m \<longleftrightarrow> slot_data s + unat (data_size s) \<le> length m"

definition slot_end :: "slot \<Rightarrow> nat" where
  "slot_end s = slot_data s + unat (data_size s)"

subsection \<open>Getters and setters\<close>

definition status :: "slot \<Rightarrow> mem \<Rightarrow> slot_status" where
  "status s m = status_of_u32 (load32 (slot_base s + off_status) m)"

definition set_status :: "slot \<Rightarrow> slot_status \<Rightarrow> mem \<Rightarrow> mem" where
  "set_status s st m = store32 (slot_base s + off_status) (status_to_u32 st) m"

definition operation :: "slot \<Rightarrow> mem \<Rightarrow> operation_kind" where
  "operation s m = operation_of_u32 (load32 (slot_base s + off_operation) m)"

definition set_operation :: "slot \<Rightarrow> operation_kind \<Rightarrow> mem \<Rightarrow> mem" where
  "set_operation s k m = store32 (slot_base s + off_operation) (operation_to_u32 k) m"

definition payload_size :: "slot \<Rightarrow> mem \<Rightarrow> u64" where
  "payload_size s m = load64 (slot_base s + off_size) m"

definition set_size :: "slot \<Rightarrow> u64 \<Rightarrow> mem \<Rightarrow> mem" where
  "set_size s n m = store64 (slot_base s + off_size) n m"

definition timestamp :: "slot \<Rightarrow> mem \<Rightarrow> u64" where
  "timestamp s m = load64 (slot_base s + off_timestamp) m"

definition set_timestamp :: "slot \<Rightarrow> u64 \<Rightarrow> mem \<Rightarrow> mem" where
  "set_timestamp s t m = store64 (slot_base s + off_timestamp) t m"

text \<open>
  The operation id is kept as four words, the big-endian halves of the sixteen bytes of a
  UUID. The \<open>uuid\<close> crate is a parameter: its conversion to bytes, its conversion from
  a slice of bytes, and its nil value.
\<close>

record 'u uuid_crate =
  as_bytes :: "'u \<Rightarrow> u8 list"
  from_slice :: "u8 list \<Rightarrow> 'u option"
  uuid_nil :: 'u

definition id_word :: "slot \<Rightarrow> nat \<Rightarrow> nat" where
  "id_word s k = slot_base s + off_id + 4 * k"

definition id_bytes :: "slot \<Rightarrow> mem \<Rightarrow> u8 list" where
  "id_bytes s m = concat (map to_be_bytes
     [load32 (id_word s 0) m, load32 (id_word s 1) m,
      load32 (id_word s 2) m, load32 (id_word s 3) m])"

definition slot_id :: "'u uuid_crate \<Rightarrow> slot \<Rightarrow> mem \<Rightarrow> 'u" where
  "slot_id U s m = (case from_slice U (id_bytes s m) of Some u \<Rightarrow> u | None \<Rightarrow> uuid_nil U)"

definition set_id_bytes :: "slot \<Rightarrow> u8 list \<Rightarrow> mem \<Rightarrow> mem" where
  "set_id_bytes s bs m =
     (let m1 = store32 (id_word s 0) (from_be_bytes [bs ! 0, bs ! 1, bs ! 2, bs ! 3]) m;
          m2 = store32 (id_word s 1) (from_be_bytes [bs ! 4, bs ! 5, bs ! 6, bs ! 7]) m1;
          m3 = store32 (id_word s 2) (from_be_bytes [bs ! 8, bs ! 9, bs ! 10, bs ! 11]) m2
      in store32 (id_word s 3) (from_be_bytes [bs ! 12, bs ! 13, bs ! 14, bs ! 15]) m3)"

definition set_id :: "'u uuid_crate \<Rightarrow> slot \<Rightarrow> 'u \<Rightarrow> mem \<Rightarrow> mem" where
  "set_id U s u m = set_id_bytes s (as_bytes U u) m"

text \<open>What the crate documents: a UUID has sixteen bytes and is rebuilt from them.\<close>

definition uuid_laws :: "'u uuid_crate \<Rightarrow> bool" where
  "uuid_laws U \<longleftrightarrow>
     (\<forall>u. length (as_bytes U u) = 16) \<and> (\<forall>u. from_slice U (as_bytes U u) = Some u)"

text \<open>\<open>data_slice\<close>: the first bytes of the payload area.\<close>

definition data_slice :: "slot \<Rightarrow> nat \<Rightarrow> mem \<Rightarrow> (ring_error, u8 list) outcome" where
  "data_slice s len m =
     (if length m < slot_data s + len then UB else Ok (load (slot_data s) len m))"

text \<open>
  \<open>data_slice_mut\<close>: the caller updates that slice in place by \<open>f\<close>; a slice keeps its
  length.
\<close>

definition data_slice_mut ::
  "slot \<Rightarrow> nat \<Rightarrow> (u8 list \<Rightarrow> u8 list) \<Rightarrow> mem \<Rightarrow> (ring_error, unit) outcome \<times> mem" where
  "data_slice_mut s len f m =
     (if length m < slot_data s + len then (UB, m)
      else (Ok (), store (slot_data s) (take len (f (load (slot_data s) len m))) m))"

subsection \<open>Moving a payload\<close>

text \<open>
  The clock: the seconds since the epoch, or \<open>None\<close> where the clock is set before it
  (\<open>unwrap_or_default\<close> then gives zero).
\<close>

type_synonym clock = "u64 option"

definition as_secs :: "clock \<Rightarrow> u64" where
  "as_secs now = (case now of Some t \<Rightarrow> t | None \<Rightarrow> 0)"

definition write_data ::
  "slot \<Rightarrow> clock \<Rightarrow> u8 list \<Rightarrow> mem \<Rightarrow> (ring_error, unit) outcome \<times> mem" where
  "write_data s now data m =
     (if unat (data_size s) < length data then (Err DataTooLarge, m)
      else
        let m1 = set_status s Writing m;
            m2 = set_size s (of_nat (length data)) m1;
            m3 = set_timestamp s (as_secs now) m2
        in if length m3 < slot_data s + length data then (UB, m3)
           else (Ok (), set_status s Ready (store (slot_data s) data m3)))"

text \<open>
  \<open>read_data\<close>: the buffer is allocated before the copy; a vector of more than
  \<open>isize::MAX\<close> bytes panics.
\<close>

definition read_data :: "slot \<Rightarrow> mem \<Rightarrow> (ring_error, u8 list option) outcome \<times> mem" where
  "read_data s m =
     (if status s m \<noteq> Ready then (Ok None, m)
      else
        let m1 = set_status s Reading m;
            sz = payload_size s m1
        in if data_size s < sz then (Ok None, set_status s Complete m1)
           else if 2 ^ 63 \<le> unat sz then (Panic CapacityOverflow, m1)
           else if length m1 < slot_data s + unat sz then (UB, m1)
           else (Ok (Some (load (slot_data s) (unat sz) m1)), set_status s Complete m1))"

definition reset :: "'u uuid_crate \<Rightarrow> slot \<Rightarrow> mem \<Rightarrow> mem" where
  "reset U s m =
     (let m1 = set_status s Empty m;
          m2 = set_operation s OpNone m1;
          m3 = set_size s 0 m2;
          m4 = set_id U s (uuid_nil U) m3
      in set_timestamp s 0 m4)"

subsection \<open>The contract of a metadata field\<close>

text \<open>
  A field occupies the bytes \<open>[lo, hi)\<close> of the metadata. A getter returns what the
  setter stored, a setter changes only these bytes, and a getter depends on no others.
\<close>

locale slot_field =
  fixes get :: "slot \<Rightarrow> mem \<Rightarrow> 'v"
    and put :: "slot \<Rightarrow> 'v \<Rightarrow> mem \<Rightarrow> mem"
    and lo hi :: nat
    and valid :: "'v \<Rightarrow> bool"
  assumes range: "lo < hi" "hi \<le> sizeof_SlotMetadata"
    and get_put: "valid v \<Longrightarrow> slot_data s \<le> length m \<Longrightarrow> get s (put s v m) = v"
    and put_local: "changes_only (slot_base s + lo) (slot_base s + hi) m (put s v m)"
    and get_local: "changes_only a b m m' \<Longrightarrow>
      slot_base s + hi \<le> a \<or> b \<le> slot_base s + lo \<Longrightarrow> get s m' = get s m"
begin

lemma put_in_metadata: "changes_only (slot_base s) (slot_data s) m (put s v m)"
  by (rule changes_only_widen [OF put_local]) (use range in \<open>auto simp: slot_data_def\<close>)

lemma put_in_slot:
  "changes_only (slot_base s) (slot_end s) m m' \<Longrightarrow>
   changes_only (slot_base s) (slot_end s) m (put s v m')"
  by (blast intro: changes_only_trans changes_only_widen [OF put_in_metadata]
      eq_refl [of "slot_base s"] le_add1 [of "slot_data s" "unat (data_size s)",
        folded slot_end_def])

lemma length_put: "length (put s v m) = length m"
  by (rule changes_only_length [OF put_local])

lemma load_data_put: "slot_data s \<le> off \<Longrightarrow> load off n (put s v m) = load off n m"
  by (rule load_changes_only [OF put_in_metadata]) simp

text \<open>Whatever happens inside another slot's region leaves this field alone.\<close>

lemma get_other_slot:
  assumes "changes_only (slot_base t) (slot_end t) m m'"
    and "slot_end t \<le> slot_base s \<or> slot_end s \<le> slot_base t"
  shows "get s m' = get s m"
  by (rule get_local [OF assms(1)])
    (use assms(2) range in \<open>auto simp: slot_end_def slot_data_def\<close>)

end

lemmas slot_access_defs = status_def set_status_def operation_def set_operation_def
  payload_size_def set_size_def timestamp_def set_timestamp_def id_bytes_def set_id_bytes_def
  id_word_def slot_data_def Let_def

interpretation status_field: slot_field status set_status 0 4 "\<lambda>_. True"
  by unfold_locales
    (auto simp: slot_access_defs layout_simps mem_simps status_repr.dec_enc
      intro!: atomic_changes_only arg_cong [where f = status_of_u32] atomic_load_changes_only)

interpretation operation_field: slot_field operation set_operation 4 8 "\<lambda>_. True"
  by unfold_locales
    (auto simp: slot_access_defs layout_simps mem_simps operation_repr.dec_enc
      intro!: atomic_changes_only arg_cong [where f = operation_of_u32] atomic_load_changes_only)

interpretation size_field: slot_field payload_size set_size 8 16 "\<lambda>_. True"
  by unfold_locales
    (auto simp: slot_access_defs layout_simps mem_simps
      intro!: atomic_changes_only atomic_load_changes_only)

interpretation timestamp_field: slot_field timestamp set_timestamp 32 40 "\<lambda>_. True"
  by unfold_locales
    (auto simp: slot_access_defs layout_simps mem_simps
      intro!: atomic_changes_only atomic_load_changes_only)

lemma list_of_16:
  assumes "length bs = 16"
  shows "[bs ! 0, bs ! 1, bs ! 2, bs ! 3] @ [bs ! 4, bs ! 5, bs ! 6, bs ! 7] @
    [bs ! 8, bs ! 9, bs ! 10, bs ! 11] @ [bs ! 12, bs ! 13, bs ! 14, bs ! 15] = bs"
  using assms by (auto simp: numeral_eq_Suc length_Suc_conv)

lemma id_bytes_set_id_bytes:
  assumes "length bs = 16" "slot_data s \<le> length m"
  shows "id_bytes s (set_id_bytes s bs m) = bs"
  using assms(2) list_of_16 [OF assms(1)]
  by (simp add: slot_access_defs layout_simps mem_simps)

lemma set_id_bytes_local:
  "changes_only (slot_base s + 16) (slot_base s + 32) m (set_id_bytes s bs m)"
  unfolding slot_access_defs layout_simps
  by (intro changes_only_trans [OF _ atomic_changes_only(1)] atomic_changes_only(1)) simp_all

interpretation id_field: slot_field id_bytes set_id_bytes 16 32 "\<lambda>bs. length bs = 16"
proof
  fix a b m m' and s :: slot
  assume "changes_only a b m m'" "slot_base s + 32 \<le> a \<or> b \<le> slot_base s + 16"
  then have "load32 (id_word s k) m' = load32 (id_word s k) m" if "k < 4" for k
    using that by (intro atomic_load_changes_only) (auto simp: id_word_def layout_simps)
  then show "id_bytes s m' = id_bytes s m" by (simp add: id_bytes_def)
qed (simp_all add: layout_simps id_bytes_set_id_bytes set_id_bytes_local)

subsection \<open>Getters after setters of the same slot\<close>

lemmas length_setters [simp] = status_field.length_put operation_field.length_put
  size_field.length_put timestamp_field.length_put id_field.length_put

lemma length_set_id [simp]: "length (set_id U s u m) = length m"
  by (simp add: set_id_def)

lemma get_put_same [slot_simps]:
  assumes "slot_data s \<le> length m"
  shows "status s (set_status s st m) = st"
    and "operation s (set_operation s k m) = k"
    and "payload_size s (set_size s n m) = n"
    and "timestamp s (set_timestamp s t m) = t"
    and "length bs = 16 \<Longrightarrow> id_bytes s (set_id_bytes s bs m) = bs"
  using assms by (simp_all add: status_field.get_put operation_field.get_put
      size_field.get_put timestamp_field.get_put id_field.get_put)

text \<open>The fields do not overlap, so a setter leaves every other field of its slot alone.\<close>

lemma status_other [slot_simps]:
  "status s (set_operation s k m) = status s m"
  "status s (set_size s n m) = status s m"
  "status s (set_timestamp s t m) = status s m"
  "status s (set_id_bytes s bs m) = status s m"
  by (rule status_field.get_local [OF operation_field.put_local]
      status_field.get_local [OF size_field.put_local]
      status_field.get_local [OF timestamp_field.put_local]
      status_field.get_local [OF id_field.put_local], simp)+

lemma operation_other [slot_simps]:
  "operation s (set_status s st m) = operation s m"
  "operation s (set_size s n m) = operation s m"
  "operation s (set_timestamp s t m) = operation s m"
  "operation s (set_id_bytes s bs m) = operation s m"
  by (rule operation_field.get_local [OF status_field.put_local]
      operation_field.get_local [OF size_field.put_local]
      operation_field.get_local [OF timestamp_field.put_local]
      operation_field.get_local [OF id_field.put_local], simp)+

lemma payload_size_other [slot_simps]:
  "payload_size s (set_status s st m) = payload_size s m"
  "payload_size s (set_operation s k m) = payload_size s m"
  "payload_size s (set_timestamp s t m) = payload_size s m"
  "payload_size s (set_id_bytes s bs m) = payload_size s m"
  by (rule size_field.get_local [OF status_field.put_local]
      size_field.get_local [OF operation_field.put_local]
      size_field.get_local [OF timestamp_field.put_local]
      size_field.get_local [OF id_field.put_local], simp)+

lemma timestamp_other [slot_simps]:
  "timestamp s (set_status s st m) = timestamp s m"
  "timestamp s (set_operation s k m) = timestamp s m"
  "timestamp s (set_size s n m) = timestamp s m"
  "timestamp s (set_id_bytes s bs m) = timestamp s m"
  by (rule timestamp_field.get_local [OF status_field.put_local]
      timestamp_field.get_local [OF operation_field.put_local]
      timestamp_field.get_local [OF size_field.put_local]
      timestamp_field.get_local [OF id_field.put_local], simp)+

lemma id_bytes_other [slot_simps]:
  "id_bytes s (set_status s st m) = id_bytes s m"
  "id_bytes s (set_operation s k m) = id_bytes s m"
  "id_bytes s (set_size s n m) = id_bytes s m"
  "id_bytes s (set_timestamp s t m) = id_bytes s m"
  by (rule id_field.get_local [OF status_field.put_local]
      id_field.get_local [OF operation_field.put_local]
      id_field.get_local [OF size_field.put_local]
      id_field.get_local [OF timestamp_field.put_local], simp)+

text \<open>The payload area lies behind the metadata, so the setters leave it alone, and
  storing a payload leaves the metadata alone.\<close>

lemma payload_after_put [slot_simps]:
  "load (slot_data s) n (set_status s st m) = load (slot_data s) n m"
  "load (slot_data s) n (set_operation s k m) = load (slot_data s) n m"
  "load (slot_data s) n (set_size s sz m) = load (slot_data s) n m"
  "load (slot_data s) n (set_timestamp s t m) = load (slot_data s) n m"
  "load (slot_data s) n (set_id_bytes s bs m) = load (slot_data s) n m"
  by (simp_all add: status_field.load_data_put operation_field.load_data_put
      size_field.load_data_put timestamp_field.load_data_put id_field.load_data_put)

lemma get_after_payload [slot_simps]:
  "status s (store (slot_data s) bs m) = status s m"
  "operation s (store (slot_data s) bs m) = operation s m"
  "payload_size s (store (slot_data s) bs m) = payload_size s m"
  "timestamp s (store (slot_data s) bs m) = timestamp s m"
  "id_bytes s (store (slot_data s) bs m) = id_bytes s m"
  by (rule status_field.get_local operation_field.get_local size_field.get_local
      timestamp_field.get_local id_field.get_local,
      rule changes_only_store [OF order_refl order_refl],
      simp add: slot_data_def layout_simps)+

subsection \<open>Effects of the operations\<close>

text \<open>The payload a slot holds, as its size field tells it.\<close>

definition payload :: "slot \<Rightarrow> mem \<Rightarrow> u8 list" where
  "payload s m = load (slot_data s) (unat (payload_size s m)) m"

lemma slot_in_metadata: "slot_in s m \<Longrightarrow> slot_data s \<le> length m"
  by (simp add: slot_in_def)

lemma slot_base_le_end: "slot_base s \<le> slot_end s" "slot_data s \<le> slot_end s"
  by (simp_all add: slot_end_def slot_data_def)

lemma slot_in_changes_only: "changes_only lo hi m m' \<Longrightarrow> slot_in s m' = slot_in s m"
  by (simp add: slot_in_def changes_only_length)

lemma payload_in_slot:
  "changes_only (slot_base s) (slot_end s) m m' \<Longrightarrow> length bs \<le> unat (data_size s) \<Longrightarrow>
   changes_only (slot_base s) (slot_end s) m (store (slot_data s) bs m')"
  by (erule changes_only_store_step) (simp_all add: slot_end_def slot_data_def)

lemmas puts_in_slot = status_field.put_in_slot operation_field.put_in_slot
  size_field.put_in_slot timestamp_field.put_in_slot id_field.put_in_slot

lemma payload_other_slot:
  assumes "changes_only (slot_base t) (slot_end t) m m'"
    and "slot_end t \<le> slot_base s \<or> slot_end s \<le> slot_base t"
    and "unat (payload_size s m) \<le> unat (data_size s)"
  shows "payload s m' = payload s m"
proof -
  have "payload_size s m' = payload_size s m"
    by (rule size_field.get_other_slot [OF assms(1,2)])
  then show ?thesis
    unfolding payload_def
    by (metis (no_types, lifting) assms load_changes_only slot_end_def add_le_mono1 le_trans
        add_le_cancel_left slot_base_le_end(2) slot_data_def le_add1)
qed

lemma write_data_changes:
  "changes_only (slot_base s) (slot_end s) m (snd (write_data s now data m))"
  unfolding write_data_def Let_def by (auto intro!: puts_in_slot payload_in_slot)

lemma read_data_changes:
  "changes_only (slot_base s) (slot_end s) m (snd (read_data s m))"
  unfolding read_data_def Let_def by (auto intro!: puts_in_slot)

lemma reset_changes: "changes_only (slot_base s) (slot_end s) m (reset U s m)"
  unfolding reset_def Let_def set_id_def by (intro puts_in_slot) simp

lemma length_write_data [simp]: "length (snd (write_data s now data m)) = length m"
  by (rule changes_only_length [OF write_data_changes])

lemma length_read_data [simp]: "length (snd (read_data s m)) = length m"
  by (rule changes_only_length [OF read_data_changes])

lemma length_reset [simp]: "length (reset U s m) = length m"
  by (rule changes_only_length [OF reset_changes])

lemma write_data_effect:
  assumes "slot_in s m" "length data \<le> unat (data_size s)"
  shows "fst (write_data s now data m) = Ok ()"
    and "status s (snd (write_data s now data m)) = Ready"
    and "operation s (snd (write_data s now data m)) = operation s m"
    and "payload_size s (snd (write_data s now data m)) = of_nat (length data)"
    and "timestamp s (snd (write_data s now data m)) = as_secs now"
    and "id_bytes s (snd (write_data s now data m)) = id_bytes s m"
    and "payload s (snd (write_data s now data m)) = data"
proof -
  have fits: "slot_data s + length data \<le> length m" "slot_data s \<le> length m"
    using assms by (auto simp: slot_in_def)
  have "length data < 2 ^ 64" using assms(2) unat_u64_less [of "data_size s"] by linarith
  then have len: "unat (of_nat (length data) :: u64) = length data" by simp
  note rules = write_data_def Let_def payload_def slot_simps mem_simps
  show "fst (write_data s now data m) = Ok ()"
    and "status s (snd (write_data s now data m)) = Ready"
    and "operation s (snd (write_data s now data m)) = operation s m"
    and "payload_size s (snd (write_data s now data m)) = of_nat (length data)"
    and "timestamp s (snd (write_data s now data m)) = as_secs now"
    and "id_bytes s (snd (write_data s now data m)) = id_bytes s m"
    and "payload s (snd (write_data s now data m)) = data"
    using fits assms(2) len by (simp_all add: rules not_less)
qed

lemma read_data_effect:
  assumes "slot_in s m" "length m < 2 ^ 63" "status s m = Ready"
    "unat (payload_size s m) \<le> unat (data_size s)"
  shows "fst (read_data s m) = Ok (Some (payload s m))"
    and "status s (snd (read_data s m)) = Complete"
    and "operation s (snd (read_data s m)) = operation s m"
    and "payload_size s (snd (read_data s m)) = payload_size s m"
    and "timestamp s (snd (read_data s m)) = timestamp s m"
    and "id_bytes s (snd (read_data s m)) = id_bytes s m"
    and "payload s (snd (read_data s m)) = payload s m"
proof -
  have fits: "slot_data s + unat (payload_size s m) \<le> length m" "slot_data s \<le> length m"
    "unat (payload_size s m) < 2 ^ 63" "\<not> data_size s < payload_size s m"
    using assms by (auto simp: slot_in_def word_less_nat_alt)
  note rules = read_data_def Let_def payload_def slot_simps
  show "fst (read_data s m) = Ok (Some (payload s m))"
    and "status s (snd (read_data s m)) = Complete"
    and "operation s (snd (read_data s m)) = operation s m"
    and "payload_size s (snd (read_data s m)) = payload_size s m"
    and "timestamp s (snd (read_data s m)) = timestamp s m"
    and "id_bytes s (snd (read_data s m)) = id_bytes s m"
    and "payload s (snd (read_data s m)) = payload s m"
    using fits assms(3) by (simp_all add: rules not_less not_le)
qed

lemma reset_effect:
  assumes "slot_data s \<le> length m"
  shows "status s (reset U s m) = Empty" "operation s (reset U s m) = OpNone"
    "payload_size s (reset U s m) = 0" "timestamp s (reset U s m) = 0"
    "length (as_bytes U (uuid_nil U)) = 16 \<Longrightarrow>
       id_bytes s (reset U s m) = as_bytes U (uuid_nil U)"
    "load (slot_data s) n (reset U s m) = load (slot_data s) n m"
  using assms by (simp_all add: reset_def Let_def set_id_def slot_simps)

end
