(* ===== verification/Ring_Header.thy ===== *)
theory Ring_Header
  imports Shared_Memory
begin

text \<open>
  The header of the ring buffer (\<open>ring/header.rs\<close>), kept in the first bytes of the shared
  mapping: its layout, its construction and validation, the two ring indices advanced by
  compare-and-swap, and the counters. The interface \<open>ring_index\<close> states what an index
  promises; the producer index and the consumer index are its interpretations.
\<close>

subsection \<open>Layout\<close>

text \<open>\<open>RingHeader\<close> is \<open>repr(C, align(64))\<close>: ten 64-bit atomics, \<open>numa_node\<close>, the padding.\<close>

definition HEADER_PADDING_SIZE :: nat where
  "HEADER_PADDING_SIZE = 64"

definition ring_header_fields :: "(nat \<times> nat) list" where
  "ring_header_fields =
     [(8, 8), (8, 8), (8, 8), (8, 8), (8, 8), (8, 8), (8, 8), (8, 8), (8, 8), (8, 8),
      (4, 4), (HEADER_PADDING_SIZE, 1)]"

definition sizeof_RingHeader :: nat where
  "sizeof_RingHeader = repr_c_size 64 ring_header_fields"

definition header_offset :: "nat \<Rightarrow> nat" where
  "header_offset k = repr_c_offsets 0 ring_header_fields ! k"

lemma sizeof_RingHeader [layout_simps]: "sizeof_RingHeader = 192"
  by (simp add: sizeof_RingHeader_def repr_c_size_def ring_header_fields_def
      HEADER_PADDING_SIZE_def align_up_def)

lemma header_offset [layout_simps]:
  "header_offset 0 = 0" "header_offset (Suc 0) = 8" "header_offset 2 = 16" "header_offset 3 = 24"
  "header_offset 4 = 32" "header_offset 5 = 40" "header_offset 6 = 48" "header_offset 7 = 56"
  "header_offset 8 = 64" "header_offset 9 = 72" "header_offset 10 = 80" "header_offset 11 = 84"
  by (simp_all add: header_offset_def ring_header_fields_def HEADER_PADDING_SIZE_def
      align_up_def)

subsection \<open>The header in the mapping\<close>

definition magic :: "mem \<Rightarrow> u64" where "magic m = load64 (header_offset 0) m"
definition version :: "mem \<Rightarrow> u64" where "version m = load64 (header_offset 1) m"
definition ring_size :: "mem \<Rightarrow> u64" where "ring_size m = load64 (header_offset 2) m"
definition slot_size :: "mem \<Rightarrow> u64" where "slot_size m = load64 (header_offset 3) m"
definition slot_count :: "mem \<Rightarrow> u64" where "slot_count m = load64 (header_offset 4) m"
definition producer_idx :: "mem \<Rightarrow> u64" where "producer_idx m = load64 (header_offset 5) m"
definition consumer_idx :: "mem \<Rightarrow> u64" where "consumer_idx m = load64 (header_offset 6) m"
definition active_producers :: "mem \<Rightarrow> u64" where
  "active_producers m = load64 (header_offset 7) m"
definition operations_completed :: "mem \<Rightarrow> u64" where
  "operations_completed m = load64 (header_offset 8) m"
definition created_at :: "mem \<Rightarrow> u64" where "created_at m = load64 (header_offset 9) m"
definition numa_node :: "mem \<Rightarrow> u32" where "numa_node m = load32 (header_offset 10) m"

lemmas header_defs = magic_def version_def ring_size_def slot_size_def slot_count_def
  producer_idx_def consumer_idx_def active_producers_def operations_completed_def
  created_at_def numa_node_def

subsection \<open>Construction and validation\<close>

text \<open>A header value before it is written to the mapping, with the fields in order.\<close>

record ring_header =
  h_magic :: u64
  h_version :: u64
  h_size :: u64
  h_slot_size :: u64
  h_slot_count :: u64
  h_producer_idx :: u64
  h_consumer_idx :: u64
  h_active_producers :: u64
  h_operations_completed :: u64
  h_created_at :: u64
  h_numa_node :: u32
  h_padding :: "u8 list"

definition MAGIC :: u64 where
  "MAGIC = 0x454C474154455242"

definition VERSION :: u64 where
  "VERSION = 1"

text \<open>\<open>RingHeader::new\<close>; the last argument is the creation time in seconds.\<close>

definition header_new :: "profile \<Rightarrow> u64 \<Rightarrow> u64 \<Rightarrow> u64 \<Rightarrow> (ring_error, ring_header) outcome" where
  "header_new p sz ssz now =
     bind_outcome (usize_sub p sz (of_nat sizeof_RingHeader)) (\<lambda>room.
     bind_outcome (usize_div room ssz) (\<lambda>n. Ok
       \<lparr>h_magic = MAGIC, h_version = VERSION, h_size = sz, h_slot_size = ssz,
        h_slot_count = n, h_producer_idx = 0, h_consumer_idx = 0, h_active_producers = 0,
        h_operations_completed = 0, h_created_at = now, h_numa_node = 0,
        h_padding = replicate HEADER_PADDING_SIZE 0\<rparr>))"

text \<open>\<open>ptr::write\<close> of a header value to the start of the mapping.\<close>

definition write_header :: "ring_header \<Rightarrow> mem \<Rightarrow> mem" where
  "write_header h m =
     store (header_offset 11) (h_padding h)
     (store32 (header_offset 10) (h_numa_node h)
     (store64 (header_offset 9) (h_created_at h)
     (store64 (header_offset 8) (h_operations_completed h)
     (store64 (header_offset 7) (h_active_producers h)
     (store64 (header_offset 6) (h_consumer_idx h)
     (store64 (header_offset 5) (h_producer_idx h)
     (store64 (header_offset 4) (h_slot_count h)
     (store64 (header_offset 3) (h_slot_size h)
     (store64 (header_offset 2) (h_size h)
     (store64 (header_offset 1) (h_version h)
     (store64 (header_offset 0) (h_magic h) m)))))))))))"

definition validate :: "mem \<Rightarrow> bool" where
  "validate m \<longleftrightarrow>
     magic m = MAGIC \<and> version m = VERSION \<and> of_nat sizeof_RingHeader < ring_size m \<and>
     0 < slot_size m \<and> 0 < slot_count m"

lemma length_write_header [simp]: "length (write_header h m) = length m"
  by (simp add: write_header_def)

lemma write_header_fields [header_simps]:
  assumes "sizeof_RingHeader \<le> length m"
  shows "magic (write_header h m) = h_magic h" "version (write_header h m) = h_version h"
    "ring_size (write_header h m) = h_size h" "slot_size (write_header h m) = h_slot_size h"
    "slot_count (write_header h m) = h_slot_count h"
    "producer_idx (write_header h m) = h_producer_idx h"
    "consumer_idx (write_header h m) = h_consumer_idx h"
    "active_producers (write_header h m) = h_active_producers h"
    "operations_completed (write_header h m) = h_operations_completed h"
    "created_at (write_header h m) = h_created_at h"
    "numa_node (write_header h m) = h_numa_node h"
  using assms by (simp_all add: write_header_def header_defs layout_simps mem_simps)

text \<open>Whatever happens behind the header leaves every field of it alone.\<close>

lemma header_frame:
  assumes "changes_only lo hi m m'" "sizeof_RingHeader \<le> lo"
  shows "magic m' = magic m" "version m' = version m" "ring_size m' = ring_size m"
    "slot_size m' = slot_size m" "slot_count m' = slot_count m"
    "producer_idx m' = producer_idx m" "consumer_idx m' = consumer_idx m"
    "active_producers m' = active_producers m"
    "operations_completed m' = operations_completed m" "created_at m' = created_at m"
    "numa_node m' = numa_node m"
  using assms(2) atomic_load_changes_only [OF assms(1)]
  by (simp_all add: header_defs layout_simps)

subsection \<open>Advancing an index\<close>

text \<open>
  The loop of \<open>next_producer_idx\<close> and \<open>next_consumer_idx\<close> at the address \<open>off\<close> of the
  index. \<open>compare_exchange_weak\<close> may fail although the values agree: \<open>sp\<close> is the number
  of such failures. After a failure the loop goes on with the value it found.
\<close>

function advance_loop ::
  "profile \<Rightarrow> nat \<Rightarrow> u64 \<Rightarrow> nat \<Rightarrow> u64 \<Rightarrow> mem \<Rightarrow> (ring_error, u64) outcome \<times> mem" where
  "advance_loop p off n sp current m =
     (case bind_outcome (usize_add p current 1) (\<lambda>c. usize_rem c n) of
        Ok nxt \<Rightarrow>
          (if 0 < sp then advance_loop p off n (sp - 1) (load64 off m) m
           else if load64 off m = current then (Ok current, store64 off nxt m)
           else advance_loop p off n sp (load64 off m) m)
      | Err e \<Rightarrow> (Err e, m)
      | Panic e \<Rightarrow> (Panic e, m)
      | UB \<Rightarrow> (UB, m))"
  by pat_completeness auto
termination
  by (relation "measure (\<lambda>(p, off, n, sp, current, m).
        2 * sp + (if load64 off m = current then 0 else 1))") auto

declare advance_loop.simps [simp del]

definition next_producer_idx :: "profile \<Rightarrow> nat \<Rightarrow> mem \<Rightarrow> (ring_error, u64) outcome \<times> mem" where
  "next_producer_idx p sp m =
     advance_loop p (header_offset 5) (slot_count m) sp (producer_idx m) m"

definition next_consumer_idx :: "profile \<Rightarrow> nat \<Rightarrow> mem \<Rightarrow> (ring_error, u64) outcome \<times> mem" where
  "next_consumer_idx p sp m =
     advance_loop p (header_offset 6) (slot_count m) sp (consumer_idx m) m"

subsection \<open>Counters\<close>

text \<open>The atomic read-modify-write operations wrap around in every profile.\<close>

definition increment_completed :: "mem \<Rightarrow> mem" where
  "increment_completed m = store64 (header_offset 8) (operations_completed m + 1) m"

definition register_producer :: "mem \<Rightarrow> mem" where
  "register_producer m = store64 (header_offset 7) (active_producers m + 1) m"

definition unregister_producer :: "mem \<Rightarrow> mem" where
  "unregister_producer m = store64 (header_offset 7) (active_producers m - 1) m"

definition set_numa_node :: "u32 \<Rightarrow> mem \<Rightarrow> mem" where
  "set_numa_node w m = store32 (header_offset 10) w m"

lemma length_counters [simp]:
  "length (increment_completed m) = length m" "length (register_producer m) = length m"
  "length (unregister_producer m) = length m" "length (set_numa_node w m) = length m"
  by (simp_all add: increment_completed_def register_producer_def unregister_producer_def
      set_numa_node_def)

lemma counters_changes:
  "changes_only 0 sizeof_RingHeader m (increment_completed m)"
  "changes_only 0 sizeof_RingHeader m (register_producer m)"
  "changes_only 0 sizeof_RingHeader m (unregister_producer m)"
  "changes_only 0 sizeof_RingHeader m (set_numa_node w m)"
  by (simp_all add: increment_completed_def register_producer_def unregister_producer_def
      set_numa_node_def layout_simps atomic_changes_only)

lemma counters_effect [header_simps]:
  assumes "sizeof_RingHeader \<le> length m"
  shows "operations_completed (increment_completed m) = operations_completed m + 1"
    "active_producers (increment_completed m) = active_producers m"
    "active_producers (register_producer m) = active_producers m + 1"
    "operations_completed (register_producer m) = operations_completed m"
    "active_producers (unregister_producer m) = active_producers m - 1"
    "operations_completed (unregister_producer m) = operations_completed m"
    "numa_node (set_numa_node w m) = w"
    "active_producers (set_numa_node w m) = active_producers m"
    "operations_completed (set_numa_node w m) = operations_completed m"
  using assms
  by (simp_all add: increment_completed_def register_producer_def unregister_producer_def
      set_numa_node_def header_defs layout_simps mem_simps)

text \<open>The fields that describe the geometry and the traffic are not counters.\<close>

lemma counters_other [header_simps]:
  "ring_size (increment_completed m) = ring_size m"
  "slot_size (increment_completed m) = slot_size m"
  "slot_count (increment_completed m) = slot_count m"
  "producer_idx (increment_completed m) = producer_idx m"
  "consumer_idx (increment_completed m) = consumer_idx m"
  "magic (increment_completed m) = magic m" "version (increment_completed m) = version m"
  "ring_size (register_producer m) = ring_size m"
  "slot_size (register_producer m) = slot_size m"
  "slot_count (register_producer m) = slot_count m"
  "producer_idx (register_producer m) = producer_idx m"
  "consumer_idx (register_producer m) = consumer_idx m"
  "magic (register_producer m) = magic m" "version (register_producer m) = version m"
  "ring_size (unregister_producer m) = ring_size m"
  "slot_size (unregister_producer m) = slot_size m"
  "slot_count (unregister_producer m) = slot_count m"
  "producer_idx (unregister_producer m) = producer_idx m"
  "consumer_idx (unregister_producer m) = consumer_idx m"
  "magic (unregister_producer m) = magic m" "version (unregister_producer m) = version m"
  "ring_size (set_numa_node w m) = ring_size m"
  "slot_size (set_numa_node w m) = slot_size m"
  "slot_count (set_numa_node w m) = slot_count m"
  "producer_idx (set_numa_node w m) = producer_idx m"
  "consumer_idx (set_numa_node w m) = consumer_idx m"
  "magic (set_numa_node w m) = magic m" "version (set_numa_node w m) = version m"
  by (simp_all add: increment_completed_def register_producer_def unregister_producer_def
      set_numa_node_def header_defs layout_simps mem_simps)

subsection \<open>The contract of a ring index\<close>

lemma u64_succ:
  assumes "(c :: u64) < n"
  shows "unat (c + 1) = unat c + 1" "unat c + unat (1 :: u64) < 2 ^ 64"
proof -
  have "unat c < unat n" using assms by (simp add: word_less_nat_alt)
  then show *: "unat c + unat (1 :: u64) < 2 ^ 64" using unat_u64_less [of n] by simp
  then show "unat (c + 1) = unat c + 1" using unat_add_fits [OF *] by simp
qed

lemma advance_loop_step:
  assumes "current < n"
  shows "advance_loop p off n sp current m =
    (if 0 < sp then advance_loop p off n (sp - 1) (load64 off m) m
     else if load64 off m = current then (Ok current, store64 off ((current + 1) mod n) m)
     else advance_loop p off n sp (load64 off m) m)"
proof -
  have "n \<noteq> 0" using assms by auto
  then show ?thesis
    using u64_succ(2) [OF assms] by (subst advance_loop.simps) (simp add: outcome_simps)
qed

lemma advance_loop_in_range:
  assumes "current < n" "load64 off m < n"
  shows "advance_loop p off n sp current m =
    (Ok (load64 off m), store64 off ((load64 off m + 1) mod n) m)"
  using assms(1)
proof (induction sp arbitrary: current)
  case 0
  show ?case
    by (simp add: advance_loop_step [OF 0] advance_loop_step [OF assms(2)])
next
  case (Suc sp)
  show ?case using Suc.IH [OF assms(2)] by (simp add: advance_loop_step [OF Suc.prems])
qed

text \<open>Calling an index operation several times, as the users of a ring do in turn.\<close>

primrec take_indices ::
  "(mem \<Rightarrow> (ring_error, u64) outcome \<times> mem) \<Rightarrow> nat \<Rightarrow> mem \<Rightarrow> (ring_error, u64) outcome list \<times> mem" where
  "take_indices nxt 0 m = ([], m)"
| "take_indices nxt (Suc k) m =
     (let (r, m1) = nxt m; (rs, m2) = take_indices nxt k m1 in (r # rs, m2))"

locale ring_index =
  fixes idx :: "mem \<Rightarrow> u64"
    and advance :: "profile \<Rightarrow> nat \<Rightarrow> mem \<Rightarrow> (ring_error, u64) outcome \<times> mem"
    and off :: nat
  assumes behind_geometry: "header_offset 5 \<le> off"
    and in_header: "off + 8 \<le> sizeof_RingHeader"
    and advance_result: "idx m < slot_count m \<Longrightarrow> fst (advance p sp m) = Ok (idx m)"
    and advance_idx: "idx m < slot_count m \<Longrightarrow> sizeof_RingHeader \<le> length m \<Longrightarrow>
      idx (snd (advance p sp m)) = (idx m + 1) mod slot_count m"
    and advance_local: "idx m < slot_count m \<Longrightarrow>
      changes_only off (off + 8) m (snd (advance p sp m))"
begin

lemma advance_geometry:
  assumes "idx m < slot_count m"
  shows "slot_count (snd (advance p sp m)) = slot_count m"
    "slot_size (snd (advance p sp m)) = slot_size m"
    "ring_size (snd (advance p sp m)) = ring_size m"
    "magic (snd (advance p sp m)) = magic m"
    "version (snd (advance p sp m)) = version m"
  using behind_geometry atomic_load_changes_only(2) [OF advance_local [OF assms, of p sp]]
  by (simp_all add: header_defs layout_simps)

lemma length_advance: "idx m < slot_count m \<Longrightarrow> length (snd (advance p sp m)) = length m"
  by (rule changes_only_length [OF advance_local])

lemma advance_changes_header:
  "idx m < slot_count m \<Longrightarrow> changes_only 0 sizeof_RingHeader m (snd (advance p sp m))"
  by (rule changes_only_widen [OF advance_local]) (use in_header in auto)

lemma advance_unat:
  assumes "idx m < slot_count m" "sizeof_RingHeader \<le> length m"
  shows "unat (idx (snd (advance p sp m))) = (unat (idx m) + 1) mod unat (slot_count m)"
  by (simp add: advance_idx [OF assms] unat_mod u64_succ(1) [OF assms(1)])

lemma advance_in_range:
  assumes "idx m < slot_count m" "sizeof_RingHeader \<le> length m"
  shows "idx (snd (advance p sp m)) < slot_count (snd (advance p sp m))"
proof -
  have "0 < unat (slot_count m)" using assms(1) by (auto simp: word_less_nat_alt)
  then show ?thesis
    using advance_unat [OF assms] by (simp add: word_less_nat_alt advance_geometry [OF assms(1)])
qed

text \<open>The values handed out count modulo the number of slots, whatever the spurious
  failures.\<close>

lemma take_indices_advance:
  assumes "idx m < slot_count m" "sizeof_RingHeader \<le> length m"
  shows "map (\<lambda>r. case r of Ok i \<Rightarrow> Some (unat i) | _ \<Rightarrow> None)
      (fst (take_indices (advance p sp) k m)) =
    map (\<lambda>j. Some ((unat (idx m) + j) mod unat (slot_count m))) [0..<k]"
  using assms
proof (induction k arbitrary: m)
  case 0
  then show ?case by simp
next
  case (Suc k)
  obtain m1 where adv: "advance p sp m = (Ok (idx m), m1)"
    using advance_result [OF Suc.prems(1), of p sp] by (metis prod.collapse)
  then have m1: "m1 = snd (advance p sp m)" by simp
  have IH: "map (\<lambda>r. case r of Ok i \<Rightarrow> Some (unat i) | _ \<Rightarrow> None)
      (fst (take_indices (advance p sp) k m1)) =
    map (\<lambda>j. Some ((unat (idx m1) + j) mod unat (slot_count m1))) [0..<k]"
    unfolding m1 using Suc.prems by (intro Suc.IH advance_in_range) (simp_all add: length_advance)
  have lt: "unat (idx m) mod unat (slot_count m) = unat (idx m)"
    using Suc.prems(1) by (simp add: word_less_nat_alt)
  have shift: "(unat (idx m1) + j) mod unat (slot_count m1) =
      (unat (idx m) + Suc j) mod unat (slot_count m)" for j
    unfolding m1 by (simp add: advance_unat [OF Suc.prems] advance_geometry(1) [OF Suc.prems(1)] mod_simps)
  show ?case
    unfolding map_upt_Suc by (simp add: adv split_beta IH shift lt)
qed

end

interpretation producer: ring_index producer_idx next_producer_idx "header_offset 5"
  by unfold_locales
    (auto simp: next_producer_idx_def producer_idx_def advance_loop_in_range layout_simps
      mem_simps atomic_changes_only)

interpretation consumer: ring_index consumer_idx next_consumer_idx "header_offset 6"
  by unfold_locales
    (auto simp: next_consumer_idx_def consumer_idx_def advance_loop_in_range layout_simps
      mem_simps atomic_changes_only)

text \<open>Advancing one index does not touch the other, nor the counters.\<close>

lemma advance_producer_other [header_simps]:
  assumes "producer_idx m < slot_count m"
  shows "consumer_idx (snd (next_producer_idx p sp m)) = consumer_idx m"
    "operations_completed (snd (next_producer_idx p sp m)) = operations_completed m"
    "active_producers (snd (next_producer_idx p sp m)) = active_producers m"
  by (simp_all add: atomic_load_changes_only(2) [OF producer.advance_local [OF assms]]
      consumer_idx_def operations_completed_def active_producers_def layout_simps)

lemma advance_consumer_other [header_simps]:
  assumes "consumer_idx m < slot_count m"
  shows "producer_idx (snd (next_consumer_idx p sp m)) = producer_idx m"
    "operations_completed (snd (next_consumer_idx p sp m)) = operations_completed m"
    "active_producers (snd (next_consumer_idx p sp m)) = active_producers m"
  by (simp_all add: atomic_load_changes_only(2) [OF consumer.advance_local [OF assms]]
      producer_idx_def operations_completed_def active_producers_def layout_simps)

subsection \<open>The state an index leaves behind\<close>

text \<open>With both indices in range, advancing one is a single store, in every profile.\<close>

definition bump_producer :: "mem \<Rightarrow> mem" where
  "bump_producer m = store64 (header_offset 5) ((producer_idx m + 1) mod slot_count m) m"

definition bump_consumer :: "mem \<Rightarrow> mem" where
  "bump_consumer m = store64 (header_offset 6) ((consumer_idx m + 1) mod slot_count m) m"

lemma next_producer_idx_eq:
  "producer_idx m < slot_count m \<Longrightarrow>
   next_producer_idx p sp m = (Ok (producer_idx m), bump_producer m)"
  by (simp add: next_producer_idx_def bump_producer_def producer_idx_def advance_loop_in_range)

lemma next_consumer_idx_eq:
  "consumer_idx m < slot_count m \<Longrightarrow>
   next_consumer_idx p sp m = (Ok (consumer_idx m), bump_consumer m)"
  by (simp add: next_consumer_idx_def bump_consumer_def consumer_idx_def advance_loop_in_range)

lemma bump_changes:
  "changes_only 0 sizeof_RingHeader m (bump_producer m)"
  "changes_only 0 sizeof_RingHeader m (bump_consumer m)"
  by (simp_all add: bump_producer_def bump_consumer_def layout_simps atomic_changes_only)

lemma length_bump [simp]:
  "length (bump_producer m) = length m" "length (bump_consumer m) = length m"
  by (simp_all add: bump_producer_def bump_consumer_def)

lemma bump_other [header_simps]:
  "slot_count (bump_producer m) = slot_count m" "consumer_idx (bump_producer m) = consumer_idx m"
  "operations_completed (bump_producer m) = operations_completed m"
  "active_producers (bump_producer m) = active_producers m"
  "slot_count (bump_consumer m) = slot_count m" "producer_idx (bump_consumer m) = producer_idx m"
  "operations_completed (bump_consumer m) = operations_completed m"
  "active_producers (bump_consumer m) = active_producers m"
  by (simp_all add: bump_producer_def bump_consumer_def header_defs layout_simps mem_simps)

lemma bump_idx [header_simps]:
  assumes "sizeof_RingHeader \<le> length m"
  shows "producer_idx (bump_producer m) = (producer_idx m + 1) mod slot_count m"
    "consumer_idx (bump_consumer m) = (consumer_idx m + 1) mod slot_count m"
  using assms
  by (simp_all add: bump_producer_def bump_consumer_def header_defs layout_simps mem_simps)

lemma unat_succ_mod:
  "(i :: u64) < n \<Longrightarrow> unat ((i + 1) mod n) = (unat i + 1) mod unat n"
  by (simp add: unat_mod u64_succ(1))

end
