(* ===== verification/Ring_Buffer.thy ===== *)
theory Ring_Buffer
  imports Ring_Slot Ring_Header
begin

text \<open>
  The ring buffer (\<open>ring/buffer.rs\<close>, \<open>ring/mod.rs\<close>): options, creation and opening,
  the search for a free slot with its retries and its backoff, \<open>write\<close>, \<open>read\<close>, and
  the registration of producers. Each operation is one call that is not interrupted; what
  other processes do while a call sleeps is a parameter of \<open>wait_for_slot\<close>.
\<close>

subsection \<open>Options and handles\<close>

record ring_options =
  opt_path :: string
  opt_size :: u64
  opt_slot_size :: u64

definition DEFAULT_RING_PATH :: string where "DEFAULT_RING_PATH = ''/dev/shm/elgate_ring''"
definition DEFAULT_RING_SIZE :: u64 where "DEFAULT_RING_SIZE = 4 * 1024 * 1024"
definition DEFAULT_SLOT_SIZE :: u64 where "DEFAULT_SLOT_SIZE = 4 * 1024"

definition default_options :: ring_options where
  "default_options = \<lparr>opt_path = DEFAULT_RING_PATH, opt_size = DEFAULT_RING_SIZE,
     opt_slot_size = DEFAULT_SLOT_SIZE\<rparr>"

text \<open>A handle on a ring; the mapping it refers to is passed separately.\<close>

record ring_buffer =
  rb_path :: string
  rb_size :: u64
  rb_slot_size :: u64
  rb_is_producer :: bool

text \<open>
  The operating system and the \<open>memmap2\<close> crate: whether the file opens, whether it can be
  resized to a length, whether a file of a length can be mapped.
\<close>

record os =
  os_open :: bool
  os_set_len :: "u64 \<Rightarrow> bool"
  os_map :: "nat \<Rightarrow> bool"

subsection \<open>Slots by index\<close>

text \<open>
  \<open>get_slot\<close>. That the slot's address stays in the mapping is checked with the payload
  pointer in \<open>from_ptr\<close>.
\<close>

definition get_slot :: "profile \<Rightarrow> mem \<Rightarrow> u64 \<Rightarrow> u64 \<Rightarrow> (ring_error, slot) outcome" where
  "get_slot p m idx ssz =
     (if \<not> idx < slot_count m then Panic AssertionFailed
      else
        bind_outcome (usize_mul p idx ssz) (\<lambda>d.
        bind_outcome (usize_add p (of_nat sizeof_RingHeader) d) (\<lambda>off.
        from_ptr p (unat off) ssz m)))"

primrec reset_slots ::
  "profile \<Rightarrow> 'u uuid_crate \<Rightarrow> u64 \<Rightarrow> nat list \<Rightarrow> mem \<Rightarrow> (ring_error, mem) outcome" where
  "reset_slots p U ssz [] m = Ok m"
| "reset_slots p U ssz (i # is) m =
     bind_outcome (get_slot p m (of_nat i) ssz) (\<lambda>s. reset_slots p U ssz is (reset U s m))"

subsection \<open>Creating and opening\<close>

text \<open>
  The file is truncated and resized, so the mapping starts as zero bytes. Writing the
  header to a mapping shorter than the header is undefined behaviour.
\<close>

definition ring_create ::
  "profile \<Rightarrow> os \<Rightarrow> 'u uuid_crate \<Rightarrow> clock \<Rightarrow> ring_options
    \<Rightarrow> (ring_error, ring_buffer \<times> mem) outcome" where
  "ring_create p W U now opts =
     (if \<not> os_open W then Err CreateFailed
      else if \<not> os_set_len W (opt_size opts) then Err ResizeFailed
      else if \<not> os_map W (unat (opt_size opts)) then Err MapFailed
      else
        let m0 = replicate (unat (opt_size opts)) 0 in
        bind_outcome (header_new p (opt_size opts) (opt_slot_size opts) (as_secs now)) (\<lambda>h.
        if length m0 < sizeof_RingHeader then UB
        else
          let m1 = register_producer (write_header h m0) in
          bind_outcome (reset_slots p U (opt_slot_size opts) [0..<unat (slot_count m1)] m1) (\<lambda>m2.
          Ok (\<lparr>rb_path = opt_path opts, rb_size = opt_size opts,
               rb_slot_size = opt_slot_size opts, rb_is_producer = True\<rparr>, m2))))"

text \<open>
  \<open>open\<close>: the size and the slot size come from the header, not from the options (a
  difference is only reported).
\<close>

definition ring_open :: "os \<Rightarrow> ring_options \<Rightarrow> mem \<Rightarrow> (ring_error, ring_buffer) outcome" where
  "ring_open W opts m =
     (if \<not> os_open W then Err OpenFailed
      else if \<not> os_map W (length m) then Err MapFailed
      else if length m < sizeof_RingHeader then UB
      else if \<not> validate m then Err InvalidHeader
      else Ok \<lparr>rb_path = opt_path opts, rb_size = ring_size m,
               rb_slot_size = slot_size m, rb_is_producer = False\<rparr>)"

definition create_ring_buffer ::
  "profile \<Rightarrow> os \<Rightarrow> 'u uuid_crate \<Rightarrow> clock \<Rightarrow> (ring_error, ring_buffer \<times> mem) outcome" where
  "create_ring_buffer p W U now = ring_create p W U now default_options"

definition open_ring_buffer :: "os \<Rightarrow> mem \<Rightarrow> (ring_error, ring_buffer) outcome" where
  "open_ring_buffer W m = ring_open W default_options m"

definition get_default_ring_path :: string where
  "get_default_ring_path = DEFAULT_RING_PATH"

subsection \<open>Waiting for a slot\<close>

definition max_payload_size :: "profile \<Rightarrow> ring_buffer \<Rightarrow> (ring_error, u64) outcome" where
  "max_payload_size p rb = usize_sub p (rb_slot_size rb) (of_nat sizeof_SlotMetadata)"

definition available_slots :: "profile \<Rightarrow> u64 \<Rightarrow> mem \<Rightarrow> (ring_error, u64) outcome" where
  "available_slots p n m =
     (if consumer_idx m \<le> producer_idx m
      then bind_outcome (usize_sub p (producer_idx m) (consumer_idx m)) (\<lambda>d. usize_sub p n d)
      else usize_sub p (consumer_idx m) (producer_idx m))"

text \<open>
  One round of the loop in \<open>wait_for_slot\<close>: the index is advanced before the slot behind
  it is looked at. \<open>None\<close> stands for going on to the next round.
\<close>

definition try_slot ::
  "profile \<Rightarrow> 'u uuid_crate \<Rightarrow> nat \<Rightarrow> ring_buffer \<Rightarrow> u64 \<Rightarrow> mem
    \<Rightarrow> (ring_error, u64 option) outcome \<times> mem" where
  "try_slot p U sp rb n m =
     and_then (available_slots p n m, m) (\<lambda>available m.
     if 0 < available then
       and_then (next_producer_idx p sp m) (\<lambda>idx m1.
       and_then (get_slot p m1 idx (rb_slot_size rb), m1) (\<lambda>s m1.
       if status s m1 = Empty \<or> status s m1 = Complete
       then (Ok (Some idx), reset U s m1)
       else (Ok None, m1)))
     else (Ok None, m))"

definition max_attempts :: nat where
  "max_attempts = 10"

text \<open>
  The surroundings of a call: the spurious failures of its compare-and-swap loop in each
  attempt, and what other processes do to the mapping while the call sleeps after an
  attempt for a number of milliseconds.
\<close>

record ring_env =
  env_spurious :: "nat \<Rightarrow> nat"
  env_sleep :: "nat \<Rightarrow> nat \<Rightarrow> mem \<Rightarrow> mem"

text \<open>The last component lists the times slept.\<close>

function wait_loop ::
  "profile \<Rightarrow> 'u uuid_crate \<Rightarrow> ring_env \<Rightarrow> ring_buffer \<Rightarrow> u64 \<Rightarrow> nat \<Rightarrow> nat \<Rightarrow> mem
    \<Rightarrow> (ring_error, u64) outcome \<times> mem \<times> nat list" where
  "wait_loop p U E rb n attempt backoff m =
     (case try_slot p U (env_spurious E attempt) rb n m of
        (Ok (Some idx), m1) \<Rightarrow> (Ok idx, m1, [])
      | (Ok None, m1) \<Rightarrow>
          (if max_attempts < attempt + 1 then (Err (RingBufferFull max_attempts), m1, [])
           else
             (case wait_loop p U E rb n (attempt + 1) (min (backoff * 2) 100)
                     (env_sleep E attempt backoff m1) of
                (r, m2, slept) \<Rightarrow> (r, m2, backoff # slept)))
      | (Err e, m1) \<Rightarrow> (Err e, m1, [])
      | (Panic e, m1) \<Rightarrow> (Panic e, m1, [])
      | (UB, m1) \<Rightarrow> (UB, m1, []))"
  by pat_completeness auto
termination
  by (relation "measure (\<lambda>(p, U, E, rb, n, attempt, backoff, m). max_attempts - attempt)") auto

declare wait_loop.simps [simp del]

definition wait_for_slot ::
  "profile \<Rightarrow> 'u uuid_crate \<Rightarrow> ring_env \<Rightarrow> ring_buffer \<Rightarrow> mem
    \<Rightarrow> (ring_error, u64) outcome \<times> mem \<times> nat list" where
  "wait_for_slot p U E rb m = wait_loop p U E rb (slot_count m) 0 1 m"

subsection \<open>Writing and reading\<close>

text \<open>\<open>u\<close> is the fresh UUID of the operation, \<open>now\<close> the clock when the data is stored.\<close>

definition ring_write ::
  "profile \<Rightarrow> 'u uuid_crate \<Rightarrow> ring_env \<Rightarrow> 'u \<Rightarrow> clock \<Rightarrow> ring_buffer
    \<Rightarrow> operation_kind \<Rightarrow> u8 list \<Rightarrow> mem \<Rightarrow> (ring_error, u64) outcome \<times> mem" where
  "ring_write p U E u now rb kind data m =
     and_then (max_payload_size p rb, m) (\<lambda>mx m.
     if unat mx < length data then (Err DataTooLarge, m)
     else
       (case wait_for_slot p U E rb m of (r, m1, slept) \<Rightarrow>
          and_then (r, m1) (\<lambda>idx m1.
          and_then (get_slot p m1 idx (rb_slot_size rb), m1) (\<lambda>s m1.
          let m2 = set_operation s kind m1;
              m3 = set_id U s u m2
          in and_then (write_data s now data m3) (\<lambda>_ m4. (Ok idx, m4))))))"

definition ring_read ::
  "profile \<Rightarrow> 'u uuid_crate \<Rightarrow> nat \<Rightarrow> ring_buffer \<Rightarrow> mem
    \<Rightarrow> (ring_error, (operation_kind \<times> u8 list) option) outcome \<times> mem" where
  "ring_read p U sp rb m =
     (if producer_idx m = consumer_idx m then (Ok None, m)
      else
        and_then (next_consumer_idx p sp m) (\<lambda>idx m1.
        and_then (get_slot p m1 idx (rb_slot_size rb), m1) (\<lambda>s m1.
        if status s m1 = Ready then
          let kind = operation s m1 in
          and_then (read_data s m1) (\<lambda>d m2.
          case d of
            Some data \<Rightarrow> (Ok (Some (kind, data)), increment_completed m2)
          | None \<Rightarrow> (Ok None, reset U s m2))
        else (Ok None, reset U s m1))))"

subsection \<open>Queries\<close>

definition ring_path :: "ring_buffer \<Rightarrow> string" where
  "ring_path rb = rb_path rb"

definition handle_size :: "ring_buffer \<Rightarrow> u64" where
  "handle_size rb = rb_size rb"

definition handle_slot_size :: "ring_buffer \<Rightarrow> u64" where
  "handle_slot_size rb = rb_slot_size rb"

definition ring_slot_count :: "ring_buffer \<Rightarrow> mem \<Rightarrow> u64" where
  "ring_slot_count rb m = slot_count m"

definition ring_active_producers :: "ring_buffer \<Rightarrow> mem \<Rightarrow> u64" where
  "ring_active_producers rb m = active_producers m"

definition ring_operations_completed :: "ring_buffer \<Rightarrow> mem \<Rightarrow> u64" where
  "ring_operations_completed rb m = operations_completed m"

definition ring_created_at :: "ring_buffer \<Rightarrow> mem \<Rightarrow> u64" where
  "ring_created_at rb m = created_at m"

definition is_producer :: "ring_buffer \<Rightarrow> bool" where
  "is_producer rb = rb_is_producer rb"

subsection \<open>Producers\<close>

definition register_as_producer :: "ring_buffer \<times> mem \<Rightarrow> ring_buffer \<times> mem" where
  "register_as_producer = (\<lambda>(rb, m).
     if \<not> rb_is_producer rb then (rb\<lparr>rb_is_producer := True\<rparr>, register_producer m)
     else (rb, m))"

definition unregister_as_producer :: "ring_buffer \<times> mem \<Rightarrow> ring_buffer \<times> mem" where
  "unregister_as_producer = (\<lambda>(rb, m).
     if rb_is_producer rb then (rb\<lparr>rb_is_producer := False\<rparr>, unregister_producer m)
     else (rb, m))"

text \<open>\<open>drop\<close>: the mapping a dropped handle leaves behind.\<close>

definition ring_drop :: "ring_buffer \<times> mem \<Rightarrow> mem" where
  "ring_drop = (\<lambda>(rb, m).
     if rb_is_producer rb then snd (unregister_as_producer (rb, m)) else m)"

end
