(* ===== verification/Ring_Geometry.thy ===== *)
theory Ring_Geometry
  imports Ring_Buffer
begin

text \<open>
  The geometry of a ring: when the slots of a mapping lie in it, are aligned and do not
  overlap, so that \<open>get_slot\<close> returns a handle for every index and an operation on one
  slot leaves the header and the other slots alone.
\<close>

definition slot_at :: "ring_buffer \<Rightarrow> nat \<Rightarrow> slot" where
  "slot_at rb i =
     \<lparr>slot_base = sizeof_RingHeader + i * unat (rb_slot_size rb),
      data_size = rb_slot_size rb - of_nat sizeof_SlotMetadata\<rparr>"

definition ring_geometry :: "ring_buffer \<Rightarrow> mem \<Rightarrow> bool" where
  "ring_geometry rb m \<longleftrightarrow>
     length m < 2 ^ 63 \<and>
     sizeof_SlotMetadata \<le> unat (rb_slot_size rb) \<and> 64 dvd unat (rb_slot_size rb) \<and>
     0 < unat (slot_count m) \<and>
     sizeof_RingHeader + unat (slot_count m) * unat (rb_slot_size rb) \<le> length m"

lemma ring_geometryD:
  assumes "ring_geometry rb m"
  shows "length m < 2 ^ 63" "64 \<le> unat (rb_slot_size rb)" "64 dvd unat (rb_slot_size rb)"
    "0 < unat (slot_count m)" "192 + unat (slot_count m) * unat (rb_slot_size rb) \<le> length m"
    "sizeof_RingHeader \<le> length m"
  using assms by (simp_all add: ring_geometry_def layout_simps)

lemma ring_geometry_cong:
  "length m' = length m \<Longrightarrow> slot_count m' = slot_count m \<Longrightarrow>
   ring_geometry rb m' = ring_geometry rb m"
  by (simp add: ring_geometry_def)

lemma slot_at_simps [layout_simps]:
  assumes "64 \<le> unat (rb_slot_size rb)"
  shows "slot_base (slot_at rb i) = 192 + i * unat (rb_slot_size rb)"
    "slot_end (slot_at rb i) = 192 + Suc i * unat (rb_slot_size rb)"
    "slot_data (slot_at rb i) = 192 + i * unat (rb_slot_size rb) + 64"
    "unat (data_size (slot_at rb i)) = unat (rb_slot_size rb) - 64"
proof -
  have "unat (rb_slot_size rb - 64) = unat (rb_slot_size rb) - 64"
    using assms by (intro unat_sub_fits [THEN trans]) (simp_all add: word_le_nat_alt)
  then show "slot_base (slot_at rb i) = 192 + i * unat (rb_slot_size rb)"
    "slot_end (slot_at rb i) = 192 + Suc i * unat (rb_slot_size rb)"
    "slot_data (slot_at rb i) = 192 + i * unat (rb_slot_size rb) + 64"
    "unat (data_size (slot_at rb i)) = unat (rb_slot_size rb) - 64"
    using assms by (simp_all add: slot_at_def slot_end_def slot_data_def layout_simps)
qed

lemma slot_bound:
  assumes "ring_geometry rb m" "i < unat (slot_count m)"
  shows "192 + Suc i * unat (rb_slot_size rb) \<le> length m"
proof -
  have "Suc i * unat (rb_slot_size rb) \<le> unat (slot_count m) * unat (rb_slot_size rb)"
    using assms(2) by (intro mult_le_mono1) simp
  then show ?thesis using ring_geometryD(5) [OF assms(1)] by linarith
qed

text \<open>Every slot of the ring lies in the mapping.\<close>

lemma slot_at_in:
  assumes "ring_geometry rb m" "i < unat (slot_count m)"
  shows "slot_in (slot_at rb i) m"
  using slot_bound [OF assms] ring_geometryD(2) [OF assms(1)]
  by (simp add: slot_in_def layout_simps)

text \<open>No slot overlaps the header or another slot.\<close>

lemma slots_behind_header:
  "64 \<le> unat (rb_slot_size rb) \<Longrightarrow> sizeof_RingHeader \<le> slot_base (slot_at rb i)"
  by (simp add: layout_simps)

lemma slots_disjoint:
  assumes "64 \<le> unat (rb_slot_size rb)" "i \<noteq> j"
  shows "slot_end (slot_at rb i) \<le> slot_base (slot_at rb j) \<or>
    slot_end (slot_at rb j) \<le> slot_base (slot_at rb i)"
proof -
  have "Suc i \<le> j \<or> Suc j \<le> i" using assms(2) by auto
  then have "Suc i * unat (rb_slot_size rb) \<le> j * unat (rb_slot_size rb) \<or>
      Suc j * unat (rb_slot_size rb) \<le> i * unat (rb_slot_size rb)"
    by (meson mult_le_mono1)
  then show ?thesis using assms(1) by (simp only: layout_simps) linarith
qed

lemma get_slot_in_range:
  assumes "ring_geometry rb m" "idx < slot_count m"
  shows "get_slot p m idx (rb_slot_size rb) = Ok (slot_at rb (unat idx))"
proof -
  let ?ss = "rb_slot_size rb"
  note geo = ring_geometryD [OF assms(1)]
  have i: "unat idx < unat (slot_count m)" using assms(2) by (simp add: word_less_nat_alt)
  have "192 + (unat ?ss + unat idx * unat ?ss) \<le> length m"
    using slot_bound [OF assms(1) i] by simp
  then have off: "192 + unat idx * unat ?ss + 64 \<le> length m" using geo(2) by linarith
  then have small: "192 + unat idx * unat ?ss < 2 ^ 64" using geo(1) by simp
  then have mult: "unat (idx * ?ss) = unat idx * unat ?ss"
    by (intro unat_mul_fits) linarith
  have add: "unat (192 + idx * ?ss) = 192 + unat idx * unat ?ss"
    using small by (subst unat_add_fits) (simp_all add: mult)
  have dv: "64 dvd 192 + unat idx * unat ?ss"
    using geo(3) by (intro dvd_add dvd_mult) simp_all
  have fits: "unat idx * unat ?ss < 2 ^ 64" "unat (192 :: u64) + unat (idx * ?ss) < 2 ^ 64"
    "64 \<le> ?ss"
    using small geo(2) by (simp_all add: mult word_le_nat_alt)
  show ?thesis
    using assms(2) off dv
    by (simp add: get_slot_def from_ptr_def layout_simps add slot_at_def
        usize_mul_fits [OF fits(1)] usize_add_fits [OF fits(2)] usize_sub_fits [OF fits(3)])
qed

subsection \<open>Frames of slot operations in the ring\<close>

text \<open>\<open>in_slot rb i m m'\<close>: only the region of slot \<open>i\<close> has changed.\<close>

abbreviation in_slot :: "ring_buffer \<Rightarrow> nat \<Rightarrow> mem \<Rightarrow> mem \<Rightarrow> bool" where
  "in_slot rb i \<equiv> changes_only (slot_base (slot_at rb i)) (slot_end (slot_at rb i))"

lemma in_slot_header:
  assumes "in_slot rb i m m'" "64 \<le> unat (rb_slot_size rb)"
  shows "slot_count m' = slot_count m" "producer_idx m' = producer_idx m"
    "consumer_idx m' = consumer_idx m" "operations_completed m' = operations_completed m"
    "active_producers m' = active_producers m" "slot_size m' = slot_size m"
    "ring_size m' = ring_size m" "magic m' = magic m" "version m' = version m"
    "created_at m' = created_at m" "numa_node m' = numa_node m"
  using header_frame [OF assms(1) slots_behind_header [OF assms(2)]] by simp_all

lemma in_slot_geometry:
  assumes "in_slot rb i m m'" "ring_geometry rb m"
  shows "ring_geometry rb m'"
proof -
  have "slot_count m' = slot_count m"
    by (rule in_slot_header(1) [OF assms(1) ring_geometryD(2) [OF assms(2)]])
  then show ?thesis
    using ring_geometry_cong [OF changes_only_length [OF assms(1)]] assms(2) by simp
qed

lemma in_slot_other:
  assumes "in_slot rb i m m'" "64 \<le> unat (rb_slot_size rb)" "i \<noteq> j"
  shows "status (slot_at rb j) m' = status (slot_at rb j) m"
    "operation (slot_at rb j) m' = operation (slot_at rb j) m"
    "payload_size (slot_at rb j) m' = payload_size (slot_at rb j) m"
    "unat (payload_size (slot_at rb j) m) \<le> unat (data_size (slot_at rb j)) \<Longrightarrow>
       payload (slot_at rb j) m' = payload (slot_at rb j) m"
  using assms(1) slots_disjoint [OF assms(2,3)]
  by (blast intro: status_field.get_other_slot operation_field.get_other_slot
      size_field.get_other_slot payload_other_slot)+

text \<open>A change of the header leaves every slot alone.\<close>

lemma header_change_slot:
  assumes "changes_only 0 sizeof_RingHeader m m'" "64 \<le> unat (rb_slot_size rb)"
  shows "status (slot_at rb j) m' = status (slot_at rb j) m"
    "operation (slot_at rb j) m' = operation (slot_at rb j) m"
    "payload_size (slot_at rb j) m' = payload_size (slot_at rb j) m"
    "payload (slot_at rb j) m' = payload (slot_at rb j) m"
proof -
  have b: "sizeof_RingHeader \<le> slot_base (slot_at rb j)"
    by (rule slots_behind_header [OF assms(2)])
  show "status (slot_at rb j) m' = status (slot_at rb j) m"
    "operation (slot_at rb j) m' = operation (slot_at rb j) m"
    and sz: "payload_size (slot_at rb j) m' = payload_size (slot_at rb j) m"
    by (rule status_field.get_local [OF assms(1)] operation_field.get_local [OF assms(1)]
        size_field.get_local [OF assms(1)], use b in simp)+
  have "load (slot_data (slot_at rb j)) k m' = load (slot_data (slot_at rb j)) k m" for k
    by (rule load_changes_only [OF assms(1)]) (use b in \<open>simp add: slot_data_def\<close>)
  then show "payload (slot_at rb j) m' = payload (slot_at rb j) m"
    by (simp add: payload_def sz)
qed

end
