(* ===== verification/Ring_Queue.thy ===== *)
theory Ring_Queue
  imports Ring_Geometry
begin

text \<open>
  The ring as a queue. The abstraction \<open>ring_queue\<close> reads the slots from the consumer
  index up to the producer index; \<open>ring_wf\<close> says that these slots are ready and all
  others free. A write appends to the queue and a read takes its first element, as long
  as one slot stays free.
\<close>

subsection \<open>The abstraction\<close>

definition pending :: "mem \<Rightarrow> nat" where
  "pending m = (unat (producer_idx m) + unat (slot_count m) - unat (consumer_idx m))
     mod unat (slot_count m)"

text \<open>The slot at a distance from the consumer index.\<close>

definition ring_slot :: "ring_buffer \<Rightarrow> mem \<Rightarrow> nat \<Rightarrow> slot" where
  "ring_slot rb m k = slot_at rb ((unat (consumer_idx m) + k) mod unat (slot_count m))"

definition entry :: "slot \<Rightarrow> mem \<Rightarrow> operation_kind \<times> u8 list" where
  "entry s m = (operation s m, payload s m)"

definition ring_queue :: "ring_buffer \<Rightarrow> mem \<Rightarrow> (operation_kind \<times> u8 list) list" where
  "ring_queue rb m = map (\<lambda>k. entry (ring_slot rb m k) m) [0..<pending m]"

definition slot_ready :: "slot \<Rightarrow> mem \<Rightarrow> bool" where
  "slot_ready s m \<longleftrightarrow> status s m = Ready \<and> unat (payload_size s m) \<le> unat (data_size s)"

definition slot_free :: "slot \<Rightarrow> mem \<Rightarrow> bool" where
  "slot_free s m \<longleftrightarrow> status s m = Empty \<or> status s m = Complete"

definition indices_in_range :: "mem \<Rightarrow> bool" where
  "indices_in_range m \<longleftrightarrow> producer_idx m < slot_count m \<and> consumer_idx m < slot_count m"

definition ring_wf :: "ring_buffer \<Rightarrow> mem \<Rightarrow> bool" where
  "ring_wf rb m \<longleftrightarrow> ring_geometry rb m \<and> indices_in_range m \<and>
     (\<forall>k<pending m. slot_ready (ring_slot rb m k) m) \<and>
     (\<forall>k<unat (slot_count m). pending m \<le> k \<longrightarrow> slot_free (ring_slot rb m k) m)"

text \<open>The largest payload a slot takes.\<close>

definition max_payload :: "ring_buffer \<Rightarrow> nat" where
  "max_payload rb = unat (rb_slot_size rb) - sizeof_SlotMetadata"

lemma length_ring_queue [simp]: "length (ring_queue rb m) = pending m"
  by (simp add: ring_queue_def)

lemma ring_wfD:
  assumes "ring_wf rb m"
  shows "ring_geometry rb m" "producer_idx m < slot_count m" "consumer_idx m < slot_count m"
    "indices_in_range m"
  using assms by (simp_all add: ring_wf_def indices_in_range_def)

subsection \<open>Counting modulo the number of slots\<close>

lemma pending_less: "0 < unat (slot_count m) \<Longrightarrow> pending m < unat (slot_count m)"
  by (simp add: pending_def)

lemma distance_unique:
  fixes c q n :: nat
  assumes "c < n" "q < n"
  shows "((c + q) mod n + n - c) mod n = q"
proof (cases "c + q < n")
  case True
  then show ?thesis using assms by simp
next
  case False
  then have "(c + q) mod n = c + q - n" using assms by (simp add: mod_if)
  then show ?thesis using False assms by simp
qed

lemma producer_at_pending:
  assumes "indices_in_range m"
  shows "unat (producer_idx m) = (unat (consumer_idx m) + pending m) mod unat (slot_count m)"
proof -
  let ?p = "unat (producer_idx m)" and ?c = "unat (consumer_idx m)" and ?n = "unat (slot_count m)"
  have r: "?p < ?n" "?c < ?n"
    using assms by (simp_all add: indices_in_range_def word_less_nat_alt)
  have "(?c + (?p + ?n - ?c) mod ?n) mod ?n = (?c + (?p + ?n - ?c)) mod ?n"
    by (simp add: mod_add_right_eq)
  also have "\<dots> = ?p" using r by simp
  finally show ?thesis by (simp add: pending_def)
qed

lemma pendingI:
  assumes "unat (consumer_idx m) < unat (slot_count m)" "q < unat (slot_count m)"
    "unat (producer_idx m) = (unat (consumer_idx m) + q) mod unat (slot_count m)"
  shows "pending m = q"
  unfolding pending_def assms(3) by (rule distance_unique [OF assms(1,2)])

lemma pending_eq_0_iff:
  assumes "indices_in_range m"
  shows "pending m = 0 \<longleftrightarrow> producer_idx m = consumer_idx m"
proof
  assume "pending m = 0"
  then have "unat (producer_idx m) = unat (consumer_idx m) mod unat (slot_count m)"
    using producer_at_pending [OF assms] by simp
  also have "\<dots> = unat (consumer_idx m)"
    using assms by (simp add: indices_in_range_def word_less_nat_alt)
  finally show "producer_idx m = consumer_idx m" by (rule unsigned_word_eqI)
qed (simp add: pending_def)

lemma ring_slot_pending:
  "indices_in_range m \<Longrightarrow> ring_slot rb m (pending m) = slot_at rb (unat (producer_idx m))"
  by (simp add: ring_slot_def producer_at_pending)

lemma ring_slot_0:
  "indices_in_range m \<Longrightarrow> ring_slot rb m 0 = slot_at rb (unat (consumer_idx m))"
  by (simp add: ring_slot_def indices_in_range_def word_less_nat_alt)

text \<open>Slots at different distances below the number of slots have different indices.\<close>

lemma ring_slot_index_inj:
  "(c + i) mod n = (c + j) mod n \<Longrightarrow> i < n \<Longrightarrow> j < n \<Longrightarrow> i = (j :: nat)"
  by (rule mod_add_cancel_left)

subsection \<open>How many slots a producer believes available\<close>

text \<open>
  The number \<open>wait_for_slot\<close> computes is the number of slots less the pending ones, and
  at least one.
\<close>

lemma available_slots_value:
  assumes "indices_in_range m"
  obtains a where "available_slots p (slot_count m) m = Ok a"
    "unat a = unat (slot_count m) - pending m" "0 < a"
proof -
  let ?P = "producer_idx m" and ?C = "consumer_idx m" and ?N = "slot_count m"
  have r: "unat ?P < unat ?N" "unat ?C < unat ?N"
    using assms by (simp_all add: indices_in_range_def word_less_nat_alt)
  then have pos: "pending m < unat ?N" by (intro pending_less) simp
  show ?thesis
  proof (cases "?C \<le> ?P")
    case True
    have d: "unat (?P - ?C) = unat ?P - unat ?C" by (rule unat_sub_fits [OF True])
    then have le: "?P - ?C \<le> ?N" using r by (simp add: word_le_nat_alt)
    have shift: "unat ?P + unat ?N - unat ?C = (unat ?P - unat ?C) + unat ?N"
      using True by (simp add: word_le_nat_alt)
    have q: "pending m = unat ?P - unat ?C" unfolding pending_def shift using r by simp
    have "available_slots p ?N m = Ok (?N - (?P - ?C))"
      using True le by (simp add: available_slots_def outcome_simps)
    moreover have "unat (?N - (?P - ?C)) = unat ?N - pending m"
      by (simp add: unat_sub_fits [OF le] d q)
    ultimately show ?thesis using that pos by (metis unat_gt_0 zero_less_diff word_gt_0 unat_0 less_numeral_extra(3))
  next
    case False
    then have le: "?P \<le> ?C" by simp
    have d: "unat (?C - ?P) = unat ?C - unat ?P" by (rule unat_sub_fits [OF le])
    have q: "pending m = unat ?P + unat ?N - unat ?C"
      using False r by (simp add: pending_def word_le_nat_alt)
    have "available_slots p ?N m = Ok (?C - ?P)"
      using False le by (simp add: available_slots_def outcome_simps)
    moreover have "unat (?C - ?P) = unat ?N - pending m"
      using r False by (simp add: d q word_le_nat_alt)
    ultimately show ?thesis using that pos by (metis unat_gt_0 zero_less_diff word_gt_0 unat_0 less_numeral_extra(3))
  qed
qed

subsection \<open>One round of the search for a slot\<close>

lemma bump_geometry:
  "ring_geometry rb m \<Longrightarrow> ring_geometry rb (bump_producer m)"
  "ring_geometry rb m \<Longrightarrow> ring_geometry rb (bump_consumer m)"
  by (simp_all add: ring_geometry_def header_simps)

lemma bump_slot:
  assumes "ring_geometry rb m"
  shows "status (slot_at rb j) (bump_producer m) = status (slot_at rb j) m"
    "operation (slot_at rb j) (bump_producer m) = operation (slot_at rb j) m"
    "payload_size (slot_at rb j) (bump_producer m) = payload_size (slot_at rb j) m"
    "payload (slot_at rb j) (bump_producer m) = payload (slot_at rb j) m"
    "status (slot_at rb j) (bump_consumer m) = status (slot_at rb j) m"
    "operation (slot_at rb j) (bump_consumer m) = operation (slot_at rb j) m"
    "payload_size (slot_at rb j) (bump_consumer m) = payload_size (slot_at rb j) m"
    "payload (slot_at rb j) (bump_consumer m) = payload (slot_at rb j) m"
  using header_change_slot [OF bump_changes(1) ring_geometryD(2) [OF assms]]
    header_change_slot [OF bump_changes(2) ring_geometryD(2) [OF assms]]
  by simp_all

lemma bump_in_range:
  assumes "ring_geometry rb m" "indices_in_range m"
  shows "indices_in_range (bump_producer m)" "indices_in_range (bump_consumer m)"
proof -
  have "0 < unat (slot_count m)" by (rule ring_geometryD(4) [OF assms(1)])
  then have "(w :: u64) mod slot_count m < slot_count m" for w
    by (simp add: word_less_nat_alt unat_mod)
  then show "indices_in_range (bump_producer m)" "indices_in_range (bump_consumer m)"
    using assms by (simp_all add: indices_in_range_def header_simps ring_geometryD(6))
qed

text \<open>
  A round advances the producer index by one whatever it finds: a free slot is reset and
  claimed, any other slot is passed over.
\<close>

lemma try_slot_eq:
  assumes geo: "ring_geometry rb m" and rng: "indices_in_range m"
  defines "s \<equiv> slot_at rb (unat (producer_idx m))"
  shows "try_slot p U sp rb (slot_count m) m =
    (if slot_free s m then (Ok (Some (producer_idx m)), reset U s (bump_producer m))
     else (Ok None, bump_producer m))"
proof -
  obtain a where a: "available_slots p (slot_count m) m = Ok a" "0 < a"
    using available_slots_value [OF rng] by metis
  have p: "producer_idx m < slot_count m" using rng by (simp add: indices_in_range_def)
  have g: "get_slot p (bump_producer m) (producer_idx m) (rb_slot_size rb) = Ok s"
    unfolding s_def
    by (rule get_slot_in_range [OF bump_geometry(1) [OF geo]]) (simp add: header_simps p)
  show ?thesis
    by (simp add: try_slot_def a next_producer_idx_eq [OF p] g slot_free_def s_def
        bump_slot [OF geo])
qed

subsection \<open>A write to a free slot, a read of a ready one\<close>

lemma wait_for_slot_free:
  assumes "ring_geometry rb m" "indices_in_range m"
    and "slot_free (slot_at rb (unat (producer_idx m))) m"
  shows "wait_for_slot p U E rb m =
    (Ok (producer_idx m), reset U (slot_at rb (unat (producer_idx m))) (bump_producer m), [])"
  using assms(3)
  by (simp add: wait_for_slot_def wait_loop.simps [of p U E rb _ 0]
      try_slot_eq [OF assms(1,2)])

lemma max_payload_size_eq:
  assumes "ring_geometry rb m"
  obtains w where "max_payload_size p rb = Ok w" "unat w = max_payload rb"
    "\<And>i. unat (data_size (slot_at rb i)) = max_payload rb"
proof
  have ge: "64 \<le> rb_slot_size rb" using ring_geometryD(2) [OF assms] by (simp add: word_le_nat_alt)
  show "max_payload_size p rb = Ok (rb_slot_size rb - 64)"
    using ge by (simp add: max_payload_size_def layout_simps outcome_simps)
  show "unat (rb_slot_size rb - 64) = max_payload rb"
    by (simp add: max_payload_def layout_simps unat_sub_fits [OF ge])
  show "unat (data_size (slot_at rb i)) = max_payload rb" for i
    using ring_geometryD(2) [OF assms] by (simp add: max_payload_def layout_simps)
qed

lemma ring_write_free:
  assumes geo: "ring_geometry rb m" and rng: "indices_in_range m"
    and free: "slot_free (slot_at rb (unat (producer_idx m))) m"
    and fits: "length data \<le> max_payload rb"
  defines "i \<equiv> unat (producer_idx m)"
  obtains m' where "ring_write p U E u now rb kind data m = (Ok (producer_idx m), m')"
    "in_slot rb i (bump_producer m) m'" "slot_ready (slot_at rb i) m'"
    "entry (slot_at rb i) m' = (kind, data)"
proof -
  let ?s = "slot_at rb i"
  define m3 where "m3 = set_id U ?s u (set_operation ?s kind (reset U ?s (bump_producer m)))"
  define m' where "m' = snd (write_data ?s now data m3)"
  obtain mx where mx: "max_payload_size p rb = Ok mx" "unat mx = max_payload rb"
    and ds: "unat (data_size ?s) = max_payload rb"
    by (rule max_payload_size_eq [OF geo, of p]) blast
  have P: "producer_idx m < slot_count m" using rng by (simp add: indices_in_range_def)
  have geo1: "ring_geometry rb (bump_producer m)" by (rule bump_geometry(1) [OF geo])
  have r: "in_slot rb i (bump_producer m) (reset U ?s (bump_producer m))"
    by (rule reset_changes)
  have geo2: "ring_geometry rb (reset U ?s (bump_producer m))"
    by (rule in_slot_geometry [OF r geo1])
  have n2: "slot_count (reset U ?s (bump_producer m)) = slot_count m"
    using in_slot_header(1) [OF r ring_geometryD(2) [OF geo]] by (simp add: header_simps)
  have get: "get_slot p (reset U ?s (bump_producer m)) (producer_idx m) (rb_slot_size rb) = Ok ?s"
    unfolding i_def by (rule get_slot_in_range [OF geo2 [unfolded i_def]])
      (simp add: n2 [unfolded i_def] P)
  have c3: "in_slot rb i (bump_producer m) m3"
    unfolding m3_def set_id_def by (intro puts_in_slot r)
  have "i < unat (slot_count m3)"
    using P in_slot_header(1) [OF c3 ring_geometryD(2) [OF geo]]
    by (simp add: i_def word_less_nat_alt header_simps)
  then have in3: "slot_in ?s m3" by (rule slot_at_in [OF in_slot_geometry [OF c3 geo1]])
  have le: "length data \<le> unat (data_size ?s)" using fits ds by simp
  note eff = write_data_effect [OF in3 le, of now, folded m'_def]
  have wd: "write_data ?s now data m3 = (Ok (), m')"
    using eff(1) by (metis m'_def prod.collapse)
  have op3: "operation ?s m3 = kind"
    using slot_in_metadata [OF in3] by (simp add: m3_def set_id_def slot_simps)
  have "length data < 2 ^ 64" using le unat_u64_less [of "data_size ?s"] by linarith
  then have "slot_ready ?s m'" using eff(2,4) le by (simp add: slot_ready_def)
  moreover have "entry ?s m' = (kind, data)" using eff(3,7) op3 by (simp add: entry_def)
  moreover have "in_slot rb i (bump_producer m) m'"
    unfolding m'_def by (rule changes_only_trans [OF c3 write_data_changes])
  moreover have "ring_write p U E u now rb kind data m = (Ok (producer_idx m), m')"
    using fits get wd
    by (simp add: ring_write_def mx i_def m3_def Let_def wait_for_slot_free [OF geo rng free])
  ultimately show ?thesis using that by blast
qed

lemma ring_read_ready:
  assumes geo: "ring_geometry rb m" and rng: "indices_in_range m"
    and nonempty: "producer_idx m \<noteq> consumer_idx m"
    and ready: "slot_ready (slot_at rb (unat (consumer_idx m))) m"
  defines "i \<equiv> unat (consumer_idx m)"
  obtains m1 where
    "ring_read p U sp rb m = (Ok (Some (entry (slot_at rb i) m)), increment_completed m1)"
    "in_slot rb i (bump_consumer m) m1" "slot_free (slot_at rb i) m1"
proof -
  let ?s = "slot_at rb i" and ?m = "bump_consumer m"
  define m1 where "m1 = snd (read_data ?s ?m)"
  have C: "consumer_idx m < slot_count m" using rng by (simp add: indices_in_range_def)
  have geo1: "ring_geometry rb ?m" by (rule bump_geometry(2) [OF geo])
  have get: "get_slot p ?m (consumer_idx m) (rb_slot_size rb) = Ok ?s"
    unfolding i_def by (rule get_slot_in_range [OF geo1]) (simp add: header_simps C)
  have "i < unat (slot_count ?m)" using C by (simp add: i_def word_less_nat_alt header_simps)
  then have "slot_in ?s ?m" by (rule slot_at_in [OF geo1])
  moreover have rd: "status ?s ?m = Ready" "unat (payload_size ?s ?m) \<le> unat (data_size ?s)"
    using ready by (simp_all add: slot_ready_def bump_slot [OF geo] i_def)
  ultimately have eff: "fst (read_data ?s ?m) = Ok (Some (payload ?s ?m))"
      "status ?s m1 = Complete"
    using read_data_effect(1,2) ring_geometryD(1) [OF geo1] by (simp_all add: m1_def)
  have "read_data ?s ?m = (Ok (Some (payload ?s m)), m1)"
    using eff(1) by (metis m1_def prod.collapse bump_slot(8) [OF geo])
  then have "ring_read p U sp rb m = (Ok (Some (entry ?s m)), increment_completed m1)"
    using nonempty rd(1) get
    by (simp add: ring_read_def next_consumer_idx_eq [OF C] entry_def bump_slot [OF geo] Let_def)
  moreover have "in_slot rb i ?m m1" unfolding m1_def by (rule read_data_changes)
  moreover have "slot_free ?s m1" using eff(2) by (simp add: slot_free_def)
  ultimately show ?thesis using that by blast
qed

subsection \<open>Writes append, reads take the first\<close>

text \<open>What an operation on slot \<open>i\<close> after an index was advanced does to the others.\<close>

definition same_slot :: "slot \<Rightarrow> mem \<Rightarrow> mem \<Rightarrow> bool" where
  "same_slot s m m' \<longleftrightarrow> slot_free s m' = slot_free s m \<and> slot_ready s m' = slot_ready s m \<and>
     (slot_ready s m \<longrightarrow> entry s m' = entry s m)"

lemma same_slot_trans: "same_slot s m m' \<Longrightarrow> same_slot s m' m'' \<Longrightarrow> same_slot s m m''"
  by (auto simp: same_slot_def)

lemma same_slot_bump:
  "ring_geometry rb m \<Longrightarrow> same_slot (slot_at rb j) m (bump_producer m)"
  "ring_geometry rb m \<Longrightarrow> same_slot (slot_at rb j) m (bump_consumer m)"
  by (simp_all add: same_slot_def slot_free_def slot_ready_def entry_def bump_slot)

lemma same_slot_header:
  "changes_only 0 sizeof_RingHeader m m' \<Longrightarrow> 64 \<le> unat (rb_slot_size rb) \<Longrightarrow>
   same_slot (slot_at rb j) m m'"
  by (simp add: same_slot_def slot_free_def slot_ready_def entry_def header_change_slot)

lemma same_slot_other:
  "in_slot rb i m m' \<Longrightarrow> 64 \<le> unat (rb_slot_size rb) \<Longrightarrow> i \<noteq> j \<Longrightarrow>
   same_slot (slot_at rb j) m m'"
  by (simp add: same_slot_def slot_free_def slot_ready_def entry_def in_slot_other)

text \<open>The indices after a write to slot \<open>i\<close>, and the pending count that follows.\<close>

lemma after_write_header:
  assumes "ring_geometry rb m" "indices_in_range m" "in_slot rb i (bump_producer m) m'"
  shows "slot_count m' = slot_count m" "consumer_idx m' = consumer_idx m"
    "indices_in_range m'" "ring_geometry rb m'"
    "operations_completed m' = operations_completed m"
    "pending m' = (pending m + 1) mod unat (slot_count m)"
proof -
  note geo = ring_geometryD [OF assms(1)]
  show n: "slot_count m' = slot_count m" and c: "consumer_idx m' = consumer_idx m"
    and "operations_completed m' = operations_completed m"
    using in_slot_header [OF assms(3) geo(2)] by (simp_all add: header_simps)
  have p: "producer_idx m' = (producer_idx m + 1) mod slot_count m"
    using in_slot_header [OF assms(3) geo(2)] by (simp add: header_simps geo(6))
  show "ring_geometry rb m'"
    by (rule in_slot_geometry [OF assms(3) bump_geometry(1) [OF assms(1)]])
  have "indices_in_range (bump_producer m)" by (rule bump_in_range(1) [OF assms(1,2)])
  then show "indices_in_range m'"
    by (simp add: indices_in_range_def n c p header_simps geo(6))
  have r: "producer_idx m < slot_count m" "unat (consumer_idx m) < unat (slot_count m)"
    using assms(2) by (simp_all add: indices_in_range_def word_less_nat_alt)
  have "unat (producer_idx m') =
      (unat (consumer_idx m) + (pending m + 1) mod unat (slot_count m)) mod unat (slot_count m)"
    by (simp add: p unat_succ_mod [OF r(1)] producer_at_pending [OF assms(2)] mod_simps)
  then show "pending m' = (pending m + 1) mod unat (slot_count m)"
    using r(2) geo(4) by (intro pendingI) (simp_all add: n c)
qed

lemma ring_write_appends:
  assumes wf: "ring_wf rb m" and room: "pending m + 1 < unat (slot_count m)"
    and fits: "length data \<le> max_payload rb"
  obtains m' where "ring_write p U E u now rb kind data m = (Ok (producer_idx m), m')"
    "ring_wf rb m'" "ring_queue rb m' = ring_queue rb m @ [(kind, data)]"
    "slot_count m' = slot_count m" "consumer_idx m' = consumer_idx m"
    "operations_completed m' = operations_completed m"
proof -
  note geo = ring_wfD(1) [OF wf] and rng = ring_wfD(4) [OF wf]
  let ?n = "unat (slot_count m)" and ?q = "pending m" and ?i = "unat (producer_idx m)"
  have sp: "ring_slot rb m ?q = slot_at rb ?i" by (rule ring_slot_pending [OF rng])
  have "slot_free (ring_slot rb m ?q) m" using wf room by (simp add: ring_wf_def)
  then have free: "slot_free (slot_at rb ?i) m" by (simp add: sp)
  obtain m' where w: "ring_write p U E u now rb kind data m = (Ok (producer_idx m), m')"
    and ch: "in_slot rb ?i (bump_producer m) m'" and new: "slot_ready (slot_at rb ?i) m'"
    "entry (slot_at rb ?i) m' = (kind, data)"
    by (rule ring_write_free [OF geo rng free fits]) (rule that)
  note h = after_write_header [OF geo rng ch]
  have q': "pending m' = ?q + 1" using h(6) room by simp
  have slots: "ring_slot rb m' k = ring_slot rb m k" for k by (simp add: ring_slot_def h(1,2))
  have other: "same_slot (ring_slot rb m k) m m'" if "k < ?n" "k \<noteq> ?q" for k
  proof -
    have "(unat (consumer_idx m) + k) mod ?n \<noteq> ?i"
      using that room producer_at_pending [OF rng]
        ring_slot_index_inj [of "unat (consumer_idx m)" k ?n ?q] by auto
    then show ?thesis
      unfolding ring_slot_def
      by (intro same_slot_trans [OF same_slot_bump(1) [OF geo]
            same_slot_other [OF ch ring_geometryD(2) [OF geo]]]) simp
  qed
  have old: "same_slot (ring_slot rb m k) m m'" "slot_ready (ring_slot rb m k) m" if "k < ?q" for k
    using that other room wf by (auto simp: ring_wf_def)
  have "slot_ready (ring_slot rb m k) m'" if "k < ?q + 1" for k
    using that old [of k] new(1) by (cases "k = ?q") (auto simp: sp same_slot_def)
  moreover have "slot_free (ring_slot rb m k) m'" if "k < ?n" "?q + 1 \<le> k" for k
    using that other [of k] wf by (auto simp: ring_wf_def same_slot_def)
  ultimately have "ring_wf rb m'"
    by (simp add: ring_wf_def h(1,3,4) q' slots)
  moreover have "ring_queue rb m' = ring_queue rb m @ [(kind, data)]"
    using old by (simp add: ring_queue_def q' slots sp new(2) same_slot_def)
  ultimately show ?thesis using that w h by blast
qed

lemma after_read_header:
  assumes "ring_geometry rb m" "indices_in_range m" "in_slot rb i (bump_consumer m) m1"
  defines "m' \<equiv> increment_completed m1"
  shows "slot_count m' = slot_count m" "producer_idx m' = producer_idx m"
    "consumer_idx m' = (consumer_idx m + 1) mod slot_count m"
    "indices_in_range m'" "ring_geometry rb m'"
    "operations_completed m' = operations_completed m + 1"
proof -
  note geo = ring_geometryD [OF assms(1)]
  have len: "sizeof_RingHeader \<le> length m1"
    using changes_only_length [OF assms(3)] geo(6) by simp
  show n: "slot_count m' = slot_count m" and p: "producer_idx m' = producer_idx m"
    and c: "consumer_idx m' = (consumer_idx m + 1) mod slot_count m"
    and "operations_completed m' = operations_completed m + 1"
    using in_slot_header [OF assms(3) geo(2)]
    by (simp_all add: m'_def header_simps len geo(6))
  show "ring_geometry rb m'"
    using in_slot_geometry [OF assms(3) bump_geometry(2) [OF assms(1)]]
    by (simp add: m'_def ring_geometry_def header_simps)
  have "indices_in_range (bump_consumer m)" by (rule bump_in_range(2) [OF assms(1,2)])
  then show "indices_in_range m'"
    by (simp add: indices_in_range_def n c p header_simps geo(6))
qed

lemma ring_read_empty:
  "indices_in_range m \<Longrightarrow> ring_queue rb m = [] \<Longrightarrow> ring_read p U sp rb m = (Ok None, m)"
  using pending_eq_0_iff [of m] by (auto simp: ring_read_def ring_queue_def)

lemma ring_read_takes:
  assumes wf: "ring_wf rb m" and q: "ring_queue rb m = x # xs"
  obtains m' where "ring_read p U sp rb m = (Ok (Some x), m')"
    "ring_wf rb m'" "ring_queue rb m' = xs" "slot_count m' = slot_count m"
    "producer_idx m' = producer_idx m" "operations_completed m' = operations_completed m + 1"
proof -
  note geo = ring_wfD(1) [OF wf] and rng = ring_wfD(4) [OF wf]
  let ?n = "unat (slot_count m)" and ?q = "pending m" and ?i = "unat (consumer_idx m)"
  have pos: "0 < ?q" using q by (metis length_ring_queue length_Cons zero_less_Suc)
  have r: "?i < ?n" using rng by (simp add: indices_in_range_def word_less_nat_alt)
  have qn: "?q < ?n" using r by (intro pending_less) simp
  have s0: "ring_slot rb m 0 = slot_at rb ?i" by (rule ring_slot_0 [OF rng])
  have ready: "slot_ready (slot_at rb ?i) m" using wf pos s0 by (metis ring_wf_def)
  have ne: "producer_idx m \<noteq> consumer_idx m" using pos pending_eq_0_iff [OF rng] by simp
  obtain m1 where rd: "ring_read p U sp rb m =
      (Ok (Some (entry (slot_at rb ?i) m)), increment_completed m1)"
    and ch: "in_slot rb ?i (bump_consumer m) m1" and free: "slot_free (slot_at rb ?i) m1"
    by (rule ring_read_ready [OF geo rng ne ready]) (rule that)
  let ?m' = "increment_completed m1"
  note h = after_read_header [OF geo rng ch]
  have hc: "same_slot (slot_at rb j) m1 ?m'" for j
    by (rule same_slot_header [OF counters_changes(1) ring_geometryD(2) [OF geo]])
  have c': "unat (consumer_idx ?m') = (?i + 1) mod ?n"
    using h(3) rng by (simp add: unat_succ_mod indices_in_range_def)
  have slots: "ring_slot rb ?m' k = ring_slot rb m (k + 1)" for k
    by (simp add: ring_slot_def h(1) c' mod_simps)
  obtain j where j: "?q = Suc j" using pos gr0_implies_Suc by blast
  have "unat (producer_idx ?m') = (unat (consumer_idx ?m') + (?q - 1)) mod ?n"
    by (simp add: h(2) c' producer_at_pending [OF rng] mod_simps j)
  then have q': "pending ?m' = ?q - 1"
    using qn r by (intro pendingI) (simp_all add: h(1) c')
  have other: "same_slot (ring_slot rb m k) m ?m'" if "k < ?n" "k \<noteq> 0" for k
  proof -
    have "(?i + k) mod ?n \<noteq> ?i"
      using that r ring_slot_index_inj [of ?i k ?n 0] by auto
    then have "same_slot (ring_slot rb m k) m m1"
      unfolding ring_slot_def
      by (intro same_slot_trans [OF same_slot_bump(2) [OF geo]
            same_slot_other [OF ch ring_geometryD(2) [OF geo]]]) simp
    then show ?thesis using hc same_slot_trans unfolding ring_slot_def by blast
  qed
  have old: "same_slot (ring_slot rb m (k + 1)) m ?m'" "slot_ready (ring_slot rb m (k + 1)) m"
    if "k + 1 < ?q" for k
    using that other [of "k + 1"] qn wf by (auto simp: ring_wf_def)
  have "slot_ready (ring_slot rb m (k + 1)) ?m'" if "k < ?q - 1" for k
    using that old [of k] by (auto simp: same_slot_def)
  moreover have "slot_free (ring_slot rb m (k + 1)) ?m'" if "k < ?n" "?q - 1 \<le> k" for k
  proof (cases "k + 1 = ?n")
    case True
    then have "ring_slot rb m (k + 1) = slot_at rb ?i" using r by (simp add: ring_slot_def)
    then show ?thesis using free hc [of ?i] by (simp add: same_slot_def)
  next
    case False
    then show ?thesis using that other [of "k + 1"] wf by (auto simp: ring_wf_def same_slot_def)
  qed
  ultimately have "ring_wf rb ?m'" by (simp add: ring_wf_def h(1,4,5) q' slots)
  moreover have xs: "ring_queue rb ?m' = xs" and x: "entry (slot_at rb ?i) m = x"
  proof -
    have "ring_queue rb m = entry (slot_at rb ?i) m #
        map (\<lambda>k. entry (ring_slot rb m (k + 1)) m) [0..<?q - 1]"
      unfolding ring_queue_def j map_upt_Suc by (simp add: s0)
    moreover have "map (\<lambda>k. entry (ring_slot rb m (k + 1)) m) [0..<?q - 1] = ring_queue rb ?m'"
      using old by (simp add: ring_queue_def q' slots same_slot_def)
    ultimately show "ring_queue rb ?m' = xs" "entry (slot_at rb ?i) m = x" using q by simp_all
  qed
  ultimately show ?thesis using that [of ?m'] rd h(1,2,6) by (simp add: x)
qed

end
