(* ===== verification/Ring_Create.thy ===== *)
theory Ring_Create
  imports Ring_Queue
begin

text \<open>
  Creation and opening of rings: for which options \<open>ring_create\<close> returns a well-formed
  empty ring, that opening it finds the same geometry, and what the other options do.
\<close>

subsection \<open>Resetting all slots\<close>

lemma reset_slots_effect:
  assumes "ring_geometry rb m" "\<forall>i\<in>set is. i < unat (slot_count m)"
  obtains m' where "reset_slots p U (rb_slot_size rb) is m = Ok m'"
    "changes_only sizeof_RingHeader (length m) m m'"
    "\<And>j. status (slot_at rb j) m' =
       (if j \<in> set is then Empty else status (slot_at rb j) m)"
  using assms
proof (induction "is" arbitrary: m thesis)
  case Nil
  then show ?case by simp
next
  case (Cons i "is")
  let ?s = "slot_at rb i" and ?n = "unat (slot_count m)"
  note geo = Cons.prems(2)
  define m1 where "m1 = reset U ?s m"
  have i: "i < ?n" using Cons.prems(3) by simp
  have idx: "unat (of_nat i :: u64) = i"
    using i unat_u64_less [of "slot_count m"] by simp
  have get: "get_slot p m (of_nat i) (rb_slot_size rb) = Ok ?s"
    using get_slot_in_range [OF geo, of "of_nat i" p] i idx by (simp add: word_less_nat_alt)
  have ch: "in_slot rb i m m1" unfolding m1_def by (rule reset_changes)
  have sin: "slot_in ?s m" by (rule slot_at_in [OF geo i])
  have m1: "status (slot_at rb j) m1 = (if j = i then Empty else status (slot_at rb j) m)" for j
    using in_slot_other(1) [OF ch ring_geometryD(2) [OF geo], of j]
      reset_effect(1) [OF slot_in_metadata [OF sin], of U]
    by (auto simp: m1_def)
  have n1: "slot_count m1 = slot_count m"
    by (rule in_slot_header(1) [OF ch ring_geometryD(2) [OF geo]])
  have geo1: "ring_geometry rb m1" by (rule in_slot_geometry [OF ch geo])
  have lt: "\<forall>j\<in>set is. j < unat (slot_count m1)" using Cons.prems(3) n1 by simp
  obtain m' where r: "reset_slots p U (rb_slot_size rb) is m1 = Ok m'"
    and c: "changes_only sizeof_RingHeader (length m1) m1 m'"
    and st: "\<And>j. status (slot_at rb j) m' =
      (if j \<in> set is then Empty else status (slot_at rb j) m1)"
    by (rule Cons.IH [OF _ geo1 lt]) blast
  have len: "length m1 = length m" by (rule changes_only_length [OF ch])
  have "changes_only sizeof_RingHeader (length m) m m1"
    by (rule changes_only_widen [OF ch slots_behind_header [OF ring_geometryD(2) [OF geo]]])
      (use sin in \<open>simp add: slot_in_def slot_end_def\<close>)
  then have "changes_only sizeof_RingHeader (length m) m m'"
    using c len changes_only_trans by simp
  moreover have "status (slot_at rb j) m' =
      (if j \<in> set (i # is) then Empty else status (slot_at rb j) m)" for j
    by (simp add: st m1)
  moreover have "reset_slots p U (rb_slot_size rb) (i # is) m = Ok m'"
    by (simp add: get r m1_def [symmetric])
  ultimately show ?case using Cons.prems(1) [of m'] by blast
qed

subsection \<open>Valid options\<close>

text \<open>
  The code does not check its options. These are the ones with which every operation is
  free of panics and of undefined behaviour: a slot holds its metadata and keeps the
  following slot aligned, and the ring has room for a slot.
\<close>

definition valid_options :: "ring_options \<Rightarrow> bool" where
  "valid_options opts \<longleftrightarrow>
     unat (opt_size opts) < 2 ^ 63 \<and>
     sizeof_SlotMetadata \<le> unat (opt_slot_size opts) \<and> 64 dvd unat (opt_slot_size opts) \<and>
     sizeof_RingHeader + unat (opt_slot_size opts) \<le> unat (opt_size opts)"

definition os_ok :: "os \<Rightarrow> ring_options \<Rightarrow> bool" where
  "os_ok W opts \<longleftrightarrow> os_open W \<and> os_set_len W (opt_size opts) \<and> os_map W (unat (opt_size opts))"

definition created :: "ring_options \<Rightarrow> ring_buffer" where
  "created opts = \<lparr>rb_path = opt_path opts, rb_size = opt_size opts,
     rb_slot_size = opt_slot_size opts, rb_is_producer = True\<rparr>"

definition options_slot_count :: "ring_options \<Rightarrow> nat" where
  "options_slot_count opts =
     (unat (opt_size opts) - sizeof_RingHeader) div unat (opt_slot_size opts)"

lemma header_new_valid:
  assumes "valid_options opts"
  obtains n where "header_new p (opt_size opts) (opt_slot_size opts) now =
      Ok \<lparr>h_magic = MAGIC, h_version = VERSION, h_size = opt_size opts,
        h_slot_size = opt_slot_size opts, h_slot_count = n, h_producer_idx = 0,
        h_consumer_idx = 0, h_active_producers = 0, h_operations_completed = 0,
        h_created_at = now, h_numa_node = 0, h_padding = replicate HEADER_PADDING_SIZE 0\<rparr>"
    "unat n = options_slot_count opts" "0 < unat n"
    "sizeof_RingHeader + unat n * unat (opt_slot_size opts) \<le> unat (opt_size opts)"
proof -
  let ?sz = "opt_size opts" and ?ss = "opt_slot_size opts"
  have v: "192 + unat ?ss \<le> unat ?sz" "0 < unat ?ss"
    using assms by (auto simp: valid_options_def layout_simps)
  then have le: "192 \<le> ?sz" and nz: "?ss \<noteq> 0" by (auto simp: word_le_nat_alt)
  let ?n = "(?sz - 192) div ?ss"
  have un: "unat ?n = (unat ?sz - 192) div unat ?ss"
    using unat_sub_fits [OF le] by (simp add: unat_div)
  have "unat ?ss \<le> unat ?sz - 192" using v by simp
  then have "0 < (unat ?sz - 192) div unat ?ss" using v(2) by (simp add: div_greater_zero_iff)
  moreover have "192 + (unat ?sz - 192) div unat ?ss * unat ?ss \<le> unat ?sz"
    using v div_times_less_eq_dividend [of "unat ?sz - 192" "unat ?ss"] by linarith
  ultimately show ?thesis
    using that [of ?n] le nz
    by (simp add: un options_slot_count_def layout_simps header_new_def outcome_simps)
qed

text \<open>The header of a new ring, after producers have registered and the node is stored.\<close>

definition fresh_header :: "ring_options \<Rightarrow> clock \<Rightarrow> u64 \<Rightarrow> u32 \<Rightarrow> mem \<Rightarrow> bool" where
  "fresh_header opts now k node m \<longleftrightarrow>
     producer_idx m = 0 \<and> consumer_idx m = 0 \<and> slot_size m = opt_slot_size opts \<and>
     ring_size m = opt_size opts \<and> operations_completed m = 0 \<and> created_at m = as_secs now \<and>
     active_producers m = k \<and> numa_node m = node \<and> magic m = MAGIC \<and> version m = VERSION"

lemma fresh_header_register:
  assumes "fresh_header opts now k node m" "sizeof_RingHeader \<le> length m"
  shows "fresh_header opts now (k + 1) node (register_producer m)"
    and "fresh_header opts now k node' (set_numa_node node' m)"
proof -
  have "changes_only 56 64 m (register_producer m)"
    by (simp add: register_producer_def layout_simps atomic_changes_only)
  from atomic_load_changes_only [OF this]
  have "created_at (register_producer m) = created_at m" "numa_node (register_producer m) = numa_node m"
    by (simp_all add: header_defs layout_simps)
  then show "fresh_header opts now (k + 1) node (register_producer m)"
    using assms by (simp add: fresh_header_def header_simps)
  have "changes_only 80 84 m (set_numa_node node' m)"
    by (simp add: set_numa_node_def layout_simps atomic_changes_only)
  from atomic_load_changes_only [OF this]
  have "created_at (set_numa_node node' m) = created_at m"
    by (simp_all add: header_defs layout_simps)
  then show "fresh_header opts now k node' (set_numa_node node' m)"
    using assms by (simp add: fresh_header_def header_simps)
qed

lemma header_written:
  assumes "valid_options opts"
  obtains h where "header_new p (opt_size opts) (opt_slot_size opts) (as_secs now) = Ok h"
    "sizeof_RingHeader \<le> unat (opt_size opts)"
    "fresh_header opts now 0 0 (write_header h (replicate (unat (opt_size opts)) 0))"
    "unat (slot_count (write_header h (replicate (unat (opt_size opts)) 0))) = options_slot_count opts"
    "ring_geometry (created opts) (write_header h (replicate (unat (opt_size opts)) 0))"
proof -
  obtain n where h: "header_new p (opt_size opts) (opt_slot_size opts) (as_secs now) =
      Ok \<lparr>h_magic = MAGIC, h_version = VERSION, h_size = opt_size opts,
        h_slot_size = opt_slot_size opts, h_slot_count = n, h_producer_idx = 0,
        h_consumer_idx = 0, h_active_producers = 0, h_operations_completed = 0,
        h_created_at = as_secs now, h_numa_node = 0,
        h_padding = replicate HEADER_PADDING_SIZE 0\<rparr>" (is "_ = Ok ?h")
    and n: "unat n = options_slot_count opts" "0 < unat n"
      "sizeof_RingHeader + unat n * unat (opt_slot_size opts) \<le> unat (opt_size opts)"
    by (rule header_new_valid [OF assms]) (rule that)
  let ?m = "write_header ?h (replicate (unat (opt_size opts)) 0)"
  have len: "sizeof_RingHeader \<le> length (replicate (unat (opt_size opts)) (0 :: u8))"
    using n(3) by simp
  have c: "slot_count ?m = n" using len by (simp add: header_simps)
  have "fresh_header opts now 0 0 ?m" using len by (simp add: fresh_header_def header_simps)
  moreover have "ring_geometry (created opts) ?m"
    using assms n by (simp add: ring_geometry_def c created_def valid_options_def)
  ultimately show ?thesis using that h len n(1) c by simp
qed

text \<open>Such a header is valid, once its ring has a slot.\<close>

lemma fresh_header_validate:
  assumes "fresh_header opts now k node m" "valid_options opts" "0 < unat (slot_count m)"
  shows "validate m"
proof -
  have "192 < unat (opt_size opts)" "0 < unat (opt_slot_size opts)"
    using assms(2) by (auto simp: valid_options_def layout_simps)
  then show ?thesis
    using assms(1,3) by (simp add: validate_def fresh_header_def layout_simps word_less_nat_alt)
qed

text \<open>Resetting the slots of a mapping whose indices are zero gives an empty ring.\<close>

lemma reset_all_slots:
  assumes geo1: "ring_geometry rb m1" and idx: "producer_idx m1 = 0" "consumer_idx m1 = 0"
  obtains m where "reset_slots p U (rb_slot_size rb) [0..<unat (slot_count m1)] m1 = Ok m"
    "changes_only sizeof_RingHeader (length m1) m1 m" "ring_wf rb m" "ring_queue rb m = []"
    "\<And>i. i < unat (slot_count m1) \<Longrightarrow> status (slot_at rb i) m = Empty"
proof -
  let ?n = "unat (slot_count m1)"
  obtain m where r: "reset_slots p U (rb_slot_size rb) [0..<?n] m1 = Ok m"
    and ch: "changes_only sizeof_RingHeader (length m1) m1 m"
    and st: "\<And>j. status (slot_at rb j) m =
      (if j \<in> set [0..<?n] then Empty else status (slot_at rb j) m1)"
    by (rule reset_slots_effect [OF geo1, of "[0..<?n]" p U]) simp_all
  note fr = header_frame [OF ch order_refl]
  have geo: "ring_geometry rb m"
    using geo1 ring_geometry_cong [OF changes_only_length [OF ch] fr(5)] by simp
  have p0: "pending m = 0" by (simp add: pending_def fr idx)
  have "slot_free (ring_slot rb m k) m" if "k < unat (slot_count m)" for k
    using that by (simp add: slot_free_def ring_slot_def st fr idx)
  then have "ring_wf rb m"
    using geo ring_geometryD(4) [OF geo1]
    by (auto simp: ring_wf_def indices_in_range_def p0 fr idx word_less_nat_alt)
  then show ?thesis using that r ch st by (simp add: ring_queue_def p0)
qed

lemma ring_create_valid:
  assumes opts: "valid_options opts" and os: "os_ok W opts"
  obtains m where "ring_create p W U now opts = Ok (created opts, m)"
    "length m = unat (opt_size opts)" "ring_wf (created opts) m"
    "ring_queue (created opts) m = []" "unat (slot_count m) = options_slot_count opts"
    "slot_size m = opt_slot_size opts" "ring_size m = opt_size opts" "validate m"
    "active_producers m = 1" "operations_completed m = 0" "created_at m = as_secs now"
    "numa_node m = 0" "\<And>i. i < options_slot_count opts \<Longrightarrow> status (slot_at (created opts) i) m = Empty"
proof -
  let ?rb = "created opts" and ?m0 = "replicate (unat (opt_size opts)) (0 :: u8)"
  obtain h where h: "header_new p (opt_size opts) (opt_slot_size opts) (as_secs now) = Ok h"
    and len: "sizeof_RingHeader \<le> unat (opt_size opts)"
    and f: "fresh_header opts now 0 0 (write_header h ?m0)"
      "unat (slot_count (write_header h ?m0)) = options_slot_count opts"
      "ring_geometry ?rb (write_header h ?m0)"
    by (rule header_written [OF opts, of p now]) (rule that)
  let ?m1 = "register_producer (write_header h ?m0)"
  have f1: "fresh_header opts now 1 0 ?m1"
    using fresh_header_register(1) [OF f(1)] len by simp
  have n1: "unat (slot_count ?m1) = options_slot_count opts" by (simp add: counters_other f(2))
  have geo1: "ring_geometry ?rb ?m1" using f(3) by (simp add: ring_geometry_def counters_other)
  have i1: "producer_idx ?m1 = 0" "consumer_idx ?m1 = 0" using f1 by (simp_all add: fresh_header_def)
  obtain m where r: "reset_slots p U (rb_slot_size ?rb) [0..<unat (slot_count ?m1)] ?m1 = Ok m"
    and ch: "changes_only sizeof_RingHeader (length ?m1) ?m1 m"
    and m: "ring_wf ?rb m" "ring_queue ?rb m = []"
      "\<And>i. i < unat (slot_count ?m1) \<Longrightarrow> status (slot_at ?rb i) m = Empty"
    by (rule reset_all_slots [OF geo1 i1, of p U]) (rule that)
  note fr = header_frame [OF ch order_refl]
  have fm: "fresh_header opts now 1 0 m" using f1 by (simp add: fresh_header_def fr)
  have "ring_create p W U now opts = Ok (?rb, m)"
    using os len h r [unfolded created_def ring_buffer.simps]
    by (simp add: ring_create_def os_ok_def Let_def created_def)
  moreover have "validate m"
    by (rule fresh_header_validate [OF fm opts ring_geometryD(4) [OF ring_wfD(1) [OF m(1)]]])
  ultimately show ?thesis
    using that [of m] m fm n1 changes_only_length [OF ch] by (simp add: fr fresh_header_def)
qed

subsection \<open>Opening\<close>

text \<open>A handle opened on the mapping of a valid ring has the geometry of its creator.\<close>

definition opened :: "ring_options \<Rightarrow> mem \<Rightarrow> ring_buffer" where
  "opened opts m = \<lparr>rb_path = opt_path opts, rb_size = ring_size m,
     rb_slot_size = slot_size m, rb_is_producer = False\<rparr>"

lemma ring_open_Ok_iff:
  "ring_open W opts m = Ok rb \<longleftrightarrow>
     os_open W \<and> os_map W (length m) \<and> sizeof_RingHeader \<le> length m \<and> validate m \<and>
     rb = opened opts m"
  by (auto simp: ring_open_def opened_def)

text \<open>Only the slot size of a handle matters to the ring operations and their laws.\<close>

lemma slot_at_cong: "rb_slot_size rb' = rb_slot_size rb \<Longrightarrow> slot_at rb' = slot_at rb"
  by (simp add: slot_at_def fun_eq_iff)

lemma ring_wf_cong:
  assumes "rb_slot_size rb' = rb_slot_size rb"
  shows "ring_wf rb' m = ring_wf rb m" "ring_queue rb' m = ring_queue rb m"
  by (simp_all add: ring_wf_def ring_geometry_def ring_queue_def ring_slot_def
      assms slot_at_cong [OF assms])

subsection \<open>Options the code does not check\<close>

lemma header_new_small:
  assumes "unat sz < sizeof_RingHeader"
  shows "header_new Debug sz ssz now = Panic ArithmeticOverflow"
proof -
  have "sz < 192" using assms by (simp add: layout_simps word_less_nat_alt)
  then show ?thesis by (simp add: header_new_def usize_sub_def overflowing_def layout_simps)
qed

lemma header_new_zero_slot:
  "sizeof_RingHeader \<le> unat sz \<Longrightarrow> header_new p sz 0 now = Panic DivisionByZero"
  by (simp add: header_new_def usize_div_def usize_sub_fits layout_simps word_le_nat_alt)

lemma ring_create_small:
  assumes "unat (opt_size opts) < sizeof_RingHeader" "os_ok W opts"
  shows "ring_create Debug W U now opts = Panic ArithmeticOverflow"
    and "opt_slot_size opts \<noteq> 0 \<Longrightarrow> ring_create Release W U now opts = UB"
  using assms
  by (simp_all add: ring_create_def os_ok_def header_new_small)
    (simp add: header_new_def usize_sub_def usize_div_def overflowing_def)

lemma ring_create_zero_slot:
  "sizeof_RingHeader \<le> unat (opt_size opts) \<Longrightarrow> opt_slot_size opts = 0 \<Longrightarrow> os_ok W opts \<Longrightarrow>
   ring_create p W U now opts = Panic DivisionByZero"
  by (simp add: ring_create_def os_ok_def header_new_zero_slot)

end
