(* ===== verification/Ring_Limits.thy ===== *)
theory Ring_Limits
  imports Ring_Create
begin

text \<open>
  The limits of the ring: how long a producer waits, what it does to a ring without free
  slots, what the last free slot means, and what a read of an unfinished slot does.
\<close>

subsection \<open>The backoff\<close>

text \<open>The times slept when a call makes \<open>n\<close> more attempts, the next after \<open>b\<close> milliseconds.\<close>

primrec backoffs :: "nat \<Rightarrow> nat \<Rightarrow> nat list" where
  "backoffs 0 b = []"
| "backoffs (Suc n) b = b # backoffs n (min (b * 2) 100)"

lemma wait_loop_sleeps:
  "\<exists>k. snd (snd (wait_loop p U E rb n attempt backoff m)) =
     take k (backoffs (max_attempts - attempt) backoff)"
proof (induction p U E rb n attempt backoff m rule: wait_loop.induct)
  case (1 p U E rb n attempt backoff m)
  show ?case
  proof (cases "\<exists>m1. try_slot p U (env_spurious E attempt) rb n m = (Ok None, m1) \<and>
      attempt + 1 \<le> max_attempts")
    case True
    then obtain m1 where t: "try_slot p U (env_spurious E attempt) rb n m = (Ok None, m1)"
      and le: "attempt + 1 \<le> max_attempts" by blast
    obtain k where k: "snd (snd (wait_loop p U E rb n (attempt + 1) (min (backoff * 2) 100)
        (env_sleep E attempt backoff m1))) =
      take k (backoffs (max_attempts - (attempt + 1)) (min (backoff * 2) 100))"
      using "1.IH" t le by fastforce
    have "max_attempts - attempt = Suc (max_attempts - (attempt + 1))" using le by simp
    then have "snd (snd (wait_loop p U E rb n attempt backoff m)) =
        take (Suc k) (backoffs (max_attempts - attempt) backoff)"
      using t le k by (subst wait_loop.simps) (simp add: split_beta)
    then show ?thesis by blast
  next
    case False
    then have "snd (snd (wait_loop p U E rb n attempt backoff m)) = []"
      by (subst wait_loop.simps) (auto split: prod.splits outcome.splits option.splits)
    then show ?thesis by (metis take0)
  qed
qed

lemma sum_list_take_le: "sum_list (take k xs) \<le> sum_list (xs :: nat list)"
  by (metis append_take_drop_id le_add1 sum_list_append)

lemma backoffs_10: "backoffs 10 1 = [1, 2, 4, 8, 16, 32, 64, 100, 100, 100]"
  by (simp add: numeral_eq_Suc)

subsection \<open>A ring without free slots\<close>

text \<open>The surroundings of a call during which no other process touches the mapping.\<close>

definition quiet :: "ring_env \<Rightarrow> bool" where
  "quiet E \<longleftrightarrow> env_sleep E = (\<lambda>_ _ m. m)"

definition no_free_slot :: "ring_buffer \<Rightarrow> mem \<Rightarrow> bool" where
  "no_free_slot rb m \<longleftrightarrow> (\<forall>j<unat (slot_count m). \<not> slot_free (slot_at rb j) m)"

lemma producer_index_less:
  "indices_in_range m \<Longrightarrow> unat (producer_idx m) < unat (slot_count m)"
  by (simp add: indices_in_range_def word_less_nat_alt)

lemma no_free_slot_bump:
  "ring_geometry rb m \<Longrightarrow> no_free_slot rb m \<Longrightarrow> no_free_slot rb (bump_producer m)"
  by (simp add: no_free_slot_def header_simps slot_free_def bump_slot)

lemma wait_loop_full:
  assumes "ring_geometry rb m" "indices_in_range m" "no_free_slot rb m" "quiet E"
    "attempt \<le> max_attempts"
  shows "wait_loop p U E rb (slot_count m) attempt b m =
    (Err (RingBufferFull max_attempts), (bump_producer ^^ (Suc max_attempts - attempt)) m,
     backoffs (max_attempts - attempt) b)"
  using assms
proof (induction "max_attempts - attempt" arbitrary: attempt b m)
  case 0
  have a: "attempt = max_attempts" using 0 by simp
  have nf: "\<not> slot_free (slot_at rb (unat (producer_idx m))) m"
    using 0 producer_index_less by (simp add: no_free_slot_def)
  show ?case
    by (subst wait_loop.simps) (simp add: try_slot_eq [OF 0(2,3)] nf a)
next
  case (Suc d)
  have nf: "\<not> slot_free (slot_at rb (unat (producer_idx m))) m"
    using Suc.prems(2,3) producer_index_less by (simp add: no_free_slot_def)
  have d: "d = max_attempts - Suc attempt" "Suc attempt \<le> max_attempts"
    using Suc.hyps(2) by simp_all
  have n: "slot_count (bump_producer m) = slot_count m" by (simp add: header_simps)
  have IH: "wait_loop p U E rb (slot_count m) (Suc attempt) (min (b * 2) 100) (bump_producer m) =
    (Err (RingBufferFull max_attempts),
     (bump_producer ^^ (Suc max_attempts - Suc attempt)) (bump_producer m),
     backoffs (max_attempts - Suc attempt) (min (b * 2) 100))"
    using Suc.hyps(1) [OF d(1) bump_geometry(1) [OF Suc.prems(1)]
        bump_in_range(1) [OF Suc.prems(1,2)] no_free_slot_bump [OF Suc.prems(1,3)]
        Suc.prems(4) d(2)]
    by (simp only: n)
  have steps: "Suc max_attempts - attempt = Suc (Suc max_attempts - Suc attempt)"
    "max_attempts - attempt = Suc (max_attempts - Suc attempt)"
    using d(2) by simp_all
  have sleep: "env_sleep E attempt b (bump_producer m) = bump_producer m"
    using Suc.prems(4) by (simp add: quiet_def)
  have "wait_loop p U E rb (slot_count m) attempt b m =
    (case wait_loop p U E rb (slot_count m) (Suc attempt) (min (b * 2) 100) (bump_producer m) of
       (r, m2, slept) \<Rightarrow> (r, m2, b # slept))"
    using d(2) by (subst wait_loop.simps) (simp add: try_slot_eq [OF Suc.prems(1,2)] nf sleep)
  then show ?case by (simp only: IH steps funpow_Suc_right backoffs.simps prod.case o_apply)
qed

lemma bump_producers:
  assumes "ring_geometry rb m" "indices_in_range m"
  shows "slot_count ((bump_producer ^^ k) m) = slot_count m"
    "consumer_idx ((bump_producer ^^ k) m) = consumer_idx m"
    "unat (producer_idx ((bump_producer ^^ k) m)) =
       (unat (producer_idx m) + k) mod unat (slot_count m)"
    "ring_geometry rb ((bump_producer ^^ k) m)"
    "indices_in_range ((bump_producer ^^ k) m)"
    "same_slot (slot_at rb j) m ((bump_producer ^^ k) m)"
proof (induction k)
  case 0
  show "unat (producer_idx ((bump_producer ^^ 0) m)) =
      (unat (producer_idx m) + 0) mod unat (slot_count m)"
    using producer_index_less [OF assms(2)] by simp
next
  case (Suc k)
  let ?m = "(bump_producer ^^ k) m"
  have p: "producer_idx ?m < slot_count ?m" using Suc(5) by (simp add: indices_in_range_def)
  show "slot_count ((bump_producer ^^ Suc k) m) = slot_count m"
    "consumer_idx ((bump_producer ^^ Suc k) m) = consumer_idx m"
    by (simp_all add: header_simps Suc)
  show "unat (producer_idx ((bump_producer ^^ Suc k) m)) =
      (unat (producer_idx m) + Suc k) mod unat (slot_count m)"
    using Suc(3) unat_succ_mod [OF p] ring_geometryD(6) [OF Suc(4)]
    by (simp add: header_simps Suc(1) mod_simps)
  show "ring_geometry rb ((bump_producer ^^ Suc k) m)" using bump_geometry(1) [OF Suc(4)] by simp
  show "indices_in_range ((bump_producer ^^ Suc k) m)"
    using bump_in_range(1) [OF Suc(4,5)] by simp
  show "same_slot (slot_at rb j) m ((bump_producer ^^ Suc k) m)"
    using same_slot_trans [OF Suc(6) same_slot_bump(1) [OF Suc(4)]] by simp
qed (use assms in \<open>simp_all add: same_slot_def\<close>)

lemma ring_write_full:
  assumes "ring_geometry rb m" "indices_in_range m" "no_free_slot rb m" "quiet E"
    and "length data \<le> max_payload rb"
  shows "ring_write p U E u now rb kind data m = (Err (RingBufferFull 10), (bump_producer ^^ 11) m)"
    "wait_for_slot p U E rb m = (Err (RingBufferFull 10), (bump_producer ^^ 11) m, backoffs 10 1)"
proof -
  obtain mx where mx: "max_payload_size p rb = Ok mx" "unat mx = max_payload rb"
    by (rule max_payload_size_eq [OF assms(1), of p]) blast
  show w: "wait_for_slot p U E rb m = (Err (RingBufferFull 10), (bump_producer ^^ 11) m, backoffs 10 1)"
    using wait_loop_full [OF assms(1-4), of 0 p U 1]
    by (simp add: wait_for_slot_def max_attempts_def del: One_nat_def)
  then show "ring_write p U E u now rb kind data m = (Err (RingBufferFull 10), (bump_producer ^^ 11) m)"
    using assms(5) by (simp add: ring_write_def mx)
qed

subsection \<open>The last free slot\<close>

text \<open>
  A write to the last free slot brings the producer index back to the consumer index: all
  slots are ready, and the ring looks empty.
\<close>

lemma ring_write_last:
  assumes wf: "ring_wf rb m" and last: "pending m + 1 = unat (slot_count m)"
    and fits: "length data \<le> max_payload rb"
  obtains m' where "ring_write p U E u now rb kind data m = (Ok (producer_idx m), m')"
    "ring_geometry rb m'" "indices_in_range m'" "slot_count m' = slot_count m"
    "pending m' = 0" "no_free_slot rb m'"
    "\<And>k. k < pending m \<Longrightarrow> slot_ready (ring_slot rb m k) m' \<and>
       entry (ring_slot rb m k) m' = entry (ring_slot rb m k) m"
proof -
  note geo = ring_wfD(1) [OF wf] and rng = ring_wfD(4) [OF wf]
  let ?n = "unat (slot_count m)" and ?q = "pending m" and ?i = "unat (producer_idx m)"
  have sp: "ring_slot rb m ?q = slot_at rb ?i" by (rule ring_slot_pending [OF rng])
  have "slot_free (ring_slot rb m ?q) m" using wf last by (simp add: ring_wf_def)
  then have free: "slot_free (slot_at rb ?i) m" by (simp add: sp)
  obtain m' where w: "ring_write p U E u now rb kind data m = (Ok (producer_idx m), m')"
    and ch: "in_slot rb ?i (bump_producer m) m'" and new: "slot_ready (slot_at rb ?i) m'"
    by (rule ring_write_free [OF geo rng free fits]) (rule that)
  note h = after_write_header [OF geo rng ch]
  have old: "slot_ready (ring_slot rb m k) m' \<and> entry (ring_slot rb m k) m' = entry (ring_slot rb m k) m"
    if "k < ?q" for k
  proof -
    have "(unat (consumer_idx m) + k) mod ?n \<noteq> ?i"
      using that last producer_at_pending [OF rng]
        ring_slot_index_inj [of "unat (consumer_idx m)" k ?n ?q] by auto
    then have "same_slot (ring_slot rb m k) m m'"
      unfolding ring_slot_def
      by (intro same_slot_trans [OF same_slot_bump(1) [OF geo]
            same_slot_other [OF ch ring_geometryD(2) [OF geo]]]) simp
    moreover have "slot_ready (ring_slot rb m k) m" using wf that by (simp add: ring_wf_def)
    ultimately show ?thesis by (simp add: same_slot_def)
  qed
  have "\<not> slot_free (slot_at rb j) m'" if "j < ?n" for j
  proof -
    have c: "unat (consumer_idx m) < ?n" using rng by (simp add: indices_in_range_def word_less_nat_alt)
    let ?k = "(j + ?n - unat (consumer_idx m)) mod ?n"
    have k: "?k < ?n" using that by simp
    have "(unat (consumer_idx m) + ?k) mod ?n = (unat (consumer_idx m) + (j + ?n - unat (consumer_idx m))) mod ?n"
      by (simp add: mod_add_right_eq)
    also have "\<dots> = j" using c that by simp
    finally have j: "slot_at rb j = ring_slot rb m ?k" by (simp add: ring_slot_def)
    have "slot_ready (slot_at rb j) m'"
      using old [of ?k] new k last sp j by (cases "?k = ?q") auto
    then show ?thesis by (auto simp: slot_ready_def slot_free_def)
  qed
  then have "no_free_slot rb m'" by (simp add: no_free_slot_def h(1))
  moreover have "pending m' = 0" using h(6) last by simp
  ultimately show ?thesis using that w h(1,3,4) old by blast
qed

end
