(* ===== verification/Ring_Fifo.thy ===== *)
theory Ring_Fifo
  imports Ring_Limits
begin

text \<open>
  The contract of a bounded first-in first-out queue as an interface, an abstract machine
  that replies to sequences of calls, and the ring buffer as an implementation of it.
\<close>

subsection \<open>Sequences of calls and the abstract machine\<close>

datatype ('c, 'x, 'd) call = Put 'c 'x | Take 'd

datatype ('e, 'x) reply = Stored "('e, u64) outcome" | Taken "('e, 'x option) outcome"

primrec run_calls ::
  "('c \<Rightarrow> 'x \<Rightarrow> 's \<Rightarrow> ('e, u64) outcome \<times> 's) \<Rightarrow> ('d \<Rightarrow> 's \<Rightarrow> ('e, 'x option) outcome \<times> 's)
    \<Rightarrow> ('c, 'x, 'd) call list \<Rightarrow> 's \<Rightarrow> ('e, 'x) reply list \<times> 's" where
  "run_calls put get [] s = ([], s)"
| "run_calls put get (c # cs) s =
     (case c of
        Put ctx x \<Rightarrow> (let (r, s1) = put ctx x s; (rs, s2) = run_calls put get cs s1
                     in (Stored r # rs, s2))
      | Take d \<Rightarrow> (let (r, s1) = get d s; (rs, s2) = run_calls put get cs s1
                  in (Taken r # rs, s2)))"

text \<open>
  The machine keeps the list of entries and the index the next entry is stored at; a
  taken entry is the oldest one, or none.
\<close>

primrec queue_spec ::
  "nat \<Rightarrow> ('c, 'x, 'd) call list \<Rightarrow> 'x list \<Rightarrow> nat \<Rightarrow> ('e, 'x) reply list \<times> 'x list" where
  "queue_spec n [] q i = ([], q)"
| "queue_spec n (c # cs) q i =
     (case c of
        Put ctx x \<Rightarrow> (let (rs, q') = queue_spec n cs (q @ [x]) (Suc i mod n)
                     in (Stored (Ok (of_nat i)) # rs, q'))
      | Take d \<Rightarrow> (let (rs, q') = queue_spec n cs (tl q) i
                  in (Taken (Ok (case q of [] \<Rightarrow> None | x # _ \<Rightarrow> Some x)) # rs, q')))"

text \<open>Call sequences that store only valid entries and always leave one place free.\<close>

primrec admissible :: "nat \<Rightarrow> ('x \<Rightarrow> bool) \<Rightarrow> ('c, 'x, 'd) call list \<Rightarrow> nat \<Rightarrow> bool" where
  "admissible n valid [] k = True"
| "admissible n valid (c # cs) k =
     (case c of
        Put ctx x \<Rightarrow> valid x \<and> k + 1 < n \<and> admissible n valid cs (k + 1)
      | Take d \<Rightarrow> admissible n valid cs (k - 1))"

lemma admissible_takes [simp]: "admissible n valid (map (\<lambda>x. Take d) zs) k"
  by (induction zs arbitrary: k) simp_all

lemma admissible_batch:
  "\<forall>x\<in>set xs. valid x \<Longrightarrow> k + length xs < n \<Longrightarrow>
   admissible n valid (map (Put c) xs @ map (\<lambda>x. Take d) zs) k"
  by (induction xs arbitrary: k) simp_all

lemma queue_spec_takes:
  "fst (queue_spec n (map (\<lambda>x. Take d) zs) (zs @ q) i) = map (\<lambda>x. Taken (Ok (Some x))) zs"
  by (induction zs) (simp_all add: split_beta)

lemma queue_spec_puts:
  "\<exists>j. drop (length ys) (fst (queue_spec n (map (Put c) ys @ cs) q i)) =
     fst (queue_spec n cs (q @ ys) j)"
proof (induction ys arbitrary: q i)
  case (Cons y ys)
  show ?case using Cons [of "q @ [y]" "Suc i mod n"] by (simp add: split_beta)
qed auto

lemma queue_spec_batch:
  "drop (length xs) (fst (queue_spec n (map (Put c) xs @ map (\<lambda>x. Take d) xs) [] i)) =
     map (\<lambda>x. Taken (Ok (Some x))) xs"
  using queue_spec_puts [of xs n c "map (\<lambda>x. Take d) xs" "[]" i]
  by (auto simp: queue_spec_takes [where q = "[]", simplified])

subsection \<open>The interface\<close>

locale fifo_queue =
  fixes inv :: "'s \<Rightarrow> bool"
    and contents :: "'s \<Rightarrow> 'x list"
    and position :: "'s \<Rightarrow> u64"
    and capacity :: "'s \<Rightarrow> nat"
    and valid :: "'x \<Rightarrow> bool"
    and put :: "'c \<Rightarrow> 'x \<Rightarrow> 's \<Rightarrow> ('e, u64) outcome \<times> 's"
    and get :: "'d \<Rightarrow> 's \<Rightarrow> ('e, 'x option) outcome \<times> 's"
  assumes put_result: "inv s \<Longrightarrow> valid x \<Longrightarrow> length (contents s) + 1 < capacity s \<Longrightarrow>
      fst (put c x s) = Ok (position s)"
    and put_inv: "inv s \<Longrightarrow> valid x \<Longrightarrow> length (contents s) + 1 < capacity s \<Longrightarrow>
      inv (snd (put c x s))"
    and put_contents: "inv s \<Longrightarrow> valid x \<Longrightarrow> length (contents s) + 1 < capacity s \<Longrightarrow>
      contents (snd (put c x s)) = contents s @ [x]"
    and put_position: "inv s \<Longrightarrow> valid x \<Longrightarrow> length (contents s) + 1 < capacity s \<Longrightarrow>
      unat (position (snd (put c x s))) = Suc (unat (position s)) mod capacity s"
    and put_capacity: "inv s \<Longrightarrow> valid x \<Longrightarrow> length (contents s) + 1 < capacity s \<Longrightarrow>
      capacity (snd (put c x s)) = capacity s"
    and get_result: "inv s \<Longrightarrow>
      fst (get d s) = Ok (case contents s of [] \<Rightarrow> None | x # _ \<Rightarrow> Some x)"
    and get_inv: "inv s \<Longrightarrow> inv (snd (get d s))"
    and get_contents: "inv s \<Longrightarrow> contents (snd (get d s)) = tl (contents s)"
    and get_position: "inv s \<Longrightarrow> position (snd (get d s)) = position s"
    and get_capacity: "inv s \<Longrightarrow> capacity (snd (get d s)) = capacity s"
begin

lemmas laws = put_result put_inv put_contents put_position put_capacity
  get_result get_inv get_contents get_position get_capacity

lemma run_calls_spec:
  assumes "inv s" "admissible (capacity s) valid cs (length (contents s))"
  shows "fst (run_calls put get cs s) =
      fst (queue_spec (capacity s) cs (contents s) (unat (position s)))"
    and "contents (snd (run_calls put get cs s)) =
      snd (queue_spec (capacity s) cs (contents s) (unat (position s)))"
    and "inv (snd (run_calls put get cs s))"
    and "capacity (snd (run_calls put get cs s)) = capacity s"
  using assms
proof (induction cs arbitrary: s)
  case (Cons c cs)
  { case 1
    then show ?case
      using Cons.IH(1) by (cases c) (simp_all add: split_beta laws)
  next
    case 2
    then show ?case
      using Cons.IH(2) by (cases c) (simp_all add: split_beta laws)
  next
    case 3
    then show ?case
      using Cons.IH(3) by (cases c) (simp_all add: split_beta laws)
  next
    case 4
    then show ?case
      using Cons.IH(4) by (cases c) (simp_all add: split_beta laws)
  }
qed simp_all

text \<open>Storing a batch and taking as many entries returns the batch in order.\<close>

lemma batch_round_trip:
  assumes "inv s" "contents s = []" "\<forall>x\<in>set xs. valid x" "length xs < capacity s"
  shows "drop (length xs) (fst (run_calls put get
      (map (Put c) xs @ map (\<lambda>x. Take d) xs) s)) = map (\<lambda>x. Taken (Ok (Some x))) xs"
proof -
  let ?cs = "map (Put c) xs @ map (\<lambda>x. Take d) xs"
  have "admissible (capacity s) valid ?cs (length (contents s))"
    using assms by (intro admissible_batch) simp_all
  from run_calls_spec(1) [OF assms(1) this]
  have "fst (run_calls put get ?cs s) =
    fst (queue_spec (capacity s) ?cs [] (unat (position s)))"
    by (simp add: assms(2))
  then show ?thesis by (simp add: queue_spec_batch)
qed

end

subsection \<open>The ring implements the interface\<close>

text \<open>What each write brings along: its surroundings, its UUID and its time.\<close>

record 'u write_ctx =
  wc_env :: ring_env
  wc_uuid :: 'u
  wc_now :: clock

definition ring_put ::
  "profile \<Rightarrow> 'u uuid_crate \<Rightarrow> ring_buffer \<Rightarrow> 'u write_ctx \<Rightarrow> operation_kind \<times> u8 list \<Rightarrow> mem
    \<Rightarrow> (ring_error, u64) outcome \<times> mem" where
  "ring_put p U rb c x m =
     ring_write p U (wc_env c) (wc_uuid c) (wc_now c) rb (fst x) (snd x) m"

definition ring_get ::
  "profile \<Rightarrow> 'u uuid_crate \<Rightarrow> ring_buffer \<Rightarrow> nat \<Rightarrow> mem
    \<Rightarrow> (ring_error, (operation_kind \<times> u8 list) option) outcome \<times> mem" where
  "ring_get p U rb sp m = ring_read p U sp rb m"

abbreviation fits :: "ring_buffer \<Rightarrow> operation_kind \<times> u8 list \<Rightarrow> bool" where
  "fits rb x \<equiv> length (snd x) \<le> max_payload rb"

abbreviation slots :: "mem \<Rightarrow> nat" where
  "slots m \<equiv> unat (slot_count m)"

lemma ring_put_effect:
  assumes "ring_wf rb m" "fits rb x" "length (ring_queue rb m) + 1 < slots m"
  shows "fst (ring_put p U rb c x m) = Ok (producer_idx m)"
    "ring_wf rb (snd (ring_put p U rb c x m))"
    "ring_queue rb (snd (ring_put p U rb c x m)) = ring_queue rb m @ [x]"
    "unat (producer_idx (snd (ring_put p U rb c x m))) = Suc (unat (producer_idx m)) mod slots m"
    "slots (snd (ring_put p U rb c x m)) = slots m"
proof -
  have room: "pending m + 1 < slots m" using assms(3) by simp
  obtain m' where w: "ring_write p U (wc_env c) (wc_uuid c) (wc_now c) rb (fst x) (snd x) m =
      (Ok (producer_idx m), m')"
    and r: "ring_wf rb m'" "ring_queue rb m' = ring_queue rb m @ [(fst x, snd x)]"
      "slot_count m' = slot_count m" "consumer_idx m' = consumer_idx m"
    by (rule ring_write_appends [OF assms(1) room assms(2)]) (rule that)
  have "pending m' = pending m + 1" using r(2) by (metis length_ring_queue length_append_singleton Suc_eq_plus1)
  then have "unat (producer_idx m') = Suc (unat (producer_idx m)) mod slots m"
    using producer_at_pending [OF ring_wfD(4) [OF r(1)]]
      producer_at_pending [OF ring_wfD(4) [OF assms(1)]]
    by (simp add: r(3,4) mod_simps)
  then show "fst (ring_put p U rb c x m) = Ok (producer_idx m)"
    "ring_wf rb (snd (ring_put p U rb c x m))"
    "ring_queue rb (snd (ring_put p U rb c x m)) = ring_queue rb m @ [x]"
    "unat (producer_idx (snd (ring_put p U rb c x m))) = Suc (unat (producer_idx m)) mod slots m"
    "slots (snd (ring_put p U rb c x m)) = slots m"
    using r by (simp_all add: ring_put_def w)
qed

lemma ring_get_effect:
  assumes "ring_wf rb m"
  shows "fst (ring_get p U rb sp m) =
      Ok (case ring_queue rb m of [] \<Rightarrow> None | x # _ \<Rightarrow> Some x)"
    "ring_wf rb (snd (ring_get p U rb sp m))"
    "ring_queue rb (snd (ring_get p U rb sp m)) = tl (ring_queue rb m)"
    "producer_idx (snd (ring_get p U rb sp m)) = producer_idx m"
    "slots (snd (ring_get p U rb sp m)) = slots m"
proof -
  obtain m' where g: "ring_get p U rb sp m =
      (Ok (case ring_queue rb m of [] \<Rightarrow> None | x # _ \<Rightarrow> Some x), m')"
    and r: "ring_wf rb m'" "ring_queue rb m' = tl (ring_queue rb m)"
      "producer_idx m' = producer_idx m" "slots m' = slots m"
  proof (cases "ring_queue rb m")
    case Nil
    then show ?thesis
      using that [of m] ring_read_empty [OF ring_wfD(4) [OF assms] Nil, of p U sp] assms
      by (simp add: ring_get_def)
  next
    case (Cons x xs)
    obtain m' where "ring_read p U sp rb m = (Ok (Some x), m')" "ring_wf rb m'"
      "ring_queue rb m' = xs" "slot_count m' = slot_count m"
      "producer_idx m' = producer_idx m"
      by (rule ring_read_takes [OF assms Cons]) (rule that)
    then show ?thesis using that [of m'] by (simp add: ring_get_def Cons)
  qed
  then show "fst (ring_get p U rb sp m) =
      Ok (case ring_queue rb m of [] \<Rightarrow> None | x # _ \<Rightarrow> Some x)"
    "ring_wf rb (snd (ring_get p U rb sp m))"
    "ring_queue rb (snd (ring_get p U rb sp m)) = tl (ring_queue rb m)"
    "producer_idx (snd (ring_get p U rb sp m)) = producer_idx m"
    "slots (snd (ring_get p U rb sp m)) = slots m"
    by simp_all
qed

interpretation ring: fifo_queue "ring_wf rb" "ring_queue rb" producer_idx slots "fits rb"
  "ring_put p U rb" "ring_get p U rb" for p U rb
  by unfold_locales (simp_all add: ring_put_effect ring_get_effect)

end
