(* ===== verification/Ring_Demo.thy ===== *)
theory Ring_Demo
  imports Ring_Fifo
begin

text \<open>
  A concrete ring of four slots on which the general statements are evaluated: the
  options, the system, a UUID crate that keeps a UUID as two 64-bit halves, the ring the
  code creates, and the same ring after three writes.
\<close>

definition demo_uuid :: "(u64 \<times> u64) uuid_crate" where
  "demo_uuid =
     \<lparr>as_bytes = (\<lambda>(a, b). rev (le_bytes 8 a) @ rev (le_bytes 8 b)),
      from_slice = (\<lambda>bs. if length bs = 16
        then Some (le_word (rev (take 8 bs)), le_word (rev (drop 8 bs))) else None),
      uuid_nil = (0, 0)\<rparr>"

definition demo_os :: os where
  "demo_os = \<lparr>os_open = True, os_set_len = (\<lambda>_. True), os_map = (\<lambda>_. True)\<rparr>"

definition demo_options :: ring_options where
  "demo_options = \<lparr>opt_path = ''/dev/shm/demo'', opt_size = 704, opt_slot_size = 128\<rparr>"

definition demo_env :: ring_env where
  "demo_env = \<lparr>env_spurious = (\<lambda>_. 1), env_sleep = (\<lambda>_ _ m. m)\<rparr>"

definition demo_ctx :: "(u64 \<times> u64) write_ctx" where
  "demo_ctx = \<lparr>wc_env = demo_env, wc_uuid = (1, 2), wc_now = Some 3\<rparr>"

definition demo_ring :: ring_buffer where
  "demo_ring = created demo_options"

definition demo_mem :: mem where
  "demo_mem = (case ring_create Debug demo_os demo_uuid (Some 3) demo_options :: (ring_error, _) outcome of
     Ok (rb, m) \<Rightarrow> m | _ \<Rightarrow> [])"

lemma demo_uuid_laws: "uuid_laws demo_uuid"
  by (auto simp: uuid_laws_def demo_uuid_def le_word_le_bytes)

lemma demo_valid: "valid_options demo_options" "os_ok demo_os demo_options"
  "options_slot_count demo_options = 4" "max_payload demo_ring = 64" "quiet demo_env"
  by (simp_all add: valid_options_def demo_options_def os_ok_def demo_os_def layout_simps
      options_slot_count_def max_payload_def demo_ring_def created_def quiet_def demo_env_def)

lemma demo_created:
  "ring_create Debug demo_os demo_uuid (Some 3) demo_options = Ok (demo_ring, demo_mem)"
  "ring_wf demo_ring demo_mem" "ring_queue demo_ring demo_mem = []" "slots demo_mem = 4"
  "length demo_mem = 704" "validate demo_mem"
proof -
  obtain m where m: "ring_create Debug demo_os demo_uuid (Some 3) demo_options =
      Ok (created demo_options, m)"
    and f: "length m = unat (opt_size demo_options)" "ring_wf (created demo_options) m"
      "ring_queue (created demo_options) m = []"
      "unat (slot_count m) = options_slot_count demo_options" "validate m"
    by (rule ring_create_valid [OF demo_valid(1,2)]) (rule that)
  have "demo_mem = m" by (simp add: demo_mem_def m)
  then show "ring_create Debug demo_os demo_uuid (Some 3) demo_options = Ok (demo_ring, demo_mem)"
    "ring_wf demo_ring demo_mem" "ring_queue demo_ring demo_mem = []" "slots demo_mem = 4"
    "length demo_mem = 704" "validate demo_mem"
    using m f demo_valid(3) by (simp_all add: demo_ring_def demo_options_def)
qed

text \<open>Three writes leave one slot free.\<close>

definition demo_entry :: "operation_kind \<times> u8 list" where
  "demo_entry = (DiskWrite, [1, 2, 3])"

definition demo_three :: mem where
  "demo_three = snd (run_calls (ring_put Debug demo_uuid demo_ring)
     (ring_get Debug demo_uuid demo_ring) (replicate 3 (Put demo_ctx demo_entry)) demo_mem)"

lemma demo_three:
  "ring_wf demo_ring demo_three" "ring_queue demo_ring demo_three = replicate 3 demo_entry"
  "pending demo_three = 3" "slots demo_three = 4"
proof -
  let ?cs = "replicate 3 (Put demo_ctx demo_entry) :: ((u64 \<times> u64) write_ctx, _, nat) call list"
  have a: "admissible (slots demo_mem) (fits demo_ring) ?cs
      (length (ring_queue demo_ring demo_mem))"
    by (simp add: demo_created demo_valid demo_entry_def numeral_eq_Suc)
  note r = ring.run_calls_spec [OF demo_created(2) a]
  show wf: "ring_wf demo_ring demo_three"
    unfolding demo_three_def by (rule r(3))
  show q: "ring_queue demo_ring demo_three = replicate 3 demo_entry"
    unfolding demo_three_def using r(2) [of Debug demo_uuid]
    by (simp only: demo_created(3)) (simp add: numeral_eq_Suc split_beta)
  show "slots demo_three = 4"
    unfolding demo_three_def using r(4) [of Debug demo_uuid] by (simp only: demo_created(4))
  show "pending demo_three = 3" using q by (metis length_ring_queue length_replicate)
qed

end
