(* ===== verification/Ring_Safety.thy ===== *)
theory Ring_Safety
  imports Ring_Limits
begin

text \<open>
  Safety of the ring operations on a mapping whose slots hold anything at all: with the
  geometry of the ring and both indices in range, no operation panics or leaves the
  mapping, whatever the statuses, the sizes and the payloads of the slots are and
  whatever other processes that keep to this do while a producer sleeps.
\<close>

definition ring_safe :: "ring_buffer \<Rightarrow> mem \<Rightarrow> bool" where
  "ring_safe rb m \<longleftrightarrow> ring_geometry rb m \<and> indices_in_range m"

text \<open>What no operation on an existing ring changes.\<close>

definition fixed_fields :: "mem \<Rightarrow> nat \<times> u64 \<times> u64 \<times> u64 \<times> u64 \<times> u64 \<times> u64 \<times> u32" where
  "fixed_fields m = (length m, magic m, version m, ring_size m, slot_size m, slot_count m,
     created_at m, numa_node m)"

lemma fixed_fieldsD:
  assumes "fixed_fields m' = fixed_fields m"
  shows "length m' = length m" "slot_count m' = slot_count m" "slot_size m' = slot_size m"
    "ring_size m' = ring_size m" "validate m' = validate m"
  using assms by (simp_all add: fixed_fields_def validate_def)

lemma fixed_fields_in_slot:
  "in_slot rb i m m' \<Longrightarrow> 64 \<le> unat (rb_slot_size rb) \<Longrightarrow> fixed_fields m' = fixed_fields m"
  by (simp add: fixed_fields_def in_slot_header changes_only_length)

lemma fixed_fields_header:
  assumes "header_offset 5 \<le> off" "off + 8 \<le> header_offset 9"
  shows "fixed_fields (store64 off w m) = fixed_fields m"
  using assms atomic_load_changes_only [OF atomic_changes_only(2) [OF order_refl order_refl]]
  by (simp add: fixed_fields_def header_defs layout_simps)

lemma fixed_fields_bump:
  "fixed_fields (bump_producer m) = fixed_fields m"
  "fixed_fields (bump_consumer m) = fixed_fields m"
  "fixed_fields (increment_completed m) = fixed_fields m"
  "fixed_fields (register_producer m) = fixed_fields m"
  "fixed_fields (unregister_producer m) = fixed_fields m"
  unfolding bump_producer_def bump_consumer_def increment_completed_def register_producer_def
    unregister_producer_def
  by (simp_all add: fixed_fields_header layout_simps)

lemma completed_keeps: "active_producers (increment_completed m) = active_producers m"
  by (simp add: increment_completed_def header_defs layout_simps mem_simps)

lemma ring_safeD:
  assumes "ring_safe rb m"
  shows "ring_geometry rb m" "indices_in_range m" "64 \<le> unat (rb_slot_size rb)"
    "producer_idx m < slot_count m" "consumer_idx m < slot_count m"
  using assms ring_geometryD(2) by (auto simp: ring_safe_def indices_in_range_def)

lemma ring_safe_in_slot:
  assumes "in_slot rb i m m'" "ring_safe rb m"
  shows "ring_safe rb m'"
proof -
  have "indices_in_range m'"
    using ring_safeD [OF assms(2)] in_slot_header [OF assms(1)]
    by (simp add: indices_in_range_def)
  then show ?thesis
    using in_slot_geometry [OF assms(1)] assms(2) by (simp add: ring_safe_def)
qed

lemma ring_safe_bump:
  "ring_safe rb m \<Longrightarrow> ring_safe rb (bump_producer m)"
  "ring_safe rb m \<Longrightarrow> ring_safe rb (bump_consumer m)"
  by (auto simp: ring_safe_def intro: bump_geometry bump_in_range)

lemma ring_safe_counters:
  "ring_safe rb (increment_completed m) = ring_safe rb m"
  "ring_safe rb (register_producer m) = ring_safe rb m"
  "ring_safe rb (unregister_producer m) = ring_safe rb m"
  by (simp_all add: ring_safe_def ring_geometry_def indices_in_range_def header_simps)

lemma get_slot_safe:
  "ring_safe rb m \<Longrightarrow> i < unat (slot_count m) \<Longrightarrow> slot_in (slot_at rb i) m"
  using slot_at_in by (simp add: ring_safe_def)

text \<open>Other processes that keep the ring safe and do not touch what the view shows.\<close>

definition safe_env :: "(mem \<Rightarrow> 'k) \<Rightarrow> ring_buffer \<Rightarrow> ring_env \<Rightarrow> bool" where
  "safe_env keep rb E \<longleftrightarrow> (\<forall>a b m. ring_safe rb m \<longrightarrow>
     ring_safe rb (env_sleep E a b m) \<and> keep (env_sleep E a b m) = keep m)"

lemma read_data_outcome:
  assumes "slot_in s m" "length m < 2 ^ 63"
  obtains d where "fst (read_data s m) = Ok d"
proof (cases "status s m = Ready \<and> payload_size s m \<le> data_size s")
  case True
  then show ?thesis
    using that read_data_effect(1) [OF assms] by (simp add: word_le_nat_alt)
next
  case False
  then have "fst (read_data s m) = Ok None"
    by (auto simp: read_data_def Let_def slot_simps not_le)
  then show ?thesis by (rule that)
qed

subsection \<open>The interface of a view that the operations keep\<close>

text \<open>
  A view of the header that advancing an index, counting an operation and storing in a
  slot leave alone, and that shows the number of slots.
\<close>

locale kept_view =
  fixes keep :: "mem \<Rightarrow> 'k"
  assumes kept_slot: "in_slot rb i m m' \<Longrightarrow> 64 \<le> unat (rb_slot_size rb) \<Longrightarrow> keep m' = keep m"
    and kept_header: "keep (bump_producer m) = keep m" "keep (bump_consumer m) = keep m"
      "keep (increment_completed m) = keep m"
    and kept_count: "keep m' = keep m \<Longrightarrow> slot_count m' = slot_count m"
begin

lemma try_slot_safe:
  assumes "ring_safe rb m"
  obtains r m' where "try_slot p U sp rb (slot_count m) m = (Ok r, m')" "ring_safe rb m'"
    "keep m' = keep m" "r = None \<or> r = Some (producer_idx m)"
proof -
  note s = ring_safeD [OF assms]
  let ?s = "slot_at rb (unat (producer_idx m))"
  show ?thesis
  proof (cases "slot_free ?s m")
    case True
    have ch: "in_slot rb (unat (producer_idx m)) (bump_producer m) (reset U ?s (bump_producer m))"
      by (rule reset_changes)
    show ?thesis
      by (rule that [of "Some (producer_idx m)" "reset U ?s (bump_producer m)"])
        (simp_all add: try_slot_eq [OF s(1,2)] True ring_safe_in_slot [OF ch ring_safe_bump(1) [OF assms]]
          kept_slot [OF ch s(3)] kept_header)
  next
    case False
    show ?thesis
      by (rule that [of None "bump_producer m"])
        (simp_all add: try_slot_eq [OF s(1,2)] False ring_safe_bump(1) [OF assms] kept_header)
  qed
qed

lemma wait_loop_safe:
  assumes "ring_safe rb m" "safe_env keep rb E" "n = slot_count m"
  shows "(\<exists>idx m' sl. wait_loop p U E rb n attempt b m = (Ok idx, m', sl) \<and> idx < n \<and>
        ring_safe rb m' \<and> keep m' = keep m) \<or>
    (\<exists>m' sl. wait_loop p U E rb n attempt b m = (Err (RingBufferFull max_attempts), m', sl) \<and>
        ring_safe rb m' \<and> keep m' = keep m)"
  using assms
proof (induction p U E rb n attempt b m rule: wait_loop.induct)
  case (1 p U E rb n attempt b m)
  obtain r m1 where t: "try_slot p U (env_spurious E attempt) rb n m = (Ok r, m1)"
    and m1: "ring_safe rb m1" "keep m1 = keep m"
    and r: "r = None \<or> r = Some (producer_idx m)"
    by (rule try_slot_safe [OF "1.prems"(1), of p U "env_spurious E attempt", folded "1.prems"(3)])
      (rule that)
  consider "r = Some (producer_idx m)" | "r = None" "max_attempts < attempt + 1"
    | "r = None" "\<not> max_attempts < attempt + 1" using r by blast
  then show ?case
  proof cases
    case 1
    then show ?thesis
      using t m1 ring_safeD(4) [OF "1.prems"(1)] "1.prems"(3)
      by (subst (1 2) wait_loop.simps) simp
  next
    case 2
    then show ?thesis
      using t m1 by (subst (1 2) wait_loop.simps) simp
  next
    case 3
    let ?m2 = "env_sleep E attempt b m1"
    have e: "ring_safe rb ?m2" "keep ?m2 = keep m"
      using "1.prems"(2) m1 by (simp_all add: safe_env_def)
    then have n: "n = slot_count ?m2" using kept_count "1.prems"(3) by metis
    show ?thesis
      using "1.IH" [OF t [symmetric] _ _ 3(2) e(1) "1.prems"(2) n] t 3 e(2)
      by (subst (1 2) wait_loop.simps) (auto simp: split_beta)
  qed
qed

lemma ring_write_outcome:
  assumes "ring_safe rb m" "safe_env keep rb E"
  shows "(\<exists>idx m'. ring_write p U E u now rb kind data m = (Ok idx, m') \<and> idx < slot_count m \<and>
        ring_safe rb m' \<and> keep m' = keep m) \<or>
    (\<exists>m'. ring_write p U E u now rb kind data m = (Err (RingBufferFull max_attempts), m') \<and>
        ring_safe rb m' \<and> keep m' = keep m) \<or>
    (max_payload rb < length data \<and>
      ring_write p U E u now rb kind data m = (Err DataTooLarge, m))"
proof -
  obtain mx where mx: "max_payload_size p rb = Ok mx" "unat mx = max_payload rb"
    and ds: "\<And>i. unat (data_size (slot_at rb i)) = max_payload rb"
    by (rule max_payload_size_eq [OF ring_safeD(1) [OF assms(1)], of p]) blast
  show ?thesis
  proof (cases "max_payload rb < length data")
    case True
    then show ?thesis by (simp add: ring_write_def mx)
  next
    case fits: False
    from wait_loop_safe [OF assms refl, of p U 0 1] show ?thesis
    proof (elim disjE exE conjE)
      fix idx m1 sl
      assume w: "wait_loop p U E rb (slot_count m) 0 1 m = (Ok idx, m1, sl)"
        and idx: "idx < slot_count m" and m1: "ring_safe rb m1" "keep m1 = keep m"
      let ?s = "slot_at rb (unat idx)"
      let ?m2 = "set_id U ?s u (set_operation ?s kind m1)"
      have idx1: "idx < slot_count m1" using idx kept_count [OF m1(2)] by simp
      have g: "get_slot p m1 idx (rb_slot_size rb) = Ok ?s"
        by (rule get_slot_in_range [OF ring_safeD(1) [OF m1(1)] idx1])
      have c: "in_slot rb (unat idx) m1 ?m2"
        unfolding set_id_def by (intro puts_in_slot) simp
      have c4: "in_slot rb (unat idx) m1 (snd (write_data ?s now data ?m2))"
        by (rule changes_only_trans [OF c write_data_changes])
      have "slot_in ?s m1"
        using get_slot_safe [OF m1(1)] idx1 by (simp add: word_less_nat_alt)
      then have "slot_in ?s ?m2" by (simp add: slot_in_changes_only [OF c])
      moreover have "length data \<le> unat (data_size ?s)" using fits by (simp add: ds)
      ultimately have "fst (write_data ?s now data ?m2) = Ok ()" by (rule write_data_effect)
      then have "ring_write p U E u now rb kind data m =
          (Ok idx, snd (write_data ?s now data ?m2))"
        using fits by (simp add: ring_write_def mx wait_for_slot_def w g Let_def and_then_Ok del: One_nat_def)
      moreover have "keep (snd (write_data ?s now data ?m2)) = keep m"
        using kept_slot [OF c4 ring_safeD(3) [OF m1(1)]] m1(2) by simp
      ultimately show ?thesis using idx ring_safe_in_slot [OF c4 m1(1)] by simp
    next
      fix m1 sl
      assume "wait_loop p U E rb (slot_count m) 0 1 m =
          (Err (RingBufferFull max_attempts), m1, sl)"
        and "ring_safe rb m1" "keep m1 = keep m"
      then show ?thesis using fits by (simp add: ring_write_def mx wait_for_slot_def del: One_nat_def)
    qed
  qed
qed

lemma ring_read_outcome:
  assumes "ring_safe rb m"
  obtains x m' where "ring_read p U sp rb m = (Ok x, m')" "ring_safe rb m'"
    "keep m' = keep m"
proof (cases "producer_idx m = consumer_idx m")
  case True
  then show ?thesis using that [of None m] assms by (simp add: ring_read_def)
next
  case ne: False
  note s = ring_safeD [OF assms]
  let ?i = "unat (consumer_idx m)" and ?m = "bump_consumer m"
  let ?s = "slot_at rb ?i"
  have sm: "ring_safe rb ?m" by (rule ring_safe_bump(2) [OF assms])
  have g: "get_slot p ?m (consumer_idx m) (rb_slot_size rb) = Ok ?s"
    by (rule get_slot_in_range [OF ring_safeD(1) [OF sm]]) (simp add: header_simps s(5))
  have "slot_in ?s ?m"
    using get_slot_safe [OF sm, of ?i] s(5) by (simp add: header_simps word_less_nat_alt)
  then obtain d where d: "fst (read_data ?s ?m) = Ok d"
    by (rule read_data_outcome [OF _ ring_geometryD(1) [OF ring_safeD(1) [OF sm]]])
  let ?m1 = "snd (read_data ?s ?m)"
  have c: "in_slot rb ?i ?m ?m1" by (rule read_data_changes)
  have c1: "in_slot rb ?i ?m (reset U ?s ?m)" by (rule reset_changes)
  have c2: "in_slot rb ?i ?m (reset U ?s ?m1)" by (rule changes_only_trans [OF c reset_changes])
  note safe = ring_safe_in_slot [OF _ sm] and same = kept_slot [OF _ s(3)]
  consider "status ?s ?m \<noteq> Ready" | "status ?s ?m = Ready" "d = None"
    | data where "status ?s ?m = Ready" "d = Some data" by blast
  then show ?thesis
  proof cases
    case 1
    then show ?thesis
      using that [of None "reset U ?s ?m"] safe [OF c1] same [OF c1] ne
      by (simp add: ring_read_def next_consumer_idx_eq [OF s(5)] g kept_header)
  next
    case 2
    then show ?thesis
      using that [of None "reset U ?s ?m1"] safe [OF c2] same [OF c2] ne
      by (simp add: ring_read_def next_consumer_idx_eq [OF s(5)] g kept_header Let_def
          and_then_Ok [OF d])
  next
    case 3
    then show ?thesis
      using that [of "Some (operation ?s ?m, data)" "increment_completed ?m1"] safe [OF c] same [OF c] ne
      by (simp add: ring_read_def next_consumer_idx_eq [OF s(5)] g kept_header Let_def
          and_then_Ok [OF d] ring_safe_counters)
  qed
qed

end

interpretation geometry: kept_view fixed_fields
  by unfold_locales (auto simp: fixed_fields_in_slot fixed_fields_bump dest: fixed_fieldsD(2))

interpretation accounting: kept_view "\<lambda>m. (fixed_fields m, active_producers m)"
  by unfold_locales
    (auto simp: fixed_fields_in_slot fixed_fields_bump in_slot_header header_simps completed_keeps
      dest: fixed_fieldsD(2))

lemma ring_write_fixed:
  assumes "ring_wf rb m" "pending m + 1 < unat (slot_count m)" "length data \<le> max_payload rb"
    and "ring_write p U E u now rb kind data m = (r, m')"
  shows "fixed_fields m' = fixed_fields m"
proof -
  have "slot_free (slot_at rb (unat (producer_idx m))) m"
    using assms(1,2) ring_slot_pending [OF ring_wfD(4) [OF assms(1)], of rb]
    by (metis ring_wf_def add_lessD1 order_refl)
  from ring_write_free [OF ring_wfD(1,4) [OF assms(1)] this assms(3), of p U E u now kind]
  obtain m1 where "ring_write p U E u now rb kind data m = (Ok (producer_idx m), m1)"
    "in_slot rb (unat (producer_idx m)) (bump_producer m) m1" by blast
  then show ?thesis
    using fixed_fields_in_slot [OF _ ring_geometryD(2) [OF ring_wfD(1) [OF assms(1)]]] assms(4)
    by (simp add: fixed_fields_bump)
qed

subsection \<open>Reading an unfinished slot\<close>

text \<open>A slot that is not ready is reset by the read, and its index is gone.\<close>

lemma ring_read_unready:
  assumes "ring_safe rb m" "producer_idx m \<noteq> consumer_idx m"
    and "status (slot_at rb (unat (consumer_idx m))) m \<noteq> Ready"
  shows "ring_read p U sp rb m =
    (Ok None, reset U (slot_at rb (unat (consumer_idx m))) (bump_consumer m))"
proof -
  note s = ring_safeD [OF assms(1)]
  have g: "get_slot p (bump_consumer m) (consumer_idx m) (rb_slot_size rb) =
      Ok (slot_at rb (unat (consumer_idx m)))"
    by (rule get_slot_in_range [OF bump_geometry(2) [OF s(1)]]) (simp add: header_simps s(5))
  show ?thesis
    using assms(2,3)
    by (simp add: ring_read_def next_consumer_idx_eq [OF s(5)] g bump_slot [OF s(1)])
qed

end
