(* ===== verification/Ring_Producers.thy ===== *)
theory Ring_Producers
  imports Ring_Safety
begin

text \<open>
  The life of a ring between processes: handles are opened, registered as producers,
  used, unregistered and dropped in any order. The count of active producers in the
  header follows the handles.
\<close>

type_synonym ring_world = "mem \<times> ring_buffer list"

text \<open>
  One event on a ring. A write comes with surroundings that may change the slots and the
  indices while it sleeps.
\<close>

inductive ring_step :: "profile \<Rightarrow> os \<Rightarrow> 'u uuid_crate \<Rightarrow> ring_world \<Rightarrow> ring_world \<Rightarrow> bool"
  for p :: profile and W :: os and U :: "'u uuid_crate" where
  step_open: "ring_open W opts m = Ok rb \<Longrightarrow> ring_step p W U (m, hs) (m, hs @ [rb])"
| step_register: "i < length hs \<Longrightarrow> register_as_producer (hs ! i, m) = (rb, m') \<Longrightarrow>
    ring_step p W U (m, hs) (m', hs[i := rb])"
| step_unregister: "i < length hs \<Longrightarrow> unregister_as_producer (hs ! i, m) = (rb, m') \<Longrightarrow>
    ring_step p W U (m, hs) (m', hs[i := rb])"
| step_drop: "ring_step p W U (m, hs1 @ rb # hs2) (ring_drop (rb, m), hs1 @ hs2)"
| step_write: "rb \<in> set hs \<Longrightarrow> safe_env (\<lambda>m. (fixed_fields m, active_producers m)) rb E \<Longrightarrow>
    ring_write p U E u now rb kind data m = (r, m') \<Longrightarrow> ring_step p W U (m, hs) (m', hs)"
| step_read: "rb \<in> set hs \<Longrightarrow> ring_read p U sp rb m = (x, m') \<Longrightarrow>
    ring_step p W U (m, hs) (m', hs)"

inductive_cases ring_stepE: "ring_step p W U w w'"

definition producers :: "ring_buffer list \<Rightarrow> nat" where
  "producers hs = length (filter rb_is_producer hs)"

definition world_inv :: "ring_world \<Rightarrow> bool" where
  "world_inv = (\<lambda>(m, hs).
     validate m \<and> (\<forall>rb. rb_slot_size rb = slot_size m \<longrightarrow> ring_safe rb m) \<and>
     (\<forall>rb\<in>set hs. rb_slot_size rb = slot_size m) \<and>
     active_producers m = of_nat (producers hs))"

lemma ring_safe_cong:
  "rb_slot_size rb' = rb_slot_size rb \<Longrightarrow> ring_safe rb' m = ring_safe rb m"
  by (simp add: ring_safe_def ring_geometry_def)

lemma producers_simps [simp]:
  "producers [] = 0" "producers (rb # hs) = (if rb_is_producer rb then 1 else 0) + producers hs"
  "producers (hs1 @ hs2) = producers hs1 + producers hs2"
  by (simp_all add: producers_def)

lemma producers_update:
  "i < length hs \<Longrightarrow> rb_is_producer (hs ! i) \<noteq> rb_is_producer rb \<Longrightarrow>
   producers (hs[i := rb]) + (if rb_is_producer rb then 0 else 1) =
     producers hs + (if rb_is_producer rb then 1 else 0)"
proof (induction hs arbitrary: i)
  case (Cons h hs)
  then show ?case by (cases i) auto
qed simp

lemma set_update_slot_size:
  "\<forall>rb\<in>set hs. rb_slot_size rb = n \<Longrightarrow> rb_slot_size rb' = n \<Longrightarrow>
   \<forall>rb\<in>set (hs[i := rb']). rb_slot_size rb = n"
  using set_update_subset_insert [of hs i rb'] by auto

text \<open>An operation that keeps the fixed fields and the safety of the ring keeps the rest.\<close>

lemma world_inv_change:
  assumes "world_inv (m, hs)" "fixed_fields m' = fixed_fields m"
    and "ring_safe rb m \<Longrightarrow> ring_safe rb m'" "rb_slot_size rb = slot_size m"
    and "\<forall>h\<in>set hs'. rb_slot_size h = slot_size m"
    and "active_producers m' = of_nat (producers hs')"
  shows "world_inv (m', hs')"
proof -
  note f = fixed_fieldsD [OF assms(2)]
  have "ring_safe rb m'" using assms(1,3,4) by (simp add: world_inv_def)
  then have "ring_safe rb' m'" if "rb_slot_size rb' = slot_size m'" for rb'
    using that assms(4) f(3) ring_safe_cong by metis
  then show ?thesis using assms f by (simp add: world_inv_def)
qed

lemma world_inv_update:
  assumes "world_inv (m, hs)" "i < length hs" "rb_is_producer (hs ! i) \<noteq> b"
    and "m' = (if b then register_producer m else unregister_producer m)"
  shows "world_inv (m', hs[i := (hs ! i)\<lparr>rb_is_producer := b\<rparr>])"
proof -
  let ?h = "hs ! i" and ?hs' = "hs[i := (hs ! i)\<lparr>rb_is_producer := b\<rparr>]"
  have s: "rb_slot_size ?h = slot_size m" "ring_safe ?h m"
    and a: "active_producers m = of_nat (producers hs)"
    and hs: "\<forall>rb\<in>set hs. rb_slot_size rb = slot_size m"
    using assms(1,2) by (auto simp: world_inv_def)
  have len: "sizeof_RingHeader \<le> length m"
    by (rule ring_geometryD(6) [OF ring_safeD(1) [OF s(2)]])
  have n: "producers ?hs' + (if b then 0 else 1) = producers hs + (if b then 1 else 0)"
    using producers_update [OF assms(2), of "?h\<lparr>rb_is_producer := b\<rparr>"] assms(3) by simp
  have "(of_nat (producers ?hs') :: u64) =
      (if b then of_nat (producers hs) + 1 else of_nat (producers hs) - 1)"
    using arg_cong [OF n, of "of_nat :: nat \<Rightarrow> u64"] by (cases b) (simp_all add: algebra_simps)
  then have act: "active_producers m' = of_nat (producers ?hs')"
    using assms(4) by (simp add: a header_simps len)
  show ?thesis
  proof (rule world_inv_change [OF assms(1) _ _ s(1) _ act])
    show "fixed_fields m' = fixed_fields m" by (simp add: assms(4) fixed_fields_bump)
    show "ring_safe ?h m \<Longrightarrow> ring_safe ?h m'" by (simp add: assms(4) ring_safe_counters)
    show "\<forall>rb\<in>set ?hs'. rb_slot_size rb = slot_size m"
      by (rule set_update_slot_size [OF hs]) (simp add: s(1))
  qed
qed

lemma world_inv_drop:
  assumes "world_inv (m, hs1 @ rb # hs2)"
  shows "world_inv (ring_drop (rb, m), hs1 @ hs2)"
proof (cases "rb_is_producer rb")
  case False
  then show ?thesis using assms by (simp add: ring_drop_def world_inv_def)
next
  case True
  let ?m' = "unregister_producer m"
  have inv: "world_inv (?m', (hs1 @ rb # hs2)[length hs1 := rb\<lparr>rb_is_producer := False\<rparr>])"
    using world_inv_update [OF assms, of "length hs1" False] True by simp
  then show ?thesis using True by (simp add: ring_drop_def unregister_as_producer_def world_inv_def)
qed

lemma world_inv_step:
  assumes "ring_step p W U w w'" "world_inv w"
  shows "world_inv w'"
  using assms
proof (induction rule: ring_step.induct)
  case (step_open opts m rb hs)
  then show ?case by (auto simp: ring_open_Ok_iff opened_def world_inv_def)
next
  case (step_register i hs m rb m')
  then show ?case
    using world_inv_update [OF step_register.prems step_register.hyps(1), of True]
    by (cases "rb_is_producer (hs ! i)") (auto simp: register_as_producer_def)
next
  case (step_unregister i hs m rb m')
  then show ?case
    using world_inv_update [OF step_unregister.prems step_unregister.hyps(1), of False]
    by (cases "rb_is_producer (hs ! i)") (auto simp: unregister_as_producer_def)
next
  case (step_drop m hs1 rb hs2)
  then show ?case by (rule world_inv_drop)
next
  case (step_write rb hs E u now kind data m r m')
  then have s: "rb_slot_size rb = slot_size m" "ring_safe rb m" by (auto simp: world_inv_def)
  have "ring_safe rb m' \<and> fixed_fields m' = fixed_fields m \<and>
      active_producers m' = active_producers m"
    using accounting.ring_write_outcome [OF s(2) step_write.hyps(2), of p U u now kind data]
      step_write.hyps(3) s(2) by auto
  then show ?case
    using world_inv_change [OF step_write.prems _ _ s(1), of m' hs] step_write.prems
    by (auto simp: world_inv_def)
next
  case (step_read rb hs sp m x m')
  then have s: "rb_slot_size rb = slot_size m" "ring_safe rb m" by (auto simp: world_inv_def)
  obtain y m1 where "ring_read p U sp rb m = (Ok y, m1)" "ring_safe rb m1"
    "(fixed_fields m1, active_producers m1) = (fixed_fields m, active_producers m)"
    by (rule accounting.ring_read_outcome [OF s(2)]) (rule that)
  then show ?case
    using world_inv_change [OF step_read.prems _ _ s(1), of m' hs] step_read.prems step_read.hyps
    by (auto simp: world_inv_def)
qed

lemma world_inv_steps:
  "(ring_step p W U)\<^sup>*\<^sup>* w w' \<Longrightarrow> world_inv w \<Longrightarrow> world_inv w'"
  by (induction rule: rtranclp_induct) (auto intro: world_inv_step)

lemma world_inv_created:
  assumes "valid_options opts" "os_ok W opts" "ring_create p W U now opts = Ok (rb, m)"
  shows "world_inv (m, [rb])"
proof -
  obtain m' where m: "ring_create p W U now opts = Ok (created opts, m')"
    "ring_wf (created opts) m'" "slot_size m' = opt_slot_size opts" "validate m'"
    "active_producers m' = 1"
    by (rule ring_create_valid [OF assms(1,2)]) (rule that)
  have e: "rb = created opts" "m = m'" using m(1) assms(3) by simp_all
  have "ring_safe rb m" using ring_wfD(1,4) [OF m(2)] by (simp add: ring_safe_def e)
  then have "ring_safe rb' m" if "rb_slot_size rb' = slot_size m" for rb'
    using that ring_safe_cong [of rb' rb m] by (simp add: e m(3) created_def)
  then show ?thesis using m by (simp add: world_inv_def e created_def)
qed

end
