(* ===== verification/Ring_Correctness.thy ===== *)
theory Ring_Correctness
  imports Ring_Demo Ring_Producers
begin

text \<open>
  The properties of the ring buffer. Each is stated over the operations of the code's
  model and rests on the lemmas of the component theories; the theorem after a property
  with hypotheses applies it to the ring of \<open>Ring_Demo\<close>.
\<close>

subsection \<open>The ring is a queue\<close>

text \<open>
  C1: Every sequence of writes and reads that keeps one slot free gets from the ring
  the replies of the abstract first-in first-out queue: a write returns the index of its
  slot, a read returns the oldest entry or none. The ring stays well-formed and holds
  the entries of the abstract queue.
\<close>

theorem ring_refines_queue:
  assumes "ring_wf rb m"
    and "admissible (slots m) (fits rb) cs (length (ring_queue rb m))"
  shows "fst (run_calls (ring_put p U rb) (ring_get p U rb) cs m) =
      fst (queue_spec (slots m) cs (ring_queue rb m) (unat (producer_idx m))) \<and>
    ring_queue rb (snd (run_calls (ring_put p U rb) (ring_get p U rb) cs m)) =
      snd (queue_spec (slots m) cs (ring_queue rb m) (unat (producer_idx m)) ::
        (ring_error, _) reply list \<times> _) \<and>
    ring_wf rb (snd (run_calls (ring_put p U rb) (ring_get p U rb) cs m))"
  using ring.run_calls_spec [OF assms, of p U] by simp

theorem ring_refines_queue_demo:
  "fst (run_calls (ring_put Release demo_uuid demo_ring) (ring_get Release demo_uuid demo_ring)
     [Put demo_ctx (DiskWrite, [7]), Take 0, Put demo_ctx (Custom, []), Take 2, Take 0] demo_mem) =
   fst (queue_spec 4 [Put demo_ctx (DiskWrite, [7]), Take 0, Put demo_ctx (Custom, []), Take 2, Take 0]
     [] (unat (producer_idx demo_mem)))"
  using ring_refines_queue [OF demo_created(2),
      of "[Put demo_ctx (DiskWrite, [7]), Take 0, Put demo_ctx (Custom, []), Take 2, Take 0]"
        Release demo_uuid]
  by (simp add: demo_created demo_valid)

text \<open>
  C4: From a freshly created ring, a batch of entries smaller than the ring comes back
  from as many reads, complete, unchanged and in order.
\<close>

theorem create_then_batch_round_trip:
  assumes "valid_options opts" "os_ok W opts"
    and "\<forall>x\<in>set xs. fits (created opts) x" "length xs < options_slot_count opts"
  shows "\<exists>m. ring_create p W U now opts = Ok (created opts, m) \<and>
    drop (length xs) (fst (run_calls (ring_put p U (created opts)) (ring_get p U (created opts))
      (map (Put c) xs @ map (\<lambda>x. Take d) xs) m)) = map (\<lambda>x. Taken (Ok (Some x))) xs"
proof -
  obtain m where m: "ring_create p W U now opts = Ok (created opts, m)"
    "ring_wf (created opts) m" "ring_queue (created opts) m = []"
    "slots m = options_slot_count opts"
    by (rule ring_create_valid [OF assms(1,2)]) (rule that)
  show ?thesis
    using m(1) ring.batch_round_trip [OF m(2,3) assms(3), of p U c d] assms(4) m(4) by auto
qed

theorem create_then_batch_round_trip_demo:
  "\<exists>m. ring_create Debug demo_os demo_uuid None demo_options = Ok (created demo_options, m) \<and>
    drop 2 (fst (run_calls (ring_put Debug demo_uuid (created demo_options))
      (ring_get Debug demo_uuid (created demo_options))
      [Put demo_ctx (DiskWrite, [7]), Put demo_ctx (NetworkSend, [8, 9]), Take 0, Take 0] m)) =
    [Taken (Ok (Some (DiskWrite, [7]))), Taken (Ok (Some (NetworkSend, [8, 9])))]"
  using create_then_batch_round_trip [OF demo_valid(1,2),
      of "[(DiskWrite, [7]), (NetworkSend, [8, 9])]" Debug demo_uuid None demo_ctx 0]
  by (simp add: demo_valid demo_ring_def [symmetric] numeral_2_eq_2)

text \<open>
  A write to a ring with more than one free slot returns the producer index, appends
  the entry to the queue and keeps the ring well-formed; nothing is counted as completed.
\<close>

theorem write_appends:
  assumes "ring_wf rb m" "pending m + 1 < slots m" "length data \<le> max_payload rb"
  shows "\<exists>m'. ring_write p U E u now rb kind data m = (Ok (producer_idx m), m') \<and>
    ring_wf rb m' \<and> ring_queue rb m' = ring_queue rb m @ [(kind, data)] \<and>
    consumer_idx m' = consumer_idx m \<and> operations_completed m' = operations_completed m"
  by (rule ring_write_appends [OF assms]) (auto intro!: exI)

theorem write_appends_demo:
  "\<exists>m'. ring_write Debug demo_uuid demo_env (1, 2) None demo_ring NetworkClose [5] demo_mem =
      (Ok (producer_idx demo_mem), m') \<and>
    ring_wf demo_ring m' \<and> ring_queue demo_ring m' = [(NetworkClose, [5])] \<and>
    consumer_idx m' = consumer_idx demo_mem \<and>
    operations_completed m' = operations_completed demo_mem"
proof -
  have "pending demo_mem + 1 < slots demo_mem"
    using demo_created(3,4) by (metis length_ring_queue list.size(3) add_0 one_less_numeral_iff semiring_norm(76))
  from write_appends [OF demo_created(2) this, of "[5]" Debug demo_uuid demo_env "(1, 2)" None NetworkClose]
  show ?thesis by (simp add: demo_valid demo_created)
qed

text \<open>
  A read of a ring with entries returns the oldest, kind and bytes, leaves the rest of
  the queue as it was, and counts one completed operation; a read of a ring without
  entries returns none and changes nothing.
\<close>

theorem read_takes_oldest:
  assumes "ring_wf rb m"
  shows "case ring_queue rb m of
      [] \<Rightarrow> ring_read p U sp rb m = (Ok None, m)
    | x # xs \<Rightarrow> \<exists>m'. ring_read p U sp rb m = (Ok (Some x), m') \<and> ring_wf rb m' \<and>
        ring_queue rb m' = xs \<and> producer_idx m' = producer_idx m \<and>
        operations_completed m' = operations_completed m + 1"
proof (cases "ring_queue rb m")
  case Nil
  then show ?thesis using ring_read_empty [OF ring_wfD(4) [OF assms] Nil] by simp
next
  case (Cons x xs)
  show ?thesis
    by (rule ring_read_takes [OF assms Cons, of p U sp]) (auto simp: Cons intro!: exI)
qed

theorem read_takes_oldest_demo:
  "\<exists>m'. ring_read Release demo_uuid 5 demo_ring demo_three = (Ok (Some demo_entry), m') \<and>
    ring_wf demo_ring m' \<and> ring_queue demo_ring m' = [demo_entry, demo_entry] \<and>
    producer_idx m' = producer_idx demo_three \<and>
    operations_completed m' = operations_completed demo_three + 1"
  using read_takes_oldest [OF demo_three(1), of Release demo_uuid 5]
  by (simp add: demo_three(2) numeral_eq_Suc)

subsection \<open>Safety\<close>

text \<open>
  C6: On a ring whose slots hold anything, no sequence of writes and reads panics or
  leaves the mapping: each write returns an index of the ring, or one of its two errors,
  each read returns a value, and the geometry and the index bounds last, while other
  processes that respect them change the mapping during the sleeps of the writers.
\<close>

definition orderly_reply :: "u64 \<Rightarrow> (ring_error, operation_kind \<times> u8 list) reply \<Rightarrow> bool" where
  "orderly_reply n r = (case r of
     Stored (Ok idx) \<Rightarrow> idx < n
   | Stored (Err e) \<Rightarrow> e = DataTooLarge \<or> e = RingBufferFull max_attempts
   | Stored _ \<Rightarrow> False
   | Taken (Ok _) \<Rightarrow> True
   | Taken _ \<Rightarrow> False)"

primrec orderly_call :: "ring_buffer \<Rightarrow> ('u write_ctx, operation_kind \<times> u8 list, nat) call \<Rightarrow> bool" where
  "orderly_call rb (Put c x) = safe_env fixed_fields rb (wc_env c)"
| "orderly_call rb (Take sp) = True"

theorem ring_never_panics:
  assumes "ring_safe rb m" "\<forall>c\<in>set cs. orderly_call rb c"
  shows "(\<forall>r\<in>set (fst (run_calls (ring_put p U rb) (ring_get p U rb) cs m)).
      orderly_reply (slot_count m) r) \<and>
    ring_safe rb (snd (run_calls (ring_put p U rb) (ring_get p U rb) cs m)) \<and>
    fixed_fields (snd (run_calls (ring_put p U rb) (ring_get p U rb) cs m)) = fixed_fields m"
  using assms
proof (induction cs arbitrary: m)
  case (Cons c cs)
  obtain r m' where step: "run_calls (ring_put p U rb) (ring_get p U rb) (c # cs) m =
      (r # fst (run_calls (ring_put p U rb) (ring_get p U rb) cs m'),
       snd (run_calls (ring_put p U rb) (ring_get p U rb) cs m'))"
    and r: "orderly_reply (slot_count m) r" and m': "ring_safe rb m'" "fixed_fields m' = fixed_fields m"
  proof (cases c)
    case (Put ctx x)
    have "safe_env fixed_fields rb (wc_env ctx)" using Cons.prems(2) Put by simp
    from geometry.ring_write_outcome [OF Cons.prems(1) this, of p U "wc_uuid ctx" "wc_now ctx"
        "fst x" "snd x"]
    show ?thesis
      using that [of "Stored (fst (ring_put p U rb ctx x m))" "snd (ring_put p U rb ctx x m)"]
        Cons.prems(1)
      by (auto simp: Put ring_put_def split_beta orderly_reply_def)
  next
    case (Take sp)
    obtain x m1 where "ring_read p U sp rb m = (Ok x, m1)" "ring_safe rb m1"
      "fixed_fields m1 = fixed_fields m"
      by (rule geometry.ring_read_outcome [OF Cons.prems(1)]) (rule that)
    then show ?thesis
      using that [of "Taken (Ok x)" m1]
      by (simp add: Take ring_get_def split_beta orderly_reply_def)
  qed
  show ?case
    using Cons.IH [OF m'(1)] Cons.prems(2) r m'(2) fixed_fieldsD(2) [OF m'(2)]
    unfolding step by simp
qed simp

theorem ring_never_panics_demo:
  "list_all (orderly_reply (slot_count demo_mem))
     (fst (run_calls (ring_put Debug demo_uuid demo_ring) (ring_get Debug demo_uuid demo_ring)
       (replicate 7 (Put demo_ctx demo_entry) @ replicate 9 (Take 0)) demo_mem))"
proof -
  have "ring_safe demo_ring demo_mem"
    using ring_wfD(1,4) [OF demo_created(2)] by (simp add: ring_safe_def)
  moreover have "safe_env fixed_fields demo_ring (wc_env demo_ctx)"
    by (simp add: safe_env_def demo_ctx_def demo_env_def)
  ultimately show ?thesis
    using ring_never_panics [of demo_ring demo_mem
        "replicate 7 (Put demo_ctx demo_entry) @ replicate 9 (Take 0)" Debug demo_uuid]
    unfolding list_all_iff by auto
qed

text \<open>
  C10: From the creation of a ring on, through any sequence of openings, registrations,
  unregistrations, drops, writes and reads, the count of active producers in the header
  is the number of handles that are producers, the header stays valid, and the ring stays
  safe for every handle on it.
\<close>

theorem producers_counted:
  assumes "valid_options opts" "os_ok W opts" "ring_create p W U now opts = Ok (rb, m0)"
    and "(ring_step p W U)\<^sup>*\<^sup>* (m0, [rb]) (m, hs)"
  shows "active_producers m = of_nat (length (filter rb_is_producer hs)) \<and> validate m \<and>
    (\<forall>h\<in>set hs. ring_safe h m)"
  using world_inv_steps [OF assms(4) world_inv_created [OF assms(1-3)]]
  by (simp add: world_inv_def producers_def)

theorem producers_counted_demo:
  "active_producers (ring_drop (demo_ring, demo_mem)) = 0 \<and>
   validate (ring_drop (demo_ring, demo_mem))"
proof -
  have "ring_step Debug demo_os demo_uuid (demo_mem, [] @ demo_ring # [])
      (ring_drop (demo_ring, demo_mem), [] @ [])"
    by (rule step_drop)
  then have "(ring_step Debug demo_os demo_uuid)\<^sup>*\<^sup>* (demo_mem, [demo_ring])
      (ring_drop (demo_ring, demo_mem), [])" by simp
  from producers_counted [OF demo_valid(1,2) demo_created(1) this] show ?thesis by simp
qed

subsection \<open>Creating and opening\<close>

text \<open>
  With valid options and a system that grants the file, creation returns a
  well-formed empty ring with a valid header, as many empty slots as fit behind the
  header, one producer, and the creation time, in both build profiles.
\<close>

theorem create_gives_empty_ring:
  assumes "valid_options opts" "os_ok W opts"
  shows "\<exists>m. ring_create p W U now opts = Ok (created opts, m) \<and>
    ring_wf (created opts) m \<and> ring_queue (created opts) m = [] \<and> validate m \<and>
    length m = unat (opt_size opts) \<and> slots m = options_slot_count opts \<and>
    (\<forall>i < slots m. status (slot_at (created opts) i) m = Empty) \<and>
    active_producers m = 1 \<and> operations_completed m = 0 \<and> created_at m = as_secs now"
  by (rule ring_create_valid [OF assms, of p U now]) auto

theorem create_gives_empty_ring_demo:
  "\<exists>m. ring_create Release demo_os demo_uuid (Some 3) demo_options = Ok (created demo_options, m) \<and>
    slots m = 4 \<and> active_producers m = 1 \<and> created_at m = 3"
  using create_gives_empty_ring [OF demo_valid(1,2), of Release demo_uuid "Some 3"]
  by (auto simp: demo_valid as_secs_def)

text \<open>
  C31: What the creator writes, another process reads: the ring opens with any options
  (the geometry is taken from the header), and a read through the opened handle returns
  the kind and the bytes.
\<close>

theorem opened_handle_reads_what_was_written:
  assumes "valid_options opts" "os_ok W opts" "1 < options_slot_count opts"
    and "length data \<le> max_payload (created opts)"
  shows "\<exists>m m1 m2. ring_create p W U now opts = Ok (created opts, m) \<and>
    ring_write p U E u now1 (created opts) kind data m = (Ok (producer_idx m), m1) \<and>
    ring_open W opts1 m1 = Ok (opened opts1 m1) \<and>
    ring_read p U sp (opened opts1 m1) m1 = (Ok (Some (kind, data)), m2)"
proof -
  let ?rb = "created opts"
  obtain m where c: "ring_create p W U now opts = Ok (?rb, m)" "length m = unat (opt_size opts)"
    "ring_wf ?rb m" "ring_queue ?rb m = []" "unat (slot_count m) = options_slot_count opts"
    "slot_size m = opt_slot_size opts" "validate m"
    by (rule ring_create_valid [OF assms(1,2)]) (rule that)
  have q: "pending m = 0" using c(4) by (metis length_ring_queue list.size(3))
  obtain m1 where w: "ring_write p U E u now1 ?rb kind data m = (Ok (producer_idx m), m1)"
    "ring_wf ?rb m1" "ring_queue ?rb m1 = [(kind, data)]"
    using ring_write_appends [OF c(3) _ assms(4), of p U E u now1 kind] q assms(3) c(4,5) by auto
  have same: "fixed_fields m1 = fixed_fields m"
    by (rule ring_write_fixed [OF c(3) _ assms(4) w(1)]) (use q assms(3) c(5) in simp)
  note f = fixed_fieldsD [OF same]
  have "sizeof_RingHeader \<le> length m1" by (rule ring_geometryD(6) [OF ring_wfD(1) [OF w(2)]])
  then have o: "ring_open W opts1 m1 = Ok (opened opts1 m1)"
    using assms(2) c(2,7) f by (simp add: ring_open_Ok_iff os_ok_def)
  have s: "rb_slot_size (opened opts1 m1) = rb_slot_size ?rb"
    by (simp add: opened_def created_def f c(6))
  obtain m2 where "ring_read p U sp (opened opts1 m1) m1 = (Ok (Some (kind, data)), m2)"
    using ring_read_takes [of "opened opts1 m1" m1 "(kind, data)" "[]" p U sp]
    by (simp add: ring_wf_cong [OF s] w(2,3)) blast
  then show ?thesis using c(1) w(1) o by blast
qed

theorem opened_handle_reads_what_was_written_demo:
  "\<exists>m m1 m2. ring_create Debug demo_os demo_uuid None demo_options = Ok (created demo_options, m) \<and>
    ring_write Debug demo_uuid demo_env (1, 2) None (created demo_options) DiskRead [9, 9] m =
      (Ok (producer_idx m), m1) \<and>
    ring_open demo_os default_options m1 = Ok (opened default_options m1) \<and>
    ring_read Debug demo_uuid 0 (opened default_options m1) m1 = (Ok (Some (DiskRead, [9, 9])), m2)"
  by (rule opened_handle_reads_what_was_written)
    (simp_all add: demo_valid demo_ring_def [symmetric])

text \<open>
  C35: Creation does not check its options. A ring smaller than its header makes a debug
  build panic and a release build write the header outside the mapping, a slot size of
  zero is a division by zero in both, and a slot size below the metadata makes the first
  payload limit wrap around in a release build.
\<close>

theorem create_trusts_its_options:
  assumes "os_ok W opts"
  shows "(unat (opt_size opts) < sizeof_RingHeader \<longrightarrow>
      ring_create Debug W U now opts = Panic ArithmeticOverflow) \<and>
    (unat (opt_size opts) < sizeof_RingHeader \<longrightarrow> opt_slot_size opts \<noteq> 0 \<longrightarrow>
      ring_create Release W U now opts = UB) \<and>
    (sizeof_RingHeader \<le> unat (opt_size opts) \<longrightarrow> opt_slot_size opts = 0 \<longrightarrow>
      ring_create p W U now opts = Panic DivisionByZero) \<and>
    (opt_slot_size opts < 64 \<longrightarrow>
      max_payload_size Release (created opts) = Ok (opt_slot_size opts - 64) \<and>
      2 ^ 64 - 64 \<le> unat (opt_slot_size opts - 64))"
proof -
  have "2 ^ 64 - 64 \<le> unat (w - 64)" if "w < 64" for w :: u64
  proof -
    have "unat w < 64" using that by (simp add: word_less_nat_alt)
    then show ?thesis by (simp add: unat_sub_if' that)
  qed
  then show ?thesis
    using ring_create_small [OF _ assms] ring_create_zero_slot [OF _ _ assms]
    by (auto simp: max_payload_size_def usize_sub_def overflowing_def created_def layout_simps)
qed

theorem create_trusts_its_options_demo:
  "ring_create Debug demo_os demo_uuid None (demo_options\<lparr>opt_size := 100\<rparr>) = Panic ArithmeticOverflow \<and>
   ring_create Release demo_os demo_uuid None (demo_options\<lparr>opt_size := 100\<rparr>) = UB \<and>
   ring_create Release demo_os demo_uuid None (demo_options\<lparr>opt_slot_size := 0\<rparr>) = Panic DivisionByZero"
  using create_trusts_its_options [of demo_os "demo_options\<lparr>opt_size := 100\<rparr>" demo_uuid None Debug]
    create_trusts_its_options [of demo_os "demo_options\<lparr>opt_slot_size := 0\<rparr>" demo_uuid None Release]
  by (simp add: os_ok_def demo_os_def demo_options_def layout_simps)

subsection \<open>Waiting for a slot\<close>

text \<open>
  Whatever other processes do, a call waits for a slot at most 427 milliseconds, in
  at most ten sleeps that double from one millisecond and are capped at a hundred.
\<close>

theorem waiting_is_bounded:
  "sum_list (snd (snd (wait_for_slot p U E rb m))) \<le> 427 \<and>
   length (snd (snd (wait_for_slot p U E rb m))) \<le> 10 \<and>
   (\<exists>k. snd (snd (wait_for_slot p U E rb m)) = take k [1, 2, 4, 8, 16, 32, 64, 100, 100, 100])"
proof -
  obtain k where k: "snd (snd (wait_for_slot p U E rb m)) = take k (backoffs 10 1)"
    using wait_loop_sleeps [of p U E rb "slot_count m" 0 1 m]
    by (auto simp: wait_for_slot_def max_attempts_def)
  have "sum_list (backoffs 10 1) = 427" "length (backoffs 10 1) = 10"
    unfolding backoffs_10 by simp_all
  then show ?thesis
    using sum_list_take_le [of k "backoffs 10 1"] unfolding k backoffs_10 by auto
qed

text \<open>
  The number of available slots a producer computes is the number of slots less the
  pending ones. It is never zero, so the test for a full ring never holds a producer back
  and every attempt advances the producer index.
\<close>

theorem full_test_never_fires:
  assumes "indices_in_range m" "ring_geometry rb m"
  shows "(\<exists>a. available_slots p (slot_count m) m = Ok a \<and> 0 < a \<and>
      unat a = slots m - pending m) \<and>
    producer_idx (snd (try_slot p U sp rb (slot_count m) m)) = (producer_idx m + 1) mod slot_count m"
proof -
  have len: "sizeof_RingHeader \<le> length m" by (rule ring_geometryD(6) [OF assms(2)])
  let ?s = "slot_at rb (unat (producer_idx m))"
  have "producer_idx (reset U ?s (bump_producer m)) = producer_idx (bump_producer m)"
    by (rule in_slot_header(2) [OF reset_changes ring_geometryD(2) [OF assms(2)]])
  then have "producer_idx (snd (try_slot p U sp rb (slot_count m) m)) = producer_idx (bump_producer m)"
    by (simp add: try_slot_eq [OF assms(2,1)])
  moreover obtain a where "available_slots p (slot_count m) m = Ok a"
    "unat a = slots m - pending m" "0 < a"
    by (rule available_slots_value [OF assms(1)]) (rule that)
  ultimately show ?thesis by (simp add: header_simps len)
qed

theorem full_test_never_fires_demo:
  "\<exists>a. available_slots Debug (slot_count demo_three) demo_three = Ok a \<and> 0 < a \<and>
     unat a = slots demo_three - 3"
  using full_test_never_fires [OF ring_wfD(4,1) [OF demo_three(1)], of Debug demo_uuid 0]
  by (simp add: demo_three(3))

text \<open>
  C32: The ring loses sight of its entries when its last free slot is written: the write
  succeeds, all slots are then ready, the earlier entries are still in their slots, and
  yet the next read says that there is no data.
\<close>

theorem last_write_hides_the_entries:
  assumes "ring_wf rb m" "pending m + 1 = slots m" "length data \<le> max_payload rb"
  shows "\<exists>m'. ring_write p U E u now rb kind data m = (Ok (producer_idx m), m') \<and>
    ring_read p U sp rb m' = (Ok None, m') \<and> no_free_slot rb m' \<and>
    (\<forall>k < pending m. entry (ring_slot rb m k) m' = ring_queue rb m ! k)"
proof -
  obtain m' where "ring_write p U E u now rb kind data m = (Ok (producer_idx m), m')"
    "indices_in_range m'" "pending m' = 0" "no_free_slot rb m'"
    "\<And>k. k < pending m \<Longrightarrow> slot_ready (ring_slot rb m k) m' \<and>
       entry (ring_slot rb m k) m' = entry (ring_slot rb m k) m"
    by (rule ring_write_last [OF assms]) (rule that)
  then show ?thesis
    using ring_read_empty [of m' rb p U sp] by (auto simp: ring_queue_def)
qed

theorem last_write_hides_the_entries_demo:
  "\<exists>m'. ring_write Debug demo_uuid demo_env (1, 2) None demo_ring Custom [] demo_three =
      (Ok (producer_idx demo_three), m') \<and>
    ring_read Debug demo_uuid 0 demo_ring m' = (Ok None, m') \<and>
    map (\<lambda>k. entry (ring_slot demo_ring demo_three k) m') [0, 1, 2] = replicate 3 demo_entry"
  using last_write_hides_the_entries [OF demo_three(1), of "[]" Debug demo_uuid demo_env "(1, 2)" None Custom 0]
  by (auto simp: demo_three numeral_eq_Suc)

text \<open>
  C33: A write to a ring all of whose slots are occupied fails after eleven attempts and
  427 milliseconds. It stores nothing, but it has advanced the producer index by eleven
  slots, so the ring then shows entries that no write of this call stored.
\<close>

theorem failed_write_moves_the_producer:
  assumes "ring_geometry rb m" "indices_in_range m" "no_free_slot rb m" "quiet E"
    and "length data \<le> max_payload rb"
  shows "\<exists>m'. ring_write p U E u now rb kind data m = (Err (RingBufferFull 10), m') \<and>
    unat (producer_idx m') = (unat (producer_idx m) + 11) mod slots m \<and>
    consumer_idx m' = consumer_idx m \<and>
    pending m' = (pending m + 11) mod slots m \<and>
    sum_list (snd (snd (wait_for_slot p U E rb m))) = 427 \<and>
    (\<forall>j. slot_ready (slot_at rb j) m \<longrightarrow>
      slot_ready (slot_at rb j) m' \<and> entry (slot_at rb j) m' = entry (slot_at rb j) m)"
proof -
  let ?m' = "(bump_producer ^^ 11) m"
  note w = ring_write_full(2) [OF assms, of p U]
  have "ring_write p U E u now rb kind data m = (Err (RingBufferFull 10), ?m')"
    by (rule ring_write_full(1) [OF assms])
  moreover have "sum_list (backoffs 10 1) = 427" unfolding backoffs_10 by simp
  moreover note b = bump_producers [OF assms(1,2), where k = 11]
  moreover have "pending ?m' = (pending m + 11) mod slots m"
  proof (rule pendingI)
    show "unat (consumer_idx ?m') < unat (slot_count ?m')"
      using b(5) by (simp add: indices_in_range_def word_less_nat_alt)
    show "(pending m + 11) mod slots m < unat (slot_count ?m')"
      using ring_geometryD(4) [OF assms(1)] by (simp add: b(1))
    show "unat (producer_idx ?m') =
        (unat (consumer_idx ?m') + (pending m + 11) mod slots m) mod unat (slot_count ?m')"
      by (simp add: b(1,2,3) producer_at_pending [OF assms(2)] mod_simps add.assoc)
  qed
  ultimately show ?thesis using w by (auto simp: same_slot_def)
qed

theorem failed_write_moves_the_producer_demo:
  "\<exists>m m'. ring_write Debug demo_uuid demo_env (1, 2) None demo_ring Custom [] m =
      (Err (RingBufferFull 10), m') \<and> pending m = 0 \<and> pending m' = 3"
proof -
  have last: "pending demo_three + 1 = unat (slot_count demo_three)" by (simp add: demo_three)
  obtain m' where "ring_geometry demo_ring m'" "indices_in_range m'"
    "slot_count m' = slot_count demo_three" "pending m' = 0" "no_free_slot demo_ring m'"
    by (rule ring_write_last [OF demo_three(1) last, of "[]"]) (simp, rule that)
  then show ?thesis
    using failed_write_moves_the_producer [of demo_ring m' demo_env "[]" Debug demo_uuid "(1, 2)" None Custom]
    by (auto simp: demo_valid demo_three)
qed

text \<open>
  A write of more bytes than a slot holds is rejected before the ring is touched.
\<close>

theorem oversized_write_is_rejected:
  assumes "ring_geometry rb m" "max_payload rb < length data"
  shows "ring_write p U E u now rb kind data m = (Err DataTooLarge, m)"
proof -
  obtain mx where "max_payload_size p rb = Ok mx" "unat mx = max_payload rb"
    by (rule max_payload_size_eq [OF assms(1), of p]) blast
  then show ?thesis using assms(2) by (simp add: ring_write_def)
qed

theorem oversized_write_is_rejected_demo:
  "ring_write Debug demo_uuid demo_env (1, 2) None demo_ring DiskWrite (replicate 65 0) demo_mem =
     (Err DataTooLarge, demo_mem)"
  by (rule oversized_write_is_rejected [OF ring_wfD(1) [OF demo_created(2)]]) (simp add: demo_valid)

text \<open>
  A read that meets a slot whose writer is not done consumes the slot's index and
  resets the slot to empty, which discards the write in progress.
\<close>

theorem read_discards_unfinished_write:
  assumes "ring_safe rb m" "producer_idx m \<noteq> consumer_idx m"
    and "status (slot_at rb (unat (consumer_idx m))) m = Writing"
  shows "\<exists>m'. ring_read p U sp rb m = (Ok None, m') \<and>
    consumer_idx m' = (consumer_idx m + 1) mod slot_count m \<and>
    status (slot_at rb (unat (consumer_idx m))) m' = Empty \<and>
    payload_size (slot_at rb (unat (consumer_idx m))) m' = 0 \<and>
    operations_completed m' = operations_completed m"
proof -
  note s = ring_safeD [OF assms(1)]
  let ?s = "slot_at rb (unat (consumer_idx m))" and ?m = "bump_consumer m"
  have r: "ring_read p U sp rb m = (Ok None, reset U ?s ?m)"
    using ring_read_unready [OF assms(1,2)] assms(3) by simp
  have "slot_in ?s ?m"
    using get_slot_safe [OF ring_safe_bump(2) [OF assms(1)], of "unat (consumer_idx m)"] s(5)
    by (simp add: header_simps word_less_nat_alt)
  note e = reset_effect(1,3) [OF slot_in_metadata [OF this], of U]
  have "consumer_idx (reset U ?s ?m) = consumer_idx ?m"
    "operations_completed (reset U ?s ?m) = operations_completed ?m"
    by (rule in_slot_header(3) [OF reset_changes s(3)] in_slot_header(4) [OF reset_changes s(3)])+
  then show ?thesis using r e by (simp add: header_simps ring_geometryD(6) [OF s(1)])
qed

theorem read_discards_unfinished_write_demo:
  "\<exists>m m'. status (slot_at demo_ring (unat (consumer_idx m))) m = Writing \<and>
     ring_read Debug demo_uuid 0 demo_ring m = (Ok None, m') \<and>
     status (slot_at demo_ring (unat (consumer_idx m))) m' = Empty"
proof -
  let ?i = "unat (consumer_idx demo_three)"
  let ?m = "set_status (slot_at demo_ring ?i) Writing demo_three"
  have safe: "ring_safe demo_ring demo_three"
    using ring_wfD(1,4) [OF demo_three(1)] by (simp add: ring_safe_def)
  note s = ring_safeD [OF safe]
  have c: "in_slot demo_ring ?i demo_three ?m" by (intro puts_in_slot) simp
  note h = in_slot_header [OF c s(3)]
  have "slot_data (slot_at demo_ring ?i) \<le> length demo_three"
    using get_slot_safe [OF safe, of ?i] s(5) slot_in_metadata by (simp add: word_less_nat_alt)
  then have st: "status (slot_at demo_ring (unat (consumer_idx ?m))) ?m = Writing"
    by (simp add: h slot_simps)
  have "producer_idx ?m \<noteq> consumer_idx ?m"
    using pending_eq_0_iff [OF s(2)] demo_three(3) by (simp add: h)
  from read_discards_unfinished_write [OF ring_safe_in_slot [OF c safe] this st, of Debug demo_uuid 0] st
  show ?thesis by blast
qed

subsection \<open>Slots\<close>

text \<open>
  On a ring with its geometry, \<open>get_slot\<close> returns for each index below the number
  of slots a handle whose metadata and payload lie in the mapping, are aligned, and
  overlap neither the header nor the slot of another index; for any other index it panics.
\<close>

theorem get_slot_is_safe:
  assumes "ring_geometry rb m" "i \<noteq> j"
  shows "(i < slot_count m \<and> j < slot_count m \<longrightarrow> (\<exists>s t.
      get_slot p m i (rb_slot_size rb) = Ok s \<and> get_slot p m j (rb_slot_size rb) = Ok t \<and>
      slot_in s m \<and> 64 dvd slot_base s \<and> sizeof_RingHeader \<le> slot_base s \<and>
      (slot_end s \<le> slot_base t \<or> slot_end t \<le> slot_base s))) \<and>
    (\<not> i < slot_count m \<longrightarrow> get_slot p m i (rb_slot_size rb) = Panic AssertionFailed)"
proof -
  note geo = ring_geometryD [OF assms(1)]
  have ne: "unat i \<noteq> unat j" using assms(2) unsigned_word_eqI by blast
  have "slot_in (slot_at rb (unat i)) m" if "i < slot_count m"
    using slot_at_in [OF assms(1)] that by (simp add: word_less_nat_alt)
  moreover have "64 dvd slot_base (slot_at rb (unat i))"
    using geo(2,3) by (simp add: layout_simps)
  ultimately show ?thesis
    using get_slot_in_range [OF assms(1)] slots_behind_header [OF geo(2)]
      slots_disjoint [OF geo(2) ne]
    by (auto simp: get_slot_def)
qed

theorem get_slot_is_safe_demo:
  "(\<exists>s t. get_slot Release demo_mem 0 128 = Ok s \<and> get_slot Release demo_mem 3 128 = Ok t \<and>
     (slot_end s \<le> slot_base t \<or> slot_end t \<le> slot_base s)) \<and>
   get_slot Release demo_mem 4 128 = Panic AssertionFailed"
proof -
  have n: "slot_count demo_mem = 4"
    using demo_created(4) unsigned_word_eqI [of "slot_count demo_mem" 4] by simp
  have s: "rb_slot_size demo_ring = 128" by (simp add: demo_ring_def created_def demo_options_def)
  note geo = ring_wfD(1) [OF demo_created(2)]
  have "(0 :: u64) \<noteq> 3" "(4 :: u64) \<noteq> 0" by simp_all
  from get_slot_is_safe [OF geo this(1), of Release] get_slot_is_safe [OF geo this(2), of Release]
  show ?thesis by (auto simp: n s)
qed

text \<open>
  A payload written to a slot is read back unchanged, once: the first read returns
  it and completes the slot, the second returns none.
\<close>

theorem slot_round_trip:
  assumes "slot_in s m" "length m < 2 ^ 63" "length data \<le> unat (data_size s)"
  shows "\<exists>m1 m2. write_data s now data m = (Ok (), m1) \<and>
    read_data s m1 = (Ok (Some data), m2) \<and> status s m2 = Complete \<and>
    timestamp s m2 = as_secs now \<and> read_data s m2 = (Ok None, m2)"
proof -
  let ?m1 = "snd (write_data s now data m)"
  note w = write_data_effect [OF assms(1,3), of now]
  have in1: "slot_in s ?m1" using assms(1) by (simp add: slot_in_def)
  have "length data < 2 ^ 64" using assms(3) unat_u64_less [of "data_size s"] by linarith
  then have sz: "unat (payload_size s ?m1) \<le> unat (data_size s)" using assms(3) by (simp add: w)
  let ?m2 = "snd (read_data s ?m1)"
  have len: "length ?m1 < 2 ^ 63" using assms(2) by simp
  note r = read_data_effect [OF in1 len w(2) sz]
  have "read_data s ?m2 = (Ok None, ?m2)" using r(2) by (simp add: read_data_def)
  moreover have "write_data s now data m = (Ok (), ?m1)" using w(1) by (metis prod.collapse)
  moreover have "read_data s ?m1 = (Ok (Some data), ?m2)" using r(1) w(7) by (metis prod.collapse)
  ultimately show ?thesis using r(2,5) w(5) by auto
qed

theorem slot_round_trip_demo:
  "\<exists>m1 m2. write_data \<lparr>slot_base = 0, data_size = 8\<rparr> (Some 5) [1, 2, 3] (replicate 72 0) = (Ok (), m1) \<and>
    read_data \<lparr>slot_base = 0, data_size = 8\<rparr> m1 = (Ok (Some [1, 2, 3]), m2) \<and>
    timestamp \<lparr>slot_base = 0, data_size = 8\<rparr> m2 = 5"
  using slot_round_trip [of "\<lparr>slot_base = 0, data_size = 8\<rparr>" "replicate 72 0" "[1, 2, 3]" "Some 5"]
  by (auto simp: slot_in_def slot_data_def layout_simps as_secs_def)

text \<open>
  A ready slot whose size field exceeds its payload area, as another process may
  leave it, is completed without a byte being read.
\<close>

theorem corrupted_size_is_not_read:
  assumes "slot_in s m" "status s m = Ready" "data_size s < payload_size s m"
  shows "\<exists>m'. read_data s m = (Ok None, m') \<and> status s m' = Complete \<and>
    changes_only (slot_base s) (slot_base s + 4) m m'"
proof -
  have "changes_only (slot_base s) (slot_base s + 4) m
      (set_status s Complete (set_status s Reading m))"
    using status_field.put_local changes_only_trans by (metis add.right_neutral)
  then show ?thesis
    using assms slot_in_metadata [OF assms(1)]
    by (simp add: read_data_def Let_def slot_simps)
qed

theorem corrupted_size_is_not_read_demo:
  "\<exists>m m'. payload_size \<lparr>slot_base = 0, data_size = 8\<rparr> m = 9 \<and>
     read_data \<lparr>slot_base = 0, data_size = 8\<rparr> m = (Ok None, m')"
proof -
  let ?s = "\<lparr>slot_base = 0, data_size = 8\<rparr>"
  let ?m = "set_size ?s 9 (set_status ?s Ready (replicate 72 0))"
  have d: "slot_data ?s \<le> length (replicate 72 (0 :: u8))"
    by (simp add: slot_data_def layout_simps)
  have "slot_in ?s ?m" by (simp add: slot_in_def slot_data_def layout_simps)
  moreover have "status ?s ?m = Ready" "payload_size ?s ?m = 9"
    using d by (simp_all add: slot_simps)
  moreover have "data_size ?s < payload_size ?s ?m"
    using d by (simp add: slot_simps)
  ultimately show ?thesis
    using corrupted_size_is_not_read [of ?s ?m] by blast
qed

text \<open>
  With a UUID crate that keeps its documented laws, the id stored in a slot is the
  id read from it, whatever else is written to the slot afterwards.
\<close>

theorem slot_id_round_trip:
  assumes "uuid_laws U" "slot_in s m" "length data \<le> unat (data_size s)"
  shows "slot_id U s (snd (write_data s now data (set_operation s k (set_id U s u m)))) = u"
proof -
  have d: "slot_data s \<le> length m" by (rule slot_in_metadata [OF assms(2)])
  have i: "slot_in s (set_operation s k (set_id U s u m))" using assms(2) by (simp add: slot_in_def)
  have "id_bytes s (snd (write_data s now data (set_operation s k (set_id U s u m)))) = as_bytes U u"
    using write_data_effect(6) [OF i assms(3)] assms(1) d
    by (simp add: set_id_def slot_simps uuid_laws_def)
  then show ?thesis using assms(1) by (simp add: slot_id_def uuid_laws_def)
qed

theorem slot_id_round_trip_demo:
  "slot_id demo_uuid \<lparr>slot_base = 0, data_size = 8\<rparr>
     (snd (write_data \<lparr>slot_base = 0, data_size = 8\<rparr> None [1]
       (set_operation \<lparr>slot_base = 0, data_size = 8\<rparr> DiskRead
         (set_id demo_uuid \<lparr>slot_base = 0, data_size = 8\<rparr> (77, 99) (replicate 72 0))))) = (77, 99)"
  by (rule slot_id_round_trip [OF demo_uuid_laws])
    (simp_all add: slot_in_def slot_data_def layout_simps)

subsection \<open>Indices\<close>

text \<open>
  However often the compare-and-swap of the producer index fails spuriously, the
  callers get consecutive indices modulo the number of slots; as many callers as there
  are slots get different ones.
\<close>

theorem producer_indices_are_tickets:
  assumes "producer_idx m < slot_count m" "sizeof_RingHeader \<le> length m" "k \<le> slots m"
  shows "\<exists>is. fst (take_indices (next_producer_idx p sp) k m) = map Ok is \<and> distinct is \<and>
    map unat is = map (\<lambda>j. (unat (producer_idx m) + j) mod slots m) [0..<k]"
proof -
  let ?rs = "fst (take_indices (next_producer_idx p sp) k m)"
  note t = producer.take_indices_advance [OF assms(1,2), of p sp k]
  have "\<exists>i. r = Ok i" if "r \<in> set ?rs" for r
  proof -
    have "(case r of Ok i \<Rightarrow> Some (unat i) | _ \<Rightarrow> None) \<noteq> None"
      using that arg_cong [OF t, of set] by auto
    then show ?thesis by (cases r) auto
  qed
  then obtain "is" where i: "?rs = map Ok is" by (metis ex_map_conv)
  have u: "map unat is = map (\<lambda>j. (unat (producer_idx m) + j) mod slots m) [0..<k]"
    using arg_cong [OF t, of "map the"] by (simp add: i o_def)
  have "inj_on (\<lambda>j. (unat (producer_idx m) + j) mod slots m) (set [0..<k])"
    using assms(3) by (auto intro!: inj_onI dest: mod_add_cancel_left)
  then have "distinct (map (\<lambda>j. (unat (producer_idx m) + j) mod slots m) [0..<k])"
    by (simp add: distinct_map)
  then have "distinct is" by (simp add: u [symmetric] distinct_map)
  then show ?thesis using i u by blast
qed

theorem producer_indices_are_tickets_demo:
  "\<exists>is. fst (take_indices (next_producer_idx Debug 2) 4 demo_three) = map Ok is \<and> distinct is \<and>
    length is = 4"
proof -
  note s = ring_wfD [OF demo_three(1)]
  from producer_indices_are_tickets [OF s(2) ring_geometryD(6) [OF s(1)], of 4 Debug 2]
  obtain "is" where "fst (take_indices (next_producer_idx Debug 2) 4 demo_three) = map Ok is" "distinct is"
    "map unat is = map (\<lambda>j. (unat (producer_idx demo_three) + j) mod slots demo_three) [0..<4]"
    by (auto simp: demo_three)
  moreover from calculation(3) have "length is = 4" by (metis length_map length_upt diff_zero)
  ultimately show ?thesis by blast
qed

end
