(* ===== verification/Interleaving.thy ===== *)
theory Interleaving
  imports Main
begin

text \<open>
  Threads that share a memory and are interleaved at the level of single memory accesses.
  A thread has a request and a point of its code; one step of it makes one access. A
  schedule says which thread moves next, and whether its compare-and-swap fails although
  the values agree. The interface \<open>rely_guarantee\<close> states what has to be shown of one
  step, alone and beside the steps of the others, for an invariant of every schedule.
\<close>

datatype 'r action = Run nat bool | Call nat 'r

type_synonym ('r, 'p, 'm) system = "(nat \<Rightarrow> 'r \<times> 'p) \<times> 'm"

text \<open>A thread starts its next request when the last one is finished.\<close>

definition act ::
  "('r \<Rightarrow> bool \<Rightarrow> 'p \<Rightarrow> 'm \<Rightarrow> 'p \<times> 'm) \<Rightarrow> ('r \<Rightarrow> 'p) \<Rightarrow> ('p \<Rightarrow> bool) \<Rightarrow> 'r action
    \<Rightarrow> ('r, 'p, 'm) system \<Rightarrow> ('r, 'p, 'm) system" where
  "act step start fin a = (\<lambda>(T, m).
     (case a of
        Run i sp \<Rightarrow>
          (case T i of (r, pt) \<Rightarrow>
             (case step r sp pt m of (pt', m') \<Rightarrow> (T(i := (r, pt')), m')))
      | Call i r \<Rightarrow> if fin (snd (T i)) then (T(i := (r, start r)), m) else (T, m)))"

definition run ::
  "('r \<Rightarrow> bool \<Rightarrow> 'p \<Rightarrow> 'm \<Rightarrow> 'p \<times> 'm) \<Rightarrow> ('r \<Rightarrow> 'p) \<Rightarrow> ('p \<Rightarrow> bool) \<Rightarrow> 'r action list
    \<Rightarrow> ('r, 'p, 'm) system \<Rightarrow> ('r, 'p, 'm) system" where
  "run step start fin = fold (act step start fin)"

lemma run_simps [simp]:
  "run step start fin [] s = s"
  "run step start fin (a # as) s = run step start fin as (act step start fin a s)"
  "run step start fin (as @ bs) s = run step start fin bs (run step start fin as s)"
  by (simp_all add: run_def)

lemma act_Run:
  "act step start fin (Run i sp) (T, m) =
     (T(i := (fst (T i), fst (step (fst (T i)) sp (snd (T i)) m))),
      snd (step (fst (T i)) sp (snd (T i)) m))"
  by (simp add: act_def split_beta)

lemma act_Call:
  "act step start fin (Call i r) (T, m) =
     (if fin (snd (T i)) then (T(i := (r, start r)), m) else (T, m))"
  by (simp add: act_def)

text \<open>Steps of one thread alone.\<close>

primrec alone :: "('r \<Rightarrow> bool \<Rightarrow> 'p \<Rightarrow> 'm \<Rightarrow> 'p \<times> 'm) \<Rightarrow> 'r \<Rightarrow> nat \<Rightarrow> 'p \<times> 'm \<Rightarrow> 'p \<times> 'm" where
  "alone step r 0 x = x"
| "alone step r (Suc k) x = alone step r k (step r False (fst x) (snd x))"

lemma run_alone:
  "run step start fin (replicate k (Run i False)) (T, m) =
    (T(i := (fst (T i), fst (alone step (fst (T i)) k (snd (T i), m)))),
     snd (alone step (fst (T i)) k (snd (T i), m)))"
  by (induction k arbitrary: T m) (simp_all add: act_Run)

subsection \<open>Reasoning with rely and guarantee\<close>

locale rely_guarantee =
  fixes step :: "'r \<Rightarrow> bool \<Rightarrow> 'p \<Rightarrow> 'm \<Rightarrow> 'p \<times> 'm"
    and start :: "'r \<Rightarrow> 'p"
    and fin :: "'p \<Rightarrow> bool"
    and shared :: "'m \<Rightarrow> bool"
    and guar :: "'m \<Rightarrow> 'm \<Rightarrow> bool"
    and ok :: "'r \<Rightarrow> 'p \<Rightarrow> 'm \<Rightarrow> bool"
  assumes guar_refl: "guar m m"
    and guar_trans: "guar m m' \<Longrightarrow> guar m' m'' \<Longrightarrow> guar m m''"
    and start_ok: "shared m \<Longrightarrow> ok r (start r) m"
    and step_shared: "shared m \<Longrightarrow> ok r pt m \<Longrightarrow> shared (snd (step r sp pt m))"
    and step_guar: "shared m \<Longrightarrow> ok r pt m \<Longrightarrow> guar m (snd (step r sp pt m))"
    and step_ok: "shared m \<Longrightarrow> ok r pt m \<Longrightarrow> ok r (fst (step r sp pt m)) (snd (step r sp pt m))"
    and stable: "ok r pt m \<Longrightarrow> guar m m' \<Longrightarrow> ok r pt m'"
begin

definition system_ok :: "('r, 'p, 'm) system \<Rightarrow> bool" where
  "system_ok s \<longleftrightarrow> shared (snd s) \<and> (\<forall>i. ok (fst (fst s i)) (snd (fst s i)) (snd s))"

lemma act_ok:
  assumes "system_ok s"
  shows "system_ok (act step start fin a s)" "guar (snd s) (snd (act step start fin a s))"
proof -
  obtain T m where s: "s = (T, m)" by (cases s)
  have m: "shared m" and ok: "ok (fst (T i)) (snd (T i)) m" for i
    using assms by (simp_all add: system_ok_def s)
  show "system_ok (act step start fin a s)" "guar (snd s) (snd (act step start fin a s))"
    using m ok start_ok [OF m] guar_refl step_shared [OF m ok] step_guar [OF m ok] step_ok [OF m ok]
      stable [OF ok step_guar [OF m ok]]
    by (cases a; simp add: system_ok_def s act_Run act_Call)+
qed

lemma run_ok:
  assumes "system_ok s"
  shows "system_ok (run step start fin as s)" "guar (snd s) (snd (run step start fin as s))"
  using assms
proof (induction as arbitrary: s)
  case (Cons a as)
  case 1
  then show ?case using Cons.IH(1) act_ok(1) by simp
  case 2
  show ?case
    using guar_trans [OF act_ok(2) [OF 2] Cons.IH(2) [OF act_ok(1) [OF 2]]] by simp
qed (simp_all add: guar_refl)

end

end
