(* ===== verification/Ring_Steps.thy ===== *)
theory Ring_Steps
  imports Ring_Safety Interleaving
begin

text \<open>
  The calls \<open>write\<close> and \<open>read\<close> of a ring (\<open>ring/buffer.rs\<close>, with \<open>ring/header.rs\<close> and
  \<open>ring/slot.rs\<close>) as sequences of single accesses to the mapping, so that the calls of
  any number of threads and processes can be interleaved between any two of them. The
  copy of a payload is one access. A point of a call says which access comes next and
  holds the local variables. \<open>Ring_Steps_Alone\<close> shows that a call that is not interrupted
  is the operation of \<open>Ring_Buffer\<close>.
\<close>

subsection \<open>Stores\<close>

datatype slot_store =
    SetStatus slot slot_status
  | SetOperation slot operation_kind
  | SetSize slot u64
  | SetIdWord slot nat u32
  | SetTimestamp slot u64
  | CopyIn slot "u8 list"

primrec perform :: "slot_store \<Rightarrow> mem \<Rightarrow> mem" where
  "perform (SetStatus s st) = set_status s st"
| "perform (SetOperation s k) = set_operation s k"
| "perform (SetSize s n) = set_size s n"
| "perform (SetIdWord s k w) = store32 (id_word s k) w"
| "perform (SetTimestamp s t) = set_timestamp s t"
| "perform (CopyIn s bs) = store (slot_data s) bs"

text \<open>A raw copy that leaves the mapping is undefined behaviour.\<close>

fun in_mapping :: "slot_store \<Rightarrow> mem \<Rightarrow> bool" where
  "in_mapping (CopyIn s bs) m \<longleftrightarrow> slot_data s + length bs \<le> length m"
| "in_mapping _ m \<longleftrightarrow> True"

definition set_id_stores :: "'u uuid_crate \<Rightarrow> slot \<Rightarrow> 'u \<Rightarrow> slot_store list" where
  "set_id_stores U s u =
     (let bs = as_bytes U u in
      [SetIdWord s 0 (from_be_bytes [bs ! 0, bs ! 1, bs ! 2, bs ! 3]),
       SetIdWord s 1 (from_be_bytes [bs ! 4, bs ! 5, bs ! 6, bs ! 7]),
       SetIdWord s 2 (from_be_bytes [bs ! 8, bs ! 9, bs ! 10, bs ! 11]),
       SetIdWord s 3 (from_be_bytes [bs ! 12, bs ! 13, bs ! 14, bs ! 15])])"

definition reset_stores :: "'u uuid_crate \<Rightarrow> slot \<Rightarrow> slot_store list" where
  "reset_stores U s =
     [SetStatus s Empty, SetOperation s OpNone, SetSize s 0] @
     set_id_stores U s (uuid_nil U) @ [SetTimestamp s 0]"

definition write_data_stores :: "slot \<Rightarrow> clock \<Rightarrow> u8 list \<Rightarrow> slot_store list" where
  "write_data_stores s now data =
     [SetStatus s Writing, SetSize s (of_nat (length data)), SetTimestamp s (as_secs now),
      CopyIn s data, SetStatus s Ready]"

subsection \<open>Requests and points\<close>

datatype 'u request =
    WriteReq operation_kind "u8 list" 'u clock
  | ReadReq

datatype reply = Wrote u64 | Got "(operation_kind \<times> u8 list) option"

text \<open>
  The points of \<open>write\<close> carry the number of slots that \<open>wait_for_slot\<close> has loaded, its
  attempt and its backoff; a sleeping thread is one that the schedule does not pick.
\<close>

datatype point =
    WriteBegin
  | LoadProducer u64 nat nat
  | LoadConsumer u64 u64 nat nat
  | NextLoad u64 nat nat
  | NextCount u64 u64 nat nat
  | NextCas u64 u64 u64 nat nat
  | ClaimedSlot u64 u64 nat nat
  | CheckEmpty u64 u64 slot nat nat
  | CheckComplete u64 u64 slot nat nat
  | FillSlot u64
  | ReadBegin
  | ReadConsumer u64
  | TakeLoad
  | TakeCount u64
  | TakeCas u64 u64
  | TakenSlot u64
  | CheckReady slot
  | LoadOperation slot
  | RecheckReady slot operation_kind
  | LoadSize slot operation_kind
  | CopyOut slot operation_kind u64
  | CountRead operation_kind "u8 list"
  | Stores "slot_store list" point
  | Finished "(ring_error, reply) outcome"

fun start_call :: "'u request \<Rightarrow> point" where
  "start_call (WriteReq kind data u now) = WriteBegin"
| "start_call ReadReq = ReadBegin"

definition is_finished :: "point \<Rightarrow> bool" where
  "is_finished pt \<longleftrightarrow> (case pt of Finished r \<Rightarrow> True | _ \<Rightarrow> False)"

definition proceed :: "(ring_error, 'a) outcome \<Rightarrow> ('a \<Rightarrow> point) \<Rightarrow> point" where
  "proceed r f = (case r of Ok x \<Rightarrow> f x | Err e \<Rightarrow> Finished (Err e) | Panic e \<Rightarrow> Finished (Panic e)
     | UB \<Rightarrow> Finished UB)"

lemma proceed_simps [simp]:
  "proceed (Ok x) f = f x" "proceed (Err e) f = Finished (Err e)"
  "proceed (Panic z) f = Finished (Panic z)" "proceed UB f = Finished UB"
  by (simp_all add: proceed_def)

text \<open>The test for a full ring, on the two indices as they were loaded.\<close>

definition available_from :: "profile \<Rightarrow> u64 \<Rightarrow> u64 \<Rightarrow> u64 \<Rightarrow> (ring_error, u64) outcome" where
  "available_from p n P C =
     (if C \<le> P then bind_outcome (usize_sub p P C) (\<lambda>d. usize_sub p n d) else usize_sub p C P)"

text \<open>The next attempt after a sleep, or the error.\<close>

definition retry :: "u64 \<Rightarrow> nat \<Rightarrow> nat \<Rightarrow> point" where
  "retry n attempt backoff =
     (if max_attempts < attempt + 1 then Finished (Err (RingBufferFull max_attempts))
      else LoadProducer n (attempt + 1) (min (backoff * 2) 100))"

text \<open>
  One round of a compare-and-swap loop on the index at \<open>off\<close>: \<open>Inr\<close> the index taken, or
  \<open>Inl\<close> the value found instead of the expected one.
\<close>

definition cas_round ::
  "profile \<Rightarrow> nat \<Rightarrow> u64 \<Rightarrow> u64 \<Rightarrow> bool \<Rightarrow> mem \<Rightarrow> (ring_error, u64 + u64) outcome \<times> mem" where
  "cas_round p off n current spurious m =
     (case bind_outcome (usize_add p current 1) (\<lambda>c. usize_rem c n) of
        Ok nxt \<Rightarrow>
          (if \<not> spurious \<and> load64 off m = current then (Ok (Inr current), store64 off nxt m)
           else (Ok (Inl (load64 off m)), m))
      | Err e \<Rightarrow> (Err e, m) | Panic e \<Rightarrow> (Panic e, m) | UB \<Rightarrow> (UB, m))"

subsection \<open>One access\<close>

text \<open>The last access of a call may be followed by what it computes of local values only.\<close>

fun call_step ::
  "profile \<Rightarrow> 'u uuid_crate \<Rightarrow> ring_buffer \<Rightarrow> 'u request \<Rightarrow> bool \<Rightarrow> point \<Rightarrow> mem \<Rightarrow> point \<times> mem" where
  "call_step p U rb (WriteReq kind data u now) sp WriteBegin m =
     (proceed (max_payload_size p rb) (\<lambda>mx.
        if unat mx < length data then Finished (Err DataTooLarge)
        else LoadProducer (slot_count m) 0 1), m)"
| "call_step p U rb rq sp (LoadProducer n a b) m = (LoadConsumer n (producer_idx m) a b, m)"
| "call_step p U rb rq sp (LoadConsumer n P a b) m =
     (proceed (available_from p n P (consumer_idx m)) (\<lambda>available.
        if 0 < available then NextLoad n a b else retry n a b), m)"
| "call_step p U rb rq sp (NextLoad n a b) m = (NextCount n (producer_idx m) a b, m)"
| "call_step p U rb rq sp (NextCount n current a b) m = (NextCas n (slot_count m) current a b, m)"
| "call_step p U rb rq sp (NextCas n k current a b) m =
     (case cas_round p (header_offset 5) k current sp m of (r, m1) \<Rightarrow>
        (proceed r (\<lambda>x. case x of Inl actual \<Rightarrow> NextCas n k actual a b
           | Inr idx \<Rightarrow> ClaimedSlot n idx a b), m1))"
| "call_step p U rb rq sp (ClaimedSlot n idx a b) m =
     (proceed (get_slot p m idx (rb_slot_size rb)) (\<lambda>s. CheckEmpty n idx s a b), m)"
| "call_step p U rb rq sp (CheckEmpty n idx s a b) m =
     (if status s m = Empty then Stores (reset_stores U s) (FillSlot idx)
      else CheckComplete n idx s a b, m)"
| "call_step p U rb rq sp (CheckComplete n idx s a b) m =
     (if status s m = Complete then Stores (reset_stores U s) (FillSlot idx) else retry n a b, m)"
| "call_step p U rb (WriteReq kind data u now) sp (FillSlot idx) m =
     (proceed (get_slot p m idx (rb_slot_size rb)) (\<lambda>s.
        Stores (SetOperation s kind # set_id_stores U s u)
          (if unat (data_size s) < length data then Finished (Err DataTooLarge)
           else Stores (write_data_stores s now data) (Finished (Ok (Wrote idx))))), m)"
| "call_step p U rb ReadReq sp ReadBegin m = (ReadConsumer (producer_idx m), m)"
| "call_step p U rb rq sp (ReadConsumer P) m =
     (if P = consumer_idx m then Finished (Ok (Got None)) else TakeLoad, m)"
| "call_step p U rb rq sp TakeLoad m = (TakeCount (consumer_idx m), m)"
| "call_step p U rb rq sp (TakeCount current) m = (TakeCas (slot_count m) current, m)"
| "call_step p U rb rq sp (TakeCas k current) m =
     (case cas_round p (header_offset 6) k current sp m of (r, m1) \<Rightarrow>
        (proceed r (\<lambda>x. case x of Inl actual \<Rightarrow> TakeCas k actual | Inr idx \<Rightarrow> TakenSlot idx), m1))"
| "call_step p U rb rq sp (TakenSlot idx) m =
     (proceed (get_slot p m idx (rb_slot_size rb)) CheckReady, m)"
| "call_step p U rb rq sp (CheckReady s) m =
     (if status s m = Ready then LoadOperation s
      else Stores (reset_stores U s) (Finished (Ok (Got None))), m)"
| "call_step p U rb rq sp (LoadOperation s) m = (RecheckReady s (operation s m), m)"
| "call_step p U rb rq sp (RecheckReady s kind) m =
     (if status s m \<noteq> Ready then Stores (reset_stores U s) (Finished (Ok (Got None)))
      else Stores [SetStatus s Reading] (LoadSize s kind), m)"
| "call_step p U rb rq sp (LoadSize s kind) m =
     (let sz = payload_size s m in
      if data_size s < sz
      then Stores (SetStatus s Complete # reset_stores U s) (Finished (Ok (Got None)))
      else if 2 ^ 63 \<le> unat sz then Finished (Panic CapacityOverflow)
      else CopyOut s kind sz, m)"
| "call_step p U rb rq sp (CopyOut s kind sz) m =
     (if length m < slot_data s + unat sz then Finished UB
      else Stores [SetStatus s Complete] (CountRead kind (load (slot_data s) (unat sz) m)), m)"
| "call_step p U rb rq sp (CountRead kind data) m =
     (Finished (Ok (Got (Some (kind, data)))), increment_completed m)"
| "call_step p U rb rq sp (Stores [] nxt) m = (nxt, m)"
| "call_step p U rb rq sp (Stores (st # sts) nxt) m =
     (if in_mapping st m then (if sts = [] then nxt else Stores sts nxt, perform st m)
      else (Finished UB, m))"
| "call_step p U rb rq sp pt m = (pt, m)"

end
