(* ===== verification/Ring_Steps_Alone.thy ===== *)
theory Ring_Steps_Alone
  imports Ring_Steps
begin

text \<open>
  A call that is not interrupted is the operation of \<open>Ring_Buffer\<close>: \<open>rest\<close> says what the
  remainder of a call from a point does, one access does not change it, and a bound on the
  accesses that are left decreases with each.
\<close>

subsection \<open>Stores in a row\<close>

lemma perform_reset: "fold perform (reset_stores U s) m = reset U s m"
  by (simp add: reset_stores_def reset_def set_id_stores_def set_id_def set_id_bytes_def Let_def)

lemma perform_set_id: "fold perform (set_id_stores U s u) m = set_id U s u m"
  by (simp add: set_id_stores_def set_id_def set_id_bytes_def Let_def)

text \<open>Stores up to the first that leaves the mapping.\<close>

fun perform_all :: "slot_store list \<Rightarrow> mem \<Rightarrow> (ring_error, unit) outcome \<times> mem" where
  "perform_all [] m = (Ok (), m)"
| "perform_all (st # sts) m = (if in_mapping st m then perform_all sts (perform st m) else (UB, m))"

definition plain :: "slot_store list \<Rightarrow> bool" where
  "plain sts \<longleftrightarrow> (\<forall>st\<in>set sts. \<forall>m. in_mapping st m)"

lemma perform_all_plain: "plain sts \<Longrightarrow> perform_all sts m = (Ok (), fold perform sts m)"
  by (induction sts arbitrary: m) (auto simp: plain_def)

lemma plain_stores [simp]: "plain (reset_stores U s)" "plain (set_id_stores U s u)"
  "plain (SetOperation s k # sts) = plain sts" "plain (SetStatus s st # sts) = plain sts" "plain []"
  by (auto simp: plain_def reset_stores_def set_id_stores_def Let_def)

lemma perform_write_data:
  "length data \<le> unat (data_size s) \<Longrightarrow>
   perform_all (write_data_stores s now data) m = write_data s now data m"
  by (simp add: write_data_stores_def write_data_def Let_def not_less)

subsection \<open>The remainder of a call\<close>

definition undisturbed :: ring_env where
  "undisturbed = \<lparr>env_spurious = (\<lambda>_. 0), env_sleep = (\<lambda>_ _ m. m)\<rparr>"

definition fill_slot ::
  "profile \<Rightarrow> ring_buffer \<Rightarrow> 'u uuid_crate \<Rightarrow> operation_kind \<Rightarrow> u8 list \<Rightarrow> 'u \<Rightarrow> clock \<Rightarrow> u64 \<Rightarrow> mem
    \<Rightarrow> (ring_error, reply) outcome \<times> mem" where
  "fill_slot p rb U kind data u now idx m =
     and_then (get_slot p m idx (rb_slot_size rb), m) (\<lambda>s m1.
     and_then (write_data s now data (set_id U s u (set_operation s kind m1))) (\<lambda>_ m4.
     (Ok (Wrote idx), m4)))"

definition wrote :: "(ring_error, u64) outcome \<times> mem \<Rightarrow> (ring_error, reply) outcome \<times> mem" where
  "wrote r = and_then r (\<lambda>idx m. (Ok (Wrote idx), m))"

definition got ::
  "(ring_error, (operation_kind \<times> u8 list) option) outcome \<times> mem \<Rightarrow> (ring_error, reply) outcome \<times> mem" where
  "got r = and_then r (\<lambda>x m. (Ok (Got x), m))"

text \<open>What is left of \<open>write\<close> with a slot in hand, at the start of an attempt, after a slot
  was not free, and with an index in hand.\<close>

definition found_rest ::
  "profile \<Rightarrow> 'u uuid_crate \<Rightarrow> ring_buffer \<Rightarrow> 'u request \<Rightarrow> u64 \<Rightarrow> mem
    \<Rightarrow> (ring_error, reply) outcome \<times> mem" where
  "found_rest p U rb rq idx m =
     (case rq of WriteReq kind data u now \<Rightarrow> fill_slot p rb U kind data u now idx m
      | ReadReq \<Rightarrow> (UB, m))"

definition loop_rest ::
  "profile \<Rightarrow> 'u uuid_crate \<Rightarrow> ring_buffer \<Rightarrow> 'u request \<Rightarrow> u64 \<Rightarrow> nat \<Rightarrow> nat \<Rightarrow> mem
    \<Rightarrow> (ring_error, reply) outcome \<times> mem" where
  "loop_rest p U rb rq n a b m =
     (case wait_loop p U undisturbed rb n a b m of (r, m1, _) \<Rightarrow> and_then (r, m1) (found_rest p U rb rq))"

definition retry_rest ::
  "profile \<Rightarrow> 'u uuid_crate \<Rightarrow> ring_buffer \<Rightarrow> 'u request \<Rightarrow> u64 \<Rightarrow> nat \<Rightarrow> nat \<Rightarrow> mem
    \<Rightarrow> (ring_error, reply) outcome \<times> mem" where
  "retry_rest p U rb rq n a b m =
     (if max_attempts < a + 1 then (Err (RingBufferFull max_attempts), m)
      else loop_rest p U rb rq n (a + 1) (min (b * 2) 100) m)"

definition claimed_rest ::
  "profile \<Rightarrow> 'u uuid_crate \<Rightarrow> ring_buffer \<Rightarrow> 'u request \<Rightarrow> u64 \<Rightarrow> nat \<Rightarrow> nat \<Rightarrow> u64 \<Rightarrow> mem
    \<Rightarrow> (ring_error, reply) outcome \<times> mem" where
  "claimed_rest p U rb rq n a b idx m =
     and_then (get_slot p m idx (rb_slot_size rb), m) (\<lambda>s m.
       if status s m = Empty \<or> status s m = Complete then found_rest p U rb rq idx (reset U s m)
       else retry_rest p U rb rq n a b m)"

definition data_rest ::
  "'u uuid_crate \<Rightarrow> slot \<Rightarrow> operation_kind \<Rightarrow> mem \<Rightarrow> (ring_error, reply) outcome \<times> mem" where
  "data_rest U s kind m =
     and_then (read_data s m) (\<lambda>d m2. case d of
         Some data \<Rightarrow> (Ok (Got (Some (kind, data))), increment_completed m2)
       | None \<Rightarrow> (Ok (Got None), reset U s m2))"

definition taken_rest ::
  "profile \<Rightarrow> 'u uuid_crate \<Rightarrow> ring_buffer \<Rightarrow> u64 \<Rightarrow> mem \<Rightarrow> (ring_error, reply) outcome \<times> mem" where
  "taken_rest p U rb idx m =
     and_then (get_slot p m idx (rb_slot_size rb), m) (\<lambda>s m.
       if status s m = Ready then data_rest U s (operation s m) m
       else (Ok (Got None), reset U s m))"

fun rest ::
  "profile \<Rightarrow> 'u uuid_crate \<Rightarrow> ring_buffer \<Rightarrow> 'u request \<Rightarrow> point \<Rightarrow> mem
    \<Rightarrow> (ring_error, reply) outcome \<times> mem" where
  "rest p U rb rq WriteBegin m =
     (case rq of WriteReq kind data u now \<Rightarrow> wrote (ring_write p U undisturbed u now rb kind data m)
      | ReadReq \<Rightarrow> (UB, m))"
| "rest p U rb rq (LoadProducer n a b) m = loop_rest p U rb rq n a b m"
| "rest p U rb rq (LoadConsumer n P a b) m =
     and_then (available_from p n P (consumer_idx m), m) (\<lambda>available m.
       if 0 < available then and_then (next_producer_idx p 0 m) (claimed_rest p U rb rq n a b)
       else retry_rest p U rb rq n a b m)"
| "rest p U rb rq (NextLoad n a b) m =
     and_then (next_producer_idx p 0 m) (claimed_rest p U rb rq n a b)"
| "rest p U rb rq (NextCount n current a b) m =
     and_then (advance_loop p (header_offset 5) (slot_count m) 0 current m) (claimed_rest p U rb rq n a b)"
| "rest p U rb rq (NextCas n k current a b) m =
     and_then (advance_loop p (header_offset 5) k 0 current m) (claimed_rest p U rb rq n a b)"
| "rest p U rb rq (ClaimedSlot n idx a b) m = claimed_rest p U rb rq n a b idx m"
| "rest p U rb rq (CheckEmpty n idx s a b) m =
     (if status s m = Empty \<or> status s m = Complete then found_rest p U rb rq idx (reset U s m)
      else retry_rest p U rb rq n a b m)"
| "rest p U rb rq (CheckComplete n idx s a b) m =
     (if status s m = Complete then found_rest p U rb rq idx (reset U s m)
      else retry_rest p U rb rq n a b m)"
| "rest p U rb rq (FillSlot idx) m = found_rest p U rb rq idx m"
| "rest p U rb rq ReadBegin m = got (ring_read p U 0 rb m)"
| "rest p U rb rq (ReadConsumer P) m =
     (if P = consumer_idx m then (Ok (Got None), m)
      else and_then (next_consumer_idx p 0 m) (taken_rest p U rb))"
| "rest p U rb rq TakeLoad m = and_then (next_consumer_idx p 0 m) (taken_rest p U rb)"
| "rest p U rb rq (TakeCount current) m =
     and_then (advance_loop p (header_offset 6) (slot_count m) 0 current m) (taken_rest p U rb)"
| "rest p U rb rq (TakeCas k current) m =
     and_then (advance_loop p (header_offset 6) k 0 current m) (taken_rest p U rb)"
| "rest p U rb rq (TakenSlot idx) m = taken_rest p U rb idx m"
| "rest p U rb rq (CheckReady s) m =
     (if status s m = Ready then data_rest U s (operation s m) m else (Ok (Got None), reset U s m))"
| "rest p U rb rq (LoadOperation s) m = data_rest U s (operation s m) m"
| "rest p U rb rq (RecheckReady s kind) m = data_rest U s kind m"
| "rest p U rb rq (LoadSize s kind) m =
     (let sz = payload_size s m in
      if data_size s < sz then (Ok (Got None), reset U s (set_status s Complete m))
      else if 2 ^ 63 \<le> unat sz then (Panic CapacityOverflow, m)
      else if length m < slot_data s + unat sz then (UB, m)
      else (Ok (Got (Some (kind, load (slot_data s) (unat sz) m))),
        increment_completed (set_status s Complete m)))"
| "rest p U rb rq (CopyOut s kind sz) m =
     (if length m < slot_data s + unat sz then (UB, m)
      else (Ok (Got (Some (kind, load (slot_data s) (unat sz) m))),
        increment_completed (set_status s Complete m)))"
| "rest p U rb rq (CountRead kind data) m = (Ok (Got (Some (kind, data))), increment_completed m)"
| "rest p U rb rq (Stores sts nxt) m = and_then (perform_all sts m) (\<lambda>_. rest p U rb rq nxt)"
| "rest p U rb rq (Finished r) m = (r, m)"

text \<open>A point belongs to the request of its thread.\<close>

primrec write_point :: "point \<Rightarrow> bool" where
  "write_point WriteBegin \<longleftrightarrow> True"
| "write_point (LoadProducer n a b) \<longleftrightarrow> True"
| "write_point (LoadConsumer n P a b) \<longleftrightarrow> True"
| "write_point (NextLoad n a b) \<longleftrightarrow> True"
| "write_point (NextCount n c a b) \<longleftrightarrow> True"
| "write_point (NextCas n k c a b) \<longleftrightarrow> True"
| "write_point (ClaimedSlot n idx a b) \<longleftrightarrow> True"
| "write_point (CheckEmpty n idx s a b) \<longleftrightarrow> True"
| "write_point (CheckComplete n idx s a b) \<longleftrightarrow> True"
| "write_point (FillSlot idx) \<longleftrightarrow> True"
| "write_point ReadBegin \<longleftrightarrow> False"
| "write_point (ReadConsumer P) \<longleftrightarrow> False"
| "write_point TakeLoad \<longleftrightarrow> False"
| "write_point (TakeCount c) \<longleftrightarrow> False"
| "write_point (TakeCas k c) \<longleftrightarrow> False"
| "write_point (TakenSlot idx) \<longleftrightarrow> False"
| "write_point (CheckReady s) \<longleftrightarrow> False"
| "write_point (LoadOperation s) \<longleftrightarrow> False"
| "write_point (RecheckReady s kind) \<longleftrightarrow> False"
| "write_point (LoadSize s kind) \<longleftrightarrow> False"
| "write_point (CopyOut s kind sz) \<longleftrightarrow> False"
| "write_point (CountRead kind data) \<longleftrightarrow> False"
| "write_point (Stores sts nxt) \<longleftrightarrow> write_point nxt"
| "write_point (Finished r) \<longleftrightarrow> True"

primrec read_point :: "point \<Rightarrow> bool" where
  "read_point ReadBegin \<longleftrightarrow> True"
| "read_point (ReadConsumer P) \<longleftrightarrow> True"
| "read_point TakeLoad \<longleftrightarrow> True"
| "read_point (TakeCount c) \<longleftrightarrow> True"
| "read_point (TakeCas k c) \<longleftrightarrow> True"
| "read_point (TakenSlot idx) \<longleftrightarrow> True"
| "read_point (CheckReady s) \<longleftrightarrow> True"
| "read_point (LoadOperation s) \<longleftrightarrow> True"
| "read_point (RecheckReady s kind) \<longleftrightarrow> True"
| "read_point (LoadSize s kind) \<longleftrightarrow> True"
| "read_point (CopyOut s kind sz) \<longleftrightarrow> True"
| "read_point (CountRead kind data) \<longleftrightarrow> True"
| "read_point WriteBegin \<longleftrightarrow> False"
| "read_point (LoadProducer n a b) \<longleftrightarrow> False"
| "read_point (LoadConsumer n P a b) \<longleftrightarrow> False"
| "read_point (NextLoad n a b) \<longleftrightarrow> False"
| "read_point (NextCount n c a b) \<longleftrightarrow> False"
| "read_point (NextCas n k c a b) \<longleftrightarrow> False"
| "read_point (ClaimedSlot n idx a b) \<longleftrightarrow> False"
| "read_point (CheckEmpty n idx s a b) \<longleftrightarrow> False"
| "read_point (CheckComplete n idx s a b) \<longleftrightarrow> False"
| "read_point (FillSlot idx) \<longleftrightarrow> False"
| "read_point (Stores sts nxt) \<longleftrightarrow> read_point nxt"
| "read_point (Finished r) \<longleftrightarrow> True"

definition belongs :: "'u request \<Rightarrow> point \<Rightarrow> bool" where
  "belongs rq pt \<longleftrightarrow> (case rq of WriteReq kind data u now \<Rightarrow> write_point pt | ReadReq \<Rightarrow> read_point pt)"

lemma belongs_Stores [simp]: "belongs rq (Stores sts nxt) = belongs rq nxt"
  by (simp add: belongs_def split: request.split)

lemma belongs_start [simp]: "belongs rq (start_call rq)"
  by (cases rq) (simp_all add: belongs_def)

subsection \<open>One access does not change the remainder\<close>

lemma and_then_assoc: "and_then (and_then r f) g = and_then r (\<lambda>x s. and_then (f x s) g)"
  by (cases r; cases "fst r") auto

lemma rest_proceed: "rest p U rb rq (proceed r f) m = and_then (r, m) (\<lambda>x. rest p U rb rq (f x))"
  by (cases r) simp_all

lemma rest_Finished: "rest p U rb rq (Finished r) = Pair r"
  by (simp add: fun_eq_iff)

lemma rest_retry: "rest p U rb rq (retry n a b) m = retry_rest p U rb rq n a b m"
  by (simp add: retry_def retry_rest_def)

lemma advance_loop_round:
  "advance_loop p off n 0 current m =
    and_then (cas_round p off n current False m) (\<lambda>x m1. case x of
        Inl actual \<Rightarrow> advance_loop p off n 0 actual m1
      | Inr idx \<Rightarrow> (Ok idx, m1))"
  by (subst advance_loop.simps) (auto simp: cas_round_def split: outcome.splits)

lemma available_slots_from:
  "available_slots p n m = available_from p n (producer_idx m) (consumer_idx m)"
  by (simp add: available_slots_def available_from_def)

lemma loop_rest_round:
  "loop_rest p U rb rq n a b m = rest p U rb rq (LoadConsumer n (producer_idx m) a b) m"
proof -
  have t: "try_slot p U 0 rb n m =
      and_then (available_from p n (producer_idx m) (consumer_idx m), m) (\<lambda>av m. if 0 < av then
        and_then (next_producer_idx p 0 m) (\<lambda>idx m1.
        and_then (get_slot p m1 idx (rb_slot_size rb), m1) (\<lambda>s m1.
        if status s m1 = Empty \<or> status s m1 = Complete then (Ok (Some idx), reset U s m1)
        else (Ok None, m1))) else (Ok None, m))"
    by (simp add: try_slot_def available_slots_from)
  have "loop_rest p U rb rq n a b m = and_then (try_slot p U 0 rb n m) (\<lambda>r m1. case r of
      Some idx \<Rightarrow> found_rest p U rb rq idx m1 | None \<Rightarrow> retry_rest p U rb rq n a b m1)"
    unfolding loop_rest_def
    by (subst wait_loop.simps)
      (auto simp: undisturbed_def retry_rest_def loop_rest_def
        split: prod.splits outcome.splits option.splits)
  also have "\<dots> = rest p U rb rq (LoadConsumer n (producer_idx m) a b) m"
    unfolding t and_then_assoc
    by (auto simp: and_then_def claimed_rest_def split: outcome.splits prod.splits)
  finally show ?thesis .
qed

lemma call_step_belongs:
  "belongs rq pt \<Longrightarrow> belongs rq (fst (call_step p U rb rq sp pt m))"
  by (induction p U rb rq sp pt m rule: call_step.induct)
    (auto simp: belongs_def proceed_def retry_def Let_def
      split: outcome.splits prod.splits sum.splits request.splits)

lemma rest_stores:
  "rest p U rb rq (Stores (reset_stores U s) nxt) m = rest p U rb rq nxt (reset U s m)"
  by (simp add: perform_all_plain perform_reset)

lemma perform_all_append:
  "perform_all (xs @ ys) m = and_then (perform_all xs m) (\<lambda>_. perform_all ys)"
  by (induction xs arbitrary: m) auto

lemma rest_filling:
  "rest p U rb rq (Stores (SetOperation s kind # set_id_stores U s u)
      (if unat (data_size s) < length data then Finished (Err DataTooLarge)
       else Stores (write_data_stores s now data) (Finished (Ok (Wrote idx))))) =
    (\<lambda>m. and_then (write_data s now data (set_id U s u (set_operation s kind m)))
      (\<lambda>_ m4. (Ok (Wrote idx), m4)))"
proof (cases "unat (data_size s) < length data")
  case True
  then show ?thesis by (simp add: fun_eq_iff perform_all_plain perform_set_id write_data_def)
next
  case False
  then show ?thesis
    by (simp add: fun_eq_iff perform_all_plain perform_set_id perform_write_data rest_Finished
        del: rest.simps(24))
qed

lemma rest_fill:
  "rest p U rb (WriteReq kind data u now) (fst (call_step p U rb (WriteReq kind data u now) sp (FillSlot idx) m)) m =
    fill_slot p rb U kind data u now idx m"
  by (simp add: rest_proceed fill_slot_def rest_filling del: rest.simps(23))

lemma rest_write_begin:
  "rest p U rb (WriteReq kind data u now) (fst (call_step p U rb (WriteReq kind data u now) sp WriteBegin m)) m =
    wrote (ring_write p U undisturbed u now rb kind data m)"
  by (auto simp: rest_proceed ring_write_def wrote_def wait_for_slot_def loop_rest_def found_rest_def
      fill_slot_def and_then_def Let_def split: outcome.splits prod.splits)

lemma rest_read_begin:
  "rest p U rb rq (ReadConsumer (producer_idx m)) m = got (ring_read p U 0 rb m)"
  by (auto simp: ring_read_def got_def taken_rest_def data_rest_def Let_def and_then_def
      split: outcome.splits prod.splits option.splits)

lemma rest_recheck:
  "status s m = Ready \<Longrightarrow>
   rest p U rb rq (Stores [SetStatus s Reading] (LoadSize s kind)) m = data_rest U s kind m"
  by (simp add: data_rest_def read_data_def Let_def)

lemma rest_load_size:
  "rest p U rb rq (fst (call_step p U rb rq sp (LoadSize s kind) m)) m = rest p U rb rq (LoadSize s kind) m"
  by (simp add: Let_def perform_all_plain perform_reset)

lemma rest_cas:
  "and_then (cas_round p off k current False m) (\<lambda>x. rest p U rb rq (case x of
      Inl actual \<Rightarrow> f actual | Inr idx \<Rightarrow> g idx)) =
    and_then (cas_round p off k current False m) (\<lambda>x m1. case x of
      Inl actual \<Rightarrow> rest p U rb rq (f actual) m1 | Inr idx \<Rightarrow> rest p U rb rq (g idx) m1)"
  by (intro arg_cong [where f = "and_then _"]) (auto simp: fun_eq_iff split: sum.split)

lemma rest_next_cas:
  "rest p U rb rq (fst (call_step p U rb rq False (NextCas n k current a b) m))
     (snd (call_step p U rb rq False (NextCas n k current a b) m)) =
   rest p U rb rq (NextCas n k current a b) m"
  by (simp add: split_beta rest_proceed advance_loop_round [of _ _ _ current] and_then_assoc)
    (auto simp: and_then_def split: prod.splits outcome.splits sum.splits)

lemma rest_take_cas:
  "rest p U rb rq (fst (call_step p U rb rq False (TakeCas k current) m))
     (snd (call_step p U rb rq False (TakeCas k current) m)) =
   rest p U rb rq (TakeCas k current) m"
  by (simp add: split_beta rest_proceed advance_loop_round [of _ _ _ current] and_then_assoc)
    (auto simp: and_then_def split: prod.splits outcome.splits sum.splits)

text \<open>One access of a call that is not disturbed leaves what the call will do as it is.\<close>

lemma call_step_rest:
  assumes "belongs rq pt"
  shows "rest p U rb rq (fst (call_step p U rb rq False pt m)) (snd (call_step p U rb rq False pt m)) =
    rest p U rb rq pt m"
proof (cases pt)
  case WriteBegin
  then show ?thesis
    using assms rest_write_begin by (cases rq) (simp_all add: belongs_def del: rest.simps(2))
next
  case (LoadProducer n a b)
  then show ?thesis by (simp add: loop_rest_round)
next
  case (LoadConsumer n P a b)
  then show ?thesis by (auto simp: rest_proceed and_then_def rest_retry split: outcome.splits prod.splits)
next
  case (NextLoad n a b)
  then show ?thesis by (simp add: next_producer_idx_def)
next
  case (NextCas n k current a b)
  then show ?thesis by (simp only: rest_next_cas)
next
  case (ClaimedSlot n idx a b)
  then show ?thesis
    by (auto simp: rest_proceed claimed_rest_def and_then_def split: outcome.splits prod.splits)
next
  case (CheckEmpty n idx s a b)
  then show ?thesis by (simp add: rest_stores rest_retry del: rest.simps(23))
next
  case (CheckComplete n idx s a b)
  then show ?thesis by (simp add: rest_stores rest_retry del: rest.simps(23))
next
  case (FillSlot idx)
  then show ?thesis
    using assms rest_fill by (cases rq) (simp_all add: belongs_def found_rest_def)
next
  case ReadBegin
  then show ?thesis
    using assms rest_read_begin by (cases rq) (simp_all add: belongs_def del: rest.simps(12))
next
  case (ReadConsumer P)
  then show ?thesis by simp
next
  case TakeLoad
  then show ?thesis by (simp add: next_consumer_idx_def)
next
  case (TakeCas k current)
  then show ?thesis by (simp only: rest_take_cas)
next
  case (TakenSlot idx)
  then show ?thesis
    by (auto simp: rest_proceed taken_rest_def and_then_def split: outcome.splits prod.splits)
next
  case (CheckReady s)
  then show ?thesis by (simp add: rest_stores del: rest.simps(23))
next
  case (RecheckReady s kind)
  then show ?thesis
    by (cases "status s m = Ready")
      (simp_all add: rest_stores rest_recheck data_rest_def read_data_def del: rest.simps(23))
next
  case (LoadSize s kind)
  then have "snd (call_step p U rb rq False pt m) = m" by (simp add: Let_def)
  then show ?thesis using rest_load_size [of p U rb rq False s kind m] LoadSize by simp
next
  case (Stores sts nxt)
  then show ?thesis by (cases sts) (simp_all add: rest_Finished)
qed (simp_all add: Let_def)

subsection \<open>How many accesses are left\<close>

text \<open>
  The accesses a call can still make, not counting failures of its compare-and-swaps: an
  attempt takes nine, and a claimed slot is reset and filled.
\<close>

primrec todo :: "point \<Rightarrow> nat" where
  "todo WriteBegin = 9 * max_attempts + 41"
| "todo (LoadProducer n a b) = 9 * (max_attempts - a) + 40"
| "todo (LoadConsumer n P a b) = 9 * (max_attempts - a) + 39"
| "todo (NextLoad n a b) = 9 * (max_attempts - a) + 38"
| "todo (NextCount n c a b) = 9 * (max_attempts - a) + 37"
| "todo (NextCas n k c a b) = 9 * (max_attempts - a) + 36"
| "todo (ClaimedSlot n idx a b) = 9 * (max_attempts - a) + 34"
| "todo (CheckEmpty n idx s a b) = 9 * (max_attempts - a) + 33"
| "todo (CheckComplete n idx s a b) = 9 * (max_attempts - a) + 32"
| "todo (FillSlot idx) = 15"
| "todo ReadBegin = 27"
| "todo (ReadConsumer P) = 26"
| "todo TakeLoad = 25"
| "todo (TakeCount c) = 24"
| "todo (TakeCas k c) = 23"
| "todo (TakenSlot idx) = 21"
| "todo (CheckReady s) = 20"
| "todo (LoadOperation s) = 19"
| "todo (RecheckReady s kind) = 18"
| "todo (LoadSize s kind) = 14"
| "todo (CopyOut s kind sz) = 5"
| "todo (CountRead kind data) = 1"
| "todo (Stores sts nxt) = length sts + 2 + todo nxt"
| "todo (Finished r) = 0"

text \<open>Whether the compare-and-swap of a call is going to find another value than it expects.\<close>

definition stale :: "point \<Rightarrow> mem \<Rightarrow> nat" where
  "stale pt m =
     (case pt of
        NextCount n c a b \<Rightarrow> if c = producer_idx m then 0 else 1
      | NextCas n k c a b \<Rightarrow> if c = producer_idx m then 0 else 1
      | TakeCount c \<Rightarrow> if c = consumer_idx m then 0 else 1
      | TakeCas k c \<Rightarrow> if c = consumer_idx m then 0 else 1
      | _ \<Rightarrow> 0)"

text \<open>At most one access is spent on finding the new value.\<close>

lemma length_reset_stores [simp]: "length (reset_stores U s) = 8"
  by (simp add: reset_stores_def set_id_stores_def Let_def)

lemma length_other_stores [simp]:
  "length (set_id_stores U s u) = 4" "length (write_data_stores s now data) = 5"
  by (simp_all add: set_id_stores_def write_data_stores_def Let_def)

lemma stale_le: "stale pt m \<le> 1"
  by (simp add: stale_def split: point.split)

lemma todo_retry: "todo (retry n a b) \<le> 9 * (max_attempts - a) + 31"
  by (simp add: retry_def) linarith

lemma todo_proceed: "(\<And>x. r = Ok x \<Longrightarrow> todo (f x) \<le> k) \<Longrightarrow> todo (proceed r f) \<le> k"
  by (cases r) simp_all

definition left :: "point \<Rightarrow> mem \<Rightarrow> nat" where
  "left pt m = todo pt + stale pt m"

lemma left_proceed:
  assumes "\<And>x. r = Ok x \<Longrightarrow> left (f x) m \<le> k"
  shows "left (proceed r f) m \<le> k"
  using assms by (cases r) (simp_all add: left_def stale_def)

lemma left_simple:
  "left (retry n a b) m = todo (retry n a b)" "left (Stores sts nxt) m = todo (Stores sts nxt)"
  "left (Finished r) m = 0"
  by (simp_all add: left_def stale_def retry_def)

lemma left_le: "left pt m \<le> todo pt + 1"
  using stale_le [of pt m] by (simp add: left_def)

lemma left_cas:
  assumes "r = cas_round p off k c sp m"
    and "\<And>actual. actual = load64 off m \<Longrightarrow> (sp \<or> actual \<noteq> c) \<Longrightarrow> left (f (Inl actual)) m \<le> B"
    and "\<And>m'. left (f (Inr c)) m' \<le> B"
  shows "left (proceed (fst r) f) (snd r) \<le> B"
  using assms
  by (auto simp: cas_round_def split_beta left_simple split: outcome.splits if_splits)

lemma left_step:
  assumes "belongs rq pt" "\<not> is_finished pt"
  shows "left (fst (call_step p U rb rq sp pt m)) (snd (call_step p U rb rq sp pt m)) + 1 \<le>
    left pt m + (if sp then 1 else 0)"
proof (cases pt)
  case WriteBegin
  then obtain kind data u now where rq: "rq = WriteReq kind data u now"
    using assms(1) by (cases rq) (auto simp: belongs_def)
  show ?thesis unfolding WriteBegin rq
    by (simp add: left_def stale_def proceed_def split: outcome.split)
next
  case (LoadConsumer n P a b)
  have "left (proceed (available_from p n P (consumer_idx m)) (\<lambda>available.
        if 0 < available then NextLoad n a b else retry n a b)) m \<le> 9 * (max_attempts - a) + 38"
    using todo_retry [of n a b] by (intro left_proceed) (simp add: left_simple, simp add: left_def stale_def)
  then show ?thesis by (simp add: LoadConsumer) (simp add: left_def stale_def)
next
  case (NextCas n k c a b)
  let ?r = "cas_round p (header_offset 5) k c sp m"
  let ?f = "\<lambda>x. case x of Inl actual \<Rightarrow> NextCas n k actual a b | Inr idx \<Rightarrow> ClaimedSlot n idx a b"
  have "left (proceed (fst ?r) ?f) (snd ?r) \<le> left pt m + (if sp then 1 else 0) - 1"
    by (rule left_cas [OF refl]) (auto simp: NextCas left_def stale_def producer_idx_def)
  moreover have "1 \<le> left pt m" by (simp add: NextCas left_def)
  ultimately show ?thesis by (simp add: NextCas split_beta)
next
  case (TakeCas k c)
  let ?r = "cas_round p (header_offset 6) k c sp m"
  let ?f = "\<lambda>x. case x of Inl actual \<Rightarrow> TakeCas k actual | Inr idx \<Rightarrow> TakenSlot idx"
  have "left (proceed (fst ?r) ?f) (snd ?r) \<le> left pt m + (if sp then 1 else 0) - 1"
    by (rule left_cas [OF refl]) (auto simp: TakeCas left_def stale_def consumer_idx_def)
  moreover have "1 \<le> left pt m" by (simp add: TakeCas left_def)
  ultimately show ?thesis by (simp add: TakeCas split_beta)
next
  case (CheckComplete n idx s a b)
  have "left (retry n a b) m \<le> 9 * (max_attempts - a) + 31"
    using todo_retry [of n a b] by (simp add: left_simple)
  moreover have "left pt m = 9 * (max_attempts - a) + 32"
    by (simp add: CheckComplete left_def stale_def)
  ultimately show ?thesis by (simp add: CheckComplete left_simple)
next
  case (FillSlot idx)
  then obtain kind data u now where rq: "rq = WriteReq kind data u now"
    using assms(1) by (cases rq) (auto simp: belongs_def)
  show ?thesis unfolding FillSlot rq
    by (simp add: left_def stale_def proceed_def split: outcome.split)
next
  case ReadBegin
  then show ?thesis using assms(1) by (cases rq) (auto simp: belongs_def left_def stale_def)
next
  case (Stores sts nxt)
  then show ?thesis
    using left_le [of nxt m] left_le [of nxt "perform (hd sts) m"]
    by (cases sts) (auto simp: left_simple)
next
  case (Finished r)
  then show ?thesis using assms(2) by (simp add: is_finished_def)
qed (simp_all add: left_def stale_def proceed_def Let_def split: outcome.split)

subsection \<open>A call alone\<close>

lemma alone_finishes:
  assumes "belongs rq pt"
  shows "\<exists>k\<le>left pt m. alone (call_step p U rb) rq k (pt, m) =
    (Finished (fst (rest p U rb rq pt m)), snd (rest p U rb rq pt m))"
  using assms
proof (induction "left pt m" arbitrary: pt m rule: less_induct)
  case less
  show ?case
  proof (cases "is_finished pt")
    case True
    then obtain r where "pt = Finished r" by (auto simp: is_finished_def split: point.splits)
    then show ?thesis by (intro exI [of _ 0]) simp
  next
    case False
    let ?x = "call_step p U rb rq False pt m"
    have lt: "left (fst ?x) (snd ?x) < left pt m"
      using left_step [OF less.prems False, of p U rb False m] by simp
    obtain k where k: "k \<le> left (fst ?x) (snd ?x)"
      "alone (call_step p U rb) rq k (fst ?x, snd ?x) =
        (Finished (fst (rest p U rb rq (fst ?x) (snd ?x))), snd (rest p U rb rq (fst ?x) (snd ?x)))"
      using less.hyps [OF lt call_step_belongs [OF less.prems]] by blast
    show ?thesis
      by (rule exI [of _ "Suc k"]) (use k lt call_step_rest [OF less.prems] in simp)
  qed
qed

end
