(* ===== verification/Ring_Interleaved.thy ===== *)
theory Ring_Interleaved
  imports Ring_Steps_Alone
begin

text \<open>
  Any number of threads and processes that write and read one ring, interleaved access by
  access: the invariant of every schedule, the indices the producers claim, and a bound
  on the accesses of a call.
\<close>

subsection \<open>The invariant of a point\<close>

primrec store_slot :: "slot_store \<Rightarrow> slot" where
  "store_slot (SetStatus s st) = s"
| "store_slot (SetOperation s k) = s"
| "store_slot (SetSize s n) = s"
| "store_slot (SetIdWord s k w) = s"
| "store_slot (SetTimestamp s t) = s"
| "store_slot (CopyIn s bs) = s"

definition stores_in :: "slot \<Rightarrow> slot_store list \<Rightarrow> bool" where
  "stores_in s sts \<longleftrightarrow> (\<forall>st\<in>set sts. store_slot st = s \<and>
     (\<forall>bs. st = CopyIn s bs \<longrightarrow> length bs \<le> unat (data_size s)) \<and>
     (\<forall>k w. st = SetIdWord s k w \<longrightarrow> k < 4))"

definition slot_of :: "ring_buffer \<Rightarrow> u64 \<Rightarrow> slot \<Rightarrow> bool" where
  "slot_of rb n s \<longleftrightarrow> (\<exists>i<unat n. s = slot_at rb i)"

text \<open>\<open>n\<close> is the number of slots of the ring.\<close>

primrec point_ok :: "ring_buffer \<Rightarrow> u64 \<Rightarrow> point \<Rightarrow> bool" where
  "point_ok rb n WriteBegin \<longleftrightarrow> True"
| "point_ok rb n (LoadProducer k a b) \<longleftrightarrow> k = n"
| "point_ok rb n (LoadConsumer k P a b) \<longleftrightarrow> k = n \<and> P < n"
| "point_ok rb n (NextLoad k a b) \<longleftrightarrow> k = n"
| "point_ok rb n (NextCount k c a b) \<longleftrightarrow> k = n \<and> c < n"
| "point_ok rb n (NextCas k l c a b) \<longleftrightarrow> k = n \<and> l = n \<and> c < n"
| "point_ok rb n (ClaimedSlot k idx a b) \<longleftrightarrow> k = n \<and> idx < n"
| "point_ok rb n (CheckEmpty k idx s a b) \<longleftrightarrow> k = n \<and> idx < n \<and> slot_of rb n s"
| "point_ok rb n (CheckComplete k idx s a b) \<longleftrightarrow> k = n \<and> idx < n \<and> slot_of rb n s"
| "point_ok rb n (FillSlot idx) \<longleftrightarrow> idx < n"
| "point_ok rb n ReadBegin \<longleftrightarrow> True"
| "point_ok rb n (ReadConsumer P) \<longleftrightarrow> True"
| "point_ok rb n TakeLoad \<longleftrightarrow> True"
| "point_ok rb n (TakeCount c) \<longleftrightarrow> c < n"
| "point_ok rb n (TakeCas l c) \<longleftrightarrow> l = n \<and> c < n"
| "point_ok rb n (TakenSlot idx) \<longleftrightarrow> idx < n"
| "point_ok rb n (CheckReady s) \<longleftrightarrow> slot_of rb n s"
| "point_ok rb n (LoadOperation s) \<longleftrightarrow> slot_of rb n s"
| "point_ok rb n (RecheckReady s kind) \<longleftrightarrow> slot_of rb n s"
| "point_ok rb n (LoadSize s kind) \<longleftrightarrow> slot_of rb n s"
| "point_ok rb n (CopyOut s kind sz) \<longleftrightarrow> slot_of rb n s \<and> sz \<le> data_size s"
| "point_ok rb n (CountRead kind data) \<longleftrightarrow> True"
| "point_ok rb n (Stores sts nxt) \<longleftrightarrow> (\<exists>s. slot_of rb n s \<and> stores_in s sts) \<and> point_ok rb n nxt"
| "point_ok rb n (Finished r) \<longleftrightarrow> returned r"

lemma stores_in_simps [simp]:
  "stores_in s []" "stores_in s (SetStatus t st # sts) \<longleftrightarrow> t = s \<and> stores_in s sts"
  "stores_in s (SetOperation t k # sts) \<longleftrightarrow> t = s \<and> stores_in s sts"
  "stores_in s (reset_stores U s)" "stores_in s (set_id_stores U s u)"
  by (auto simp: stores_in_def reset_stores_def set_id_stores_def Let_def)

lemma stores_in_write_data:
  "length data \<le> unat (data_size s) \<Longrightarrow> stores_in s (write_data_stores s now data)"
  by (auto simp: stores_in_def write_data_stores_def)

lemma slot_of_reset [simp]: "slot_of rb n s \<Longrightarrow> \<exists>t. slot_of rb n t \<and> stores_in t (reset_stores U s)"
  by (intro exI [of _ s]) simp

lemma slot_ofI: "idx < n \<Longrightarrow> slot_of rb n (slot_at rb (unat idx))"
  by (auto simp: slot_of_def word_less_nat_alt)

text \<open>A store changes its slot only, and does not leave the mapping.\<close>

lemma perform_in_slot:
  assumes "stores_in s (st # sts)"
  shows "changes_only (slot_base s) (slot_end s) m (perform st m)"
proof -
  have s: "store_slot st = s" using assms by (simp add: stores_in_def)
  have d: "slot_base s + 64 \<le> slot_end s"
    by (simp add: slot_end_def slot_data_def layout_simps)
  show ?thesis
  proof (cases st)
    case (SetIdWord t k w)
    then have "t = s" "k < 4" using assms by (auto simp: stores_in_def)
    then show ?thesis
      using d by (auto simp: SetIdWord id_word_def layout_simps intro!: atomic_changes_only(1))
  next
    case (CopyIn t bs)
    then have "t = s" "length bs \<le> unat (data_size s)" using assms by (auto simp: stores_in_def)
    then show ?thesis using payload_in_slot [OF changes_only_refl] by (simp add: CopyIn)
  qed (use s in \<open>auto intro!: puts_in_slot\<close>)
qed

lemma stores_in_mapping:
  "stores_in s (st # sts) \<Longrightarrow> slot_in s m \<Longrightarrow> in_mapping st m"
  by (cases st) (auto simp: stores_in_def slot_in_def)

subsection \<open>The effect of an access\<close>

text \<open>The index a compare-and-swap took between two points of a call.\<close>

definition claimed :: "point \<Rightarrow> point \<Rightarrow> u64 option" where
  "claimed pt pt' = (case pt of NextCas n k c a b \<Rightarrow>
     (case pt' of ClaimedSlot n' idx a' b' \<Rightarrow> Some idx | _ \<Rightarrow> None) | _ \<Rightarrow> None)"

definition taken :: "point \<Rightarrow> point \<Rightarrow> u64 option" where
  "taken pt pt' = (case pt of TakeCas k c \<Rightarrow>
     (case pt' of TakenSlot idx \<Rightarrow> Some idx | _ \<Rightarrow> None) | _ \<Rightarrow> None)"

definition effect :: "ring_buffer \<Rightarrow> point \<Rightarrow> point \<Rightarrow> mem \<Rightarrow> mem \<Rightarrow> bool" where
  "effect rb pt pt' m m' \<longleftrightarrow>
     (case (claimed pt pt', taken pt pt') of
        (Some idx, _) \<Rightarrow> idx = producer_idx m \<and> m' = bump_producer m
      | (None, Some idx) \<Rightarrow> idx = consumer_idx m \<and> m' = bump_consumer m
      | (None, None) \<Rightarrow> m' = m \<or> m' = increment_completed m \<or> (\<exists>i. in_slot rb i m m'))"

lemma effect_none:
  "claimed pt pt' = None \<Longrightarrow> taken pt pt' = None \<Longrightarrow> effect rb pt pt' m m"
  by (simp add: effect_def)

lemma effect_safe:
  assumes "effect rb pt pt' m m'" "ring_safe rb m"
  shows "ring_safe rb m'" "fixed_fields m' = fixed_fields m"
  using assms ring_safeD(3) [OF assms(2)]
  by (auto simp: effect_def ring_safe_bump ring_safe_counters fixed_fields_bump
      split: option.splits intro: ring_safe_in_slot fixed_fields_in_slot)

lemma effect_indices:
  assumes "effect rb pt pt' m m'" "ring_safe rb m"
  shows "producer_idx m' =
      (if claimed pt pt' = None then producer_idx m else (producer_idx m + 1) mod slot_count m)"
    "claimed pt pt' = None \<Longrightarrow> taken pt pt' = None \<Longrightarrow> consumer_idx m' = consumer_idx m"
    "claimed pt pt' = Some idx \<Longrightarrow> idx = producer_idx m"
proof -
  note s = ring_safeD [OF assms(2)]
  have len: "sizeof_RingHeader \<le> length m" by (rule ring_geometryD(6) [OF s(1)])
  show "producer_idx m' =
      (if claimed pt pt' = None then producer_idx m else (producer_idx m + 1) mod slot_count m)"
    "claimed pt pt' = None \<Longrightarrow> taken pt pt' = None \<Longrightarrow> consumer_idx m' = consumer_idx m"
    "claimed pt pt' = Some idx \<Longrightarrow> idx = producer_idx m"
    using assms(1) in_slot_header [OF _ s(3)]
    by (auto simp: effect_def header_simps len split: option.splits)
qed

text \<open>One round of a compare-and-swap on an index in range.\<close>

lemma cas_round_producer:
  assumes "c < slot_count m"
  shows "cas_round p (header_offset 5) (slot_count m) c sp m =
    (if \<not> sp \<and> producer_idx m = c then (Ok (Inr c), bump_producer m)
     else (Ok (Inl (producer_idx m)), m))"
proof -
  have "slot_count m \<noteq> 0" using assms by auto
  then show ?thesis
    using u64_succ(2) [OF assms]
    by (auto simp: cas_round_def outcome_simps bump_producer_def producer_idx_def)
qed

lemma cas_round_consumer:
  assumes "c < slot_count m"
  shows "cas_round p (header_offset 6) (slot_count m) c sp m =
    (if \<not> sp \<and> consumer_idx m = c then (Ok (Inr c), bump_consumer m)
     else (Ok (Inl (consumer_idx m)), m))"
proof -
  have "slot_count m \<noteq> 0" using assms by auto
  then show ?thesis
    using u64_succ(2) [OF assms]
    by (auto simp: cas_round_def outcome_simps bump_consumer_def consumer_idx_def)
qed

lemma available_from_ok:
  assumes "P < n" "C < n"
  obtains a where "available_from p n P C = Ok a"
proof -
  have "C \<le> P \<Longrightarrow> P - C \<le> n"
    using assms unat_sub_fits [of C P] by (simp add: word_le_nat_alt word_less_nat_alt)
  then have "\<exists>a. available_from p n P C = Ok a"
    by (cases "C \<le> P") (auto simp: available_from_def outcome_simps)
  then show ?thesis using that by blast
qed

lemma max_payload_ok:
  assumes "ring_safe rb m"
  shows "max_payload_size p rb = Ok (rb_slot_size rb - 64)"
  using ring_safeD(3) [OF assms]
  by (simp add: max_payload_size_def layout_simps outcome_simps word_le_nat_alt)

lemma get_slot_ok:
  "ring_safe rb m \<Longrightarrow> idx < slot_count m \<Longrightarrow>
   get_slot p m idx (rb_slot_size rb) = Ok (slot_at rb (unat idx))"
  by (rule get_slot_in_range [OF ring_safeD(1)])

lemma retry_ok: "point_ok rb n (retry n a b)" "claimed pt (retry n a b) = None" "taken pt (retry n a b) = None"
  by (simp_all add: retry_def claimed_def taken_def split: point.splits)

lemma slot_of_in:
  assumes "ring_safe rb m" "slot_of rb (slot_count m) s"
  shows "slot_in s m" "unat (data_size s) < 2 ^ 63" "sz \<le> data_size s \<Longrightarrow> slot_data s + unat sz \<le> length m"
proof -
  show i: "slot_in s m" using assms get_slot_safe by (auto simp: slot_of_def)
  then show "unat (data_size s) < 2 ^ 63"
    using ring_geometryD(1) [OF ring_safeD(1) [OF assms(1)]] by (simp add: slot_in_def)
  show "sz \<le> data_size s \<Longrightarrow> slot_data s + unat sz \<le> length m"
    using i by (simp add: slot_in_def word_le_nat_alt)
qed

lemma claimed_simps [simp]:
  "claimed pt (Finished r) = None" "taken pt (Finished r) = None"
  "claimed pt (Stores sts nxt) = None" "taken pt (Stores sts nxt) = None"
  "claimed (Stores sts nxt) pt = None" "taken (Stores sts nxt) pt = None"
  by (simp_all add: claimed_def taken_def split: point.splits)

lemma store_effect:
  assumes "ring_safe rb m" "point_ok rb (slot_count m) (Stores sts nxt)"
  shows "point_ok rb (slot_count m) (fst (call_step p U rb rq sp (Stores sts nxt) m)) \<and>
    effect rb (Stores sts nxt) (fst (call_step p U rb rq sp (Stores sts nxt) m)) m
      (snd (call_step p U rb rq sp (Stores sts nxt) m))"
proof (cases sts)
  case Nil
  then show ?thesis using assms(2) by (simp add: effect_none)
next
  case (Cons st sts')
  obtain i where i: "i < unat (slot_count m)" "stores_in (slot_at rb i) (st # sts')"
    using assms(2) by (auto simp: slot_of_def Cons)
  have "in_mapping st m"
    by (rule stores_in_mapping [OF i(2) get_slot_safe [OF assms(1) i(1)]])
  moreover have "effect rb (Stores sts nxt) pt' m (perform st m)" for pt'
    using perform_in_slot [OF i(2), of m] by (auto simp: effect_def)
  moreover have "\<exists>s. slot_of rb (slot_count m) s \<and> stores_in s sts'"
    using i by (auto simp: slot_of_def stores_in_def)
  ultimately show ?thesis using assms(2) Cons by simp
qed

lemma call_step_effect:
  assumes safe: "ring_safe rb m" and ok: "point_ok rb (slot_count m) pt"
  shows "point_ok rb (slot_count m) (fst (call_step p U rb rq sp pt m)) \<and>
    effect rb pt (fst (call_step p U rb rq sp pt m)) m (snd (call_step p U rb rq sp pt m))"
proof -
  note s = ring_safeD [OF safe]
  show ?thesis
  proof (cases pt)
    case WriteBegin
    then show ?thesis
      by (cases rq) (simp_all add: max_payload_ok [OF safe] effect_def claimed_def taken_def)
  next
    case (LoadConsumer n P a b)
    have n: "n = slot_count m" "P < n" using ok LoadConsumer by simp_all
    obtain av where "available_from p n P (consumer_idx m) = Ok av"
      by (rule available_from_ok [OF n(2), of "consumer_idx m" p]) (simp_all add: s(5) n(1))
    then show ?thesis
      using ok LoadConsumer retry_ok(1) [of rb n a b] retry_ok(2,3) [of pt n a b]
      by (simp add: effect_def) (simp add: claimed_def taken_def)
  next
    case (NextCas n k c a b)
    then have "c < slot_count m" "k = slot_count m" using ok by simp_all
    then show ?thesis
      using ok NextCas s(4) by (simp add: cas_round_producer effect_def claimed_def taken_def)
  next
    case (TakeCas k c)
    then have "c < slot_count m" "k = slot_count m" using ok by simp_all
    then show ?thesis
      using ok TakeCas s(5) by (simp add: cas_round_consumer effect_def claimed_def taken_def)
  next
    case (ClaimedSlot n idx a b)
    then show ?thesis
      using ok by (simp add: get_slot_ok [OF safe] slot_ofI effect_def claimed_def taken_def)
  next
    case (TakenSlot idx)
    then show ?thesis
      using ok by (simp add: get_slot_ok [OF safe] slot_ofI effect_def claimed_def taken_def)
  next
    case (CheckComplete n idx t a b)
    then show ?thesis
      using ok retry_ok(1) [of rb n a b] retry_ok(2,3) [of pt n a b] by (auto simp: effect_def)
  next
    case (FillSlot idx)
    show ?thesis
    proof (cases rq)
      case (WriteReq kind data u now)
      let ?s = "slot_at rb (unat idx)"
      have "point_ok rb (slot_count m) (Stores (SetOperation ?s kind # set_id_stores U ?s u)
          (if unat (data_size ?s) < length data then Finished (Err DataTooLarge)
           else Stores (write_data_stores ?s now data) (Finished (Ok (Wrote idx)))))"
        using slot_ofI [of idx "slot_count m" rb] ok FillSlot stores_in_write_data
        by (auto simp: not_less)
      then show ?thesis
        using ok FillSlot WriteReq by (simp add: get_slot_ok [OF safe] effect_def)
    next
      case ReadReq
      then show ?thesis using ok FillSlot by (simp add: effect_def claimed_def taken_def)
    qed
  next
    case ReadBegin
    then show ?thesis by (cases rq) (simp_all add: effect_def claimed_def taken_def)
  next
    case (LoadSize t kind)
    have "slot_of rb (slot_count m) t" using ok LoadSize by simp
    then have "unat (payload_size t m) < 2 ^ 63" if "payload_size t m \<le> data_size t"
      using slot_of_in(2) [OF safe] that by (meson le_less_trans word_le_nat_alt)
    then show ?thesis
      using ok LoadSize
      by (auto simp: Let_def effect_def claimed_def taken_def not_less intro!: exI [of _ t])
  next
    case (CopyOut t kind sz)
    then show ?thesis
      using ok slot_of_in(3) [OF safe, of t sz]
      by (auto simp: effect_def claimed_def taken_def intro!: exI [of _ t])
  next
    case (RecheckReady t kind)
    then show ?thesis
      using ok by (auto simp: effect_def claimed_def taken_def intro!: exI [of _ t])
  next
    case (Stores sts nxt)
    then show ?thesis using store_effect [OF safe] ok by simp
  qed (use ok s in \<open>auto simp: effect_def claimed_def taken_def\<close>)
qed

interpretation calls: rely_guarantee "call_step p U rb" start_call is_finished "ring_safe rb"
  "\<lambda>m m'. fixed_fields m' = fixed_fields m"
  "\<lambda>rq pt m. point_ok rb (slot_count m) pt \<and> belongs rq pt"
  for p :: profile and U :: "'u uuid_crate" and rb :: ring_buffer
proof
  fix m and rq :: "'u request" and pt sp
  show "point_ok rb (slot_count m) (start_call rq) \<and> belongs rq (start_call rq)"
    by (cases rq) (simp_all add: belongs_def)
  assume "ring_safe rb m" and ok: "point_ok rb (slot_count m) pt \<and> belongs rq pt"
  then have e: "effect rb pt (fst (call_step p U rb rq sp pt m)) m (snd (call_step p U rb rq sp pt m))"
    and o: "point_ok rb (slot_count m) (fst (call_step p U rb rq sp pt m))"
    using call_step_effect by blast+
  show "ring_safe rb (snd (call_step p U rb rq sp pt m))"
    and f: "fixed_fields (snd (call_step p U rb rq sp pt m)) = fixed_fields m"
    by (rule effect_safe [OF e \<open>ring_safe rb m\<close>])+
  show "point_ok rb (slot_count (snd (call_step p U rb rq sp pt m))) (fst (call_step p U rb rq sp pt m)) \<and>
      belongs rq (fst (call_step p U rb rq sp pt m))"
    using o fixed_fieldsD(2) [OF f] call_step_belongs [OF conjunct2 [OF ok]] by simp
qed (auto dest: fixed_fieldsD(2))

subsection \<open>Schedules of ring calls\<close>

definition ring_run ::
  "profile \<Rightarrow> 'u uuid_crate \<Rightarrow> ring_buffer \<Rightarrow> 'u request action list
    \<Rightarrow> ('u request, point, mem) system \<Rightarrow> ('u request, point, mem) system" where
  "ring_run p U rb = run (call_step p U rb) start_call is_finished"

text \<open>No thread is in a call.\<close>

definition idle :: "mem \<Rightarrow> ('u request, point, mem) system" where
  "idle m = ((\<lambda>_. (ReadReq, Finished (Ok (Got None)))), m)"

abbreviation point_of :: "('u request, point, mem) system \<Rightarrow> nat \<Rightarrow> point" where
  "point_of s i \<equiv> snd (fst s i)"

definition ring_system_ok :: "ring_buffer \<Rightarrow> ('u request, point, mem) system \<Rightarrow> bool" where
  "ring_system_ok rb s \<longleftrightarrow> ring_safe rb (snd s) \<and>
     (\<forall>i. point_ok rb (slot_count (snd s)) (point_of s i) \<and> belongs (fst (fst s i)) (point_of s i))"

lemma ring_system_ok_idle: "ring_safe rb m \<Longrightarrow> ring_system_ok rb (idle m)"
  by (simp add: ring_system_ok_def idle_def belongs_def)

lemma ring_system_ok_eq: "ring_system_ok rb = calls.system_ok rb"
  by (simp add: fun_eq_iff ring_system_ok_def calls.system_ok_def)

lemma ring_run_ok:
  "ring_system_ok rb s \<Longrightarrow> ring_system_ok rb (ring_run p U rb as s)"
  "ring_system_ok rb s \<Longrightarrow> fixed_fields (snd (ring_run p U rb as s)) = fixed_fields (snd s)"
  unfolding ring_system_ok_eq ring_run_def by (rule calls.run_ok, assumption)+

abbreviation ring_act ::
  "profile \<Rightarrow> 'u uuid_crate \<Rightarrow> ring_buffer \<Rightarrow> 'u request action
    \<Rightarrow> ('u request, point, mem) system \<Rightarrow> ('u request, point, mem) system" where
  "ring_act p U rb \<equiv> act (call_step p U rb) start_call is_finished"

lemma ring_run_Cons [simp]:
  "ring_run p U rb (a # as) s = ring_run p U rb as (ring_act p U rb a s)"
  "ring_run p U rb [] s = s"
  by (simp_all add: ring_run_def)

lemma ring_act_ok:
  "ring_system_ok rb s \<Longrightarrow> ring_system_ok rb (ring_act p U rb a s)"
  "ring_system_ok rb s \<Longrightarrow> fixed_fields (snd (ring_act p U rb a s)) = fixed_fields (snd s)"
  using ring_run_ok [of rb s p U "[a]"] by simp_all

text \<open>The indices that threads claim and take, in the order in which they do.\<close>

definition moved ::
  "(point \<Rightarrow> point \<Rightarrow> u64 option) \<Rightarrow> 'u request action \<Rightarrow> ('u request, point, mem) system
    \<Rightarrow> ('u request, point, mem) system \<Rightarrow> u64 option" where
  "moved f a s s' = (case a of Run i sp \<Rightarrow> f (point_of s i) (point_of s' i) | Call i r \<Rightarrow> None)"

primrec claims ::
  "profile \<Rightarrow> 'u uuid_crate \<Rightarrow> ring_buffer \<Rightarrow> 'u request action list
    \<Rightarrow> ('u request, point, mem) system \<Rightarrow> u64 list" where
  "claims p U rb [] s = []"
| "claims p U rb (a # as) s =
     (let s' = ring_act p U rb a s in
      (case moved claimed a s s' of Some idx \<Rightarrow> [idx] | None \<Rightarrow> []) @ claims p U rb as s')"

lemma act_effect:
  assumes "ring_system_ok rb s"
  shows "effect rb (point_of s i) (point_of (ring_act p U rb (Run i sp) s) i) (snd s)
    (snd (ring_act p U rb (Run i sp) s))"
  using assms call_step_effect [of rb "snd s" "point_of s i" p U "fst (fst s i)" sp]
  by (cases s) (simp add: ring_system_ok_def act_Run)

lemma act_indices:
  assumes "ring_system_ok rb s" and s'_def: "s' = ring_act p U rb a s"
  shows "moved claimed a s s' = None \<Longrightarrow> producer_idx (snd s') = producer_idx (snd s)"
    "moved claimed a s s' = Some idx \<Longrightarrow> idx = producer_idx (snd s) \<and>
       producer_idx (snd s') = (idx + 1) mod slot_count (snd s)"
    "moved claimed a s s' = None \<Longrightarrow> moved taken a s s' = None \<Longrightarrow>
       consumer_idx (snd s') = consumer_idx (snd s)"
proof -
  have safe: "ring_safe rb (snd s)" using assms(1) by (simp add: ring_system_ok_def)
  have "snd s' = snd s" if "a = Call i r" for i r
    unfolding s'_def that by (cases s) (simp add: act_Call)
  then show "moved claimed a s s' = None \<Longrightarrow> producer_idx (snd s') = producer_idx (snd s)"
    "moved claimed a s s' = Some idx \<Longrightarrow> idx = producer_idx (snd s) \<and>
       producer_idx (snd s') = (idx + 1) mod slot_count (snd s)"
    "moved claimed a s s' = None \<Longrightarrow> moved taken a s s' = None \<Longrightarrow>
       consumer_idx (snd s') = consumer_idx (snd s)"
    using effect_indices [OF act_effect [OF assms(1)] safe]
    by (cases a; auto simp: moved_def s'_def)+
qed

lemma act_claim:
  assumes "ring_system_ok rb s" and s'_def: "s' = ring_act p U rb a s"
  shows "unat (producer_idx (snd s')) =
      (unat (producer_idx (snd s)) + (if moved claimed a s s' = None then 0 else 1)) mod unat (slot_count (snd s))"
    "(case moved claimed a s s' of Some idx \<Rightarrow> [idx] | None \<Rightarrow> []) =
      (if moved claimed a s s' = None then [] else [producer_idx (snd s)])"
    "slot_count (snd s') = slot_count (snd s)" "ring_system_ok rb s'"
    "unat (producer_idx (snd s)) < unat (slot_count (snd s))"
proof -
  have less: "producer_idx (snd s) < slot_count (snd s)"
    using ring_safeD(4) assms(1) by (auto simp: ring_system_ok_def)
  then show lt: "unat (producer_idx (snd s)) < unat (slot_count (snd s))"
    by (simp add: word_less_nat_alt)
  show "slot_count (snd s') = slot_count (snd s)" "ring_system_ok rb s'"
    unfolding s'_def
    by (rule fixed_fieldsD(2) [OF ring_act_ok(2) [OF assms(1)]] ring_act_ok(1) [OF assms(1)])+
  show "unat (producer_idx (snd s')) =
      (unat (producer_idx (snd s)) + (if moved claimed a s s' = None then 0 else 1)) mod unat (slot_count (snd s))"
    "(case moved claimed a s s' of Some idx \<Rightarrow> [idx] | None \<Rightarrow> []) =
      (if moved claimed a s s' = None then [] else [producer_idx (snd s)])"
  proof (atomize (full), cases "moved claimed a s s'")
    case None
    then have "producer_idx (snd s') = producer_idx (snd s)" by (rule act_indices(1) [OF assms])
    then show "unat (producer_idx (snd s')) = (unat (producer_idx (snd s)) +
          (if moved claimed a s s' = None then 0 else 1)) mod unat (slot_count (snd s)) \<and>
        (case moved claimed a s s' of Some idx \<Rightarrow> [idx] | None \<Rightarrow> []) =
          (if moved claimed a s s' = None then [] else [producer_idx (snd s)])"
      using lt None by simp
  next
    case (Some idx)
    then have "idx = producer_idx (snd s)"
      "producer_idx (snd s') = (producer_idx (snd s) + 1) mod slot_count (snd s)"
      using act_indices(2) [OF assms Some] by auto
    then show "unat (producer_idx (snd s')) = (unat (producer_idx (snd s)) +
          (if moved claimed a s s' = None then 0 else 1)) mod unat (slot_count (snd s)) \<and>
        (case moved claimed a s s' of Some idx \<Rightarrow> [idx] | None \<Rightarrow> []) =
          (if moved claimed a s s' = None then [] else [producer_idx (snd s)])"
      using unat_succ_mod [OF less] Some by simp
  qed
qed

lemma claims_are_tickets:
  assumes "ring_system_ok rb s"
  shows "map unat (claims p U rb as s) =
      map (\<lambda>j. (unat (producer_idx (snd s)) + j) mod unat (slot_count (snd s)))
        [0..<length (claims p U rb as s)]"
    "unat (producer_idx (snd (ring_run p U rb as s))) =
      (unat (producer_idx (snd s)) + length (claims p U rb as s)) mod unat (slot_count (snd s))"
  using assms
proof (induction as arbitrary: s)
  case Nil
  case 1
  show ?case by simp
  case 2
  then have "unat (producer_idx (snd s)) < unat (slot_count (snd s))"
    using ring_safeD(4) by (auto simp: ring_system_ok_def word_less_nat_alt)
  then show ?case by simp
next
  case (Cons a as)
  note act = act_claim [OF _ refl]
  {
    case 1
    let ?s' = "ring_act p U rb a s" and ?n = "unat (slot_count (snd s))" and ?P = "unat (producer_idx (snd s))"
    let ?c = "claims p U rb as ?s'"
    have IH: "map unat ?c = map (\<lambda>j. (unat (producer_idx (snd ?s')) + j) mod ?n) [0..<length ?c]"
      by (rule Cons.IH(1) [OF act(4) [OF 1], unfolded act(3) [OF 1]])
    have lt: "?P mod ?n = ?P" using act(5) [OF 1] by simp
    show ?case
    proof (cases "moved claimed a s ?s' = None")
      case True
      then show ?thesis using IH by (simp add: Let_def act(2) [OF 1] act(1) [OF 1] lt)
    next
      case False
      have "map unat ?c = map (\<lambda>j. (?P + Suc j) mod ?n) [0..<length ?c]"
        unfolding IH by (simp add: act(1) [OF 1] False mod_simps)
      then show ?thesis
        unfolding claims.simps Let_def act(2) [OF 1] if_not_P [OF False]
        by (simp add: map_upt_Suc lt del: upt_Suc)
    qed
  next
    case 2
    let ?s' = "ring_act p U rb a s"
    show ?case
      unfolding ring_run_Cons Cons.IH(2) [OF act(4) [OF 2]] act(3) [OF 2] claims.simps Let_def act(2) [OF 2]
      by (simp add: act(1) [OF 2] mod_simps)
  }
qed

text \<open>Any claims that are fewer than the slots are of different slots.\<close>

lemma claims_distinct:
  assumes "ring_system_ok rb s" "n \<le> unat (slot_count (snd s))"
  shows "distinct (take n (drop k (claims p U rb as s)))"
proof -
  let ?c = "claims p U rb as s" and ?N = "unat (slot_count (snd s))" and ?P = "unat (producer_idx (snd s))"
  have "map unat (take n (drop k ?c)) = take n (drop k (map unat ?c))"
    by (simp add: take_map drop_map)
  also have "\<dots> = map (\<lambda>j. (?P + j) mod ?N) (take n (drop k [0..<length ?c]))"
    by (subst claims_are_tickets(1) [OF assms(1)]) (simp only: take_map drop_map)
  finally have "map unat (take n (drop k ?c)) =
    map (\<lambda>j. (?P + j) mod ?N) (take n (drop k [0..<length ?c]))" .
  moreover have "distinct (map (\<lambda>j. (?P + j) mod ?N) (take n (drop k [0..<length ?c])))"
  proof -
    have "inj_on (\<lambda>j. (?P + j) mod ?N) (set (take n (drop k [0..<length ?c])))"
    proof (rule inj_onI)
      fix i j
      assume "i \<in> set (take n (drop k [0..<length ?c]))" "j \<in> set (take n (drop k [0..<length ?c]))"
        and eq: "(?P + i) mod ?N = (?P + j) mod ?N"
      then obtain i' j' where "i = k + i'" "j = k + j'" "i' < n" "j' < n"
        by (auto simp: in_set_conv_nth)
      then show "i = j"
        using ring_slot_index_inj [of "?P + k" i' ?N j'] eq assms(2) by (simp add: ac_simps)
    qed
    then show ?thesis by (simp add: distinct_map)
  qed
  ultimately show ?thesis by (metis distinct_map)
qed

subsection \<open>A bound on the accesses of a call\<close>

text \<open>The moves of a thread, those whose compare-and-swap fails spuriously, and the indices
  that other threads advance meanwhile.\<close>

definition moves :: "nat \<Rightarrow> 'u request action list \<Rightarrow> nat" where
  "moves i as = length (filter (\<lambda>a. case a of Run j sp \<Rightarrow> j = i | Call j r \<Rightarrow> False) as)"

definition spurious_moves :: "nat \<Rightarrow> 'u request action list \<Rightarrow> nat" where
  "spurious_moves i as = length (filter (\<lambda>a. case a of Run j sp \<Rightarrow> j = i \<and> sp | Call j r \<Rightarrow> False) as)"

definition by_other :: "nat \<Rightarrow> 'u request action \<Rightarrow> bool" where
  "by_other i a = (case a of Run j sp \<Rightarrow> j \<noteq> i | Call j r \<Rightarrow> False)"

primrec foreign_advances ::
  "profile \<Rightarrow> 'u uuid_crate \<Rightarrow> ring_buffer \<Rightarrow> nat \<Rightarrow> 'u request action list
    \<Rightarrow> ('u request, point, mem) system \<Rightarrow> nat" where
  "foreign_advances p U rb i [] s = 0"
| "foreign_advances p U rb i (a # as) s =
     (let s' = ring_act p U rb a s in
      (if by_other i a \<and> (moved claimed a s s' \<noteq> None \<or> moved taken a s s' \<noteq> None) then 1 else 0) +
      foreign_advances p U rb i as s')"

lemma stale_indices:
  "producer_idx m' = producer_idx m \<Longrightarrow> consumer_idx m' = consumer_idx m \<Longrightarrow> left pt m' = left pt m"
  by (simp add: left_def stale_def split: point.split)

lemma left_grows: "left pt m' \<le> left pt m + 1"
  using stale_le [of pt m'] by (simp add: left_def)

lemma finished_stays:
  assumes "is_finished (point_of s i)" "\<forall>r. Call i r \<notin> set as"
  shows "is_finished (point_of (ring_run p U rb as s) i)"
  using assms
proof (induction as arbitrary: s)
  case (Cons a as)
  obtain r where "point_of s i = Finished r"
    using Cons.prems(1) by (auto simp: is_finished_def split: point.splits)
  then have "is_finished (point_of (ring_act p U rb a s) i)"
    using Cons.prems by (cases s; cases a) (auto simp: act_Run act_Call is_finished_def)
  then show ?case using Cons by simp
qed simp

lemma moves_bounded:
  assumes "ring_system_ok rb s" "\<forall>r. Call i r \<notin> set as"
    and "\<not> is_finished (point_of (ring_run p U rb as s) i)"
  shows "moves i as \<le> left (point_of s i) (snd s) + spurious_moves i as + foreign_advances p U rb i as s"
  using assms
proof (induction as arbitrary: s)
  case Nil
  then show ?case by (simp add: moves_def)
next
  case (Cons a as)
  let ?s' = "ring_act p U rb a s"
  let ?f = "by_other i a \<and> (moved claimed a s ?s' \<noteq> None \<or> moved taken a s ?s' \<noteq> None)"
  have IH: "moves i as \<le> left (point_of ?s' i) (snd ?s') + spurious_moves i as +
      foreign_advances p U rb i as ?s'"
    using Cons.prems by (intro Cons.IH) (simp_all add: ring_act_ok)
  have nf: "\<not> is_finished (point_of s i)"
    using Cons.prems(2,3) finished_stays [of s i "a # as" p U rb] by auto
  have bel: "belongs (fst (fst s i)) (point_of s i)" using Cons.prems(1) by (simp add: ring_system_ok_def)
  show ?case
  proof (cases "\<exists>sp. a = Run i sp")
    case True
    then obtain sp where a: "a = Run i sp" by blast
    have "left (point_of ?s' i) (snd ?s') + 1 \<le> left (point_of s i) (snd s) + (if sp then 1 else 0)"
      using left_step [OF bel nf, of p U rb sp "snd s"] by (cases s) (simp add: a act_Run)
    then show ?thesis
      using IH by (simp add: a moves_def spurious_moves_def by_other_def split: if_splits)
  next
    case False
    then have cnt: "moves i (a # as) = moves i as" "spurious_moves i (a # as) = spurious_moves i as"
      by (auto simp: moves_def spurious_moves_def split: action.splits)
    have pt: "point_of ?s' i = point_of s i"
      using False Cons.prems(2) by (cases s; cases a) (auto simp: act_Run act_Call)
    have "left (point_of s i) (snd ?s') \<le> left (point_of s i) (snd s) + (if ?f then 1 else 0)"
    proof (cases ?f)
      case True
      then show ?thesis using left_grows by simp
    next
      case nof: False
      then have "moved claimed a s ?s' = None" "moved taken a s ?s' = None"
        using False by (auto simp: by_other_def moved_def split: action.splits)
      then show ?thesis
        using stale_indices [OF act_indices(1,3) [OF Cons.prems(1) refl]] by simp
    qed
    then show ?thesis using IH by (simp add: cnt pt Let_def)
  qed
qed

end
