(* ===== verification/Ring_Races.thy ===== *)
theory Ring_Races
  imports Ring_Interleaved Ring_Demo
begin

text \<open>
  What holds of ring calls whatever the schedule of their accesses, and what goes wrong
  between two of them.
\<close>

subsection \<open>Filling a slot in hand\<close>

lemma fill_slot_effect:
  assumes geo: "ring_geometry rb m" and idx: "idx < slot_count m"
    and fits: "length data \<le> max_payload rb"
  obtains m' where "fill_slot p rb U kind data u now idx m = (Ok (Wrote idx), m')"
    "in_slot rb (unat idx) m m'" "slot_ready (slot_at rb (unat idx)) m'"
    "entry (slot_at rb (unat idx)) m' = (kind, data)"
proof -
  let ?s = "slot_at rb (unat idx)"
  let ?m3 = "set_id U ?s u (set_operation ?s kind m)"
  let ?m' = "snd (write_data ?s now data ?m3)"
  have i: "unat idx < unat (slot_count m)" using idx by (simp add: word_less_nat_alt)
  have ds: "unat (data_size ?s) = max_payload rb" using max_payload_size_eq [OF geo] by blast
  have c3: "in_slot rb (unat idx) m ?m3" unfolding set_id_def by (intro puts_in_slot) simp
  have in3: "slot_in ?s ?m3"
    using slot_at_in [OF geo i] by (simp add: slot_in_def)
  have le: "length data \<le> unat (data_size ?s)" using fits ds by simp
  note eff = write_data_effect [OF in3 le, of now]
  have op: "operation ?s ?m3 = kind"
    using slot_at_in [OF geo i] by (simp add: set_id_def slot_simps slot_in_metadata)
  have "length data < 2 ^ 64" using le unat_u64_less [of "data_size ?s"] by linarith
  then have "slot_ready ?s ?m'" "entry ?s ?m' = (kind, data)"
    using eff(2,3,4,7) op le by (simp_all add: slot_ready_def entry_def)
  moreover have "fill_slot p rb U kind data u now idx m = (Ok (Wrote idx), ?m')"
    using eff(1) get_slot_in_range [OF geo idx] by (simp add: fill_slot_def and_then_Ok)
  moreover have "in_slot rb (unat idx) m ?m'"
    by (rule changes_only_trans [OF c3 write_data_changes])
  ultimately show ?thesis using that by blast
qed

subsection \<open>A call alone is the operation\<close>

text \<open>
  C5: A call whose accesses no other thread interrupts is the operation: from any state
  of the other threads and any mapping, at most 132 accesses take a write to the result
  and the mapping of \<open>ring_write\<close>, and at most 28 a read to those of \<open>ring_read\<close>.
\<close>

theorem call_alone_is_the_operation:
  "(T i = (WriteReq kind data u now, WriteBegin) \<longrightarrow>
     (\<exists>k\<le>132. ring_run p U rb (replicate k (Run i False)) (T, m) =
       (T(i := (WriteReq kind data u now,
          Finished (fst (wrote (ring_write p U undisturbed u now rb kind data m))))),
        snd (wrote (ring_write p U undisturbed u now rb kind data m))))) \<and>
   (T i = (ReadReq, ReadBegin) \<longrightarrow>
     (\<exists>k\<le>28. ring_run p U rb (replicate k (Run i False)) (T, m) =
       (T(i := (ReadReq, Finished (fst (got (ring_read p U 0 rb m))))),
        snd (got (ring_read p U 0 rb m)))))"
proof -
  have w: "left WriteBegin m \<le> 132" "left ReadBegin m \<le> 28"
    by (simp_all add: left_def stale_def max_attempts_def)
  show ?thesis
  proof (intro conjI impI)
    assume T: "T i = (WriteReq kind data u now, WriteBegin)"
    obtain k where "k \<le> left WriteBegin m"
      "alone (call_step p U rb) (WriteReq kind data u now) k (WriteBegin, m) =
        (Finished (fst (wrote (ring_write p U undisturbed u now rb kind data m))),
         snd (wrote (ring_write p U undisturbed u now rb kind data m)))"
      using alone_finishes [of "WriteReq kind data u now" WriteBegin m p U rb]
      by (auto simp: belongs_def)
    then show "\<exists>k\<le>132. ring_run p U rb (replicate k (Run i False)) (T, m) =
       (T(i := (WriteReq kind data u now,
          Finished (fst (wrote (ring_write p U undisturbed u now rb kind data m))))),
        snd (wrote (ring_write p U undisturbed u now rb kind data m)))"
      using w(1) T by (intro exI [of _ k]) (simp add: ring_run_def run_alone)
  next
    assume T: "T i = (ReadReq, ReadBegin)"
    obtain k where "k \<le> left ReadBegin m"
      "alone (call_step p U rb) ReadReq k (ReadBegin, m) =
        (Finished (fst (got (ring_read p U 0 rb m))), snd (got (ring_read p U 0 rb m)))"
      using alone_finishes [of ReadReq ReadBegin m p U rb] by (auto simp: belongs_def)
    then show "\<exists>k\<le>28. ring_run p U rb (replicate k (Run i False)) (T, m) =
       (T(i := (ReadReq, Finished (fst (got (ring_read p U 0 rb m))))),
        snd (got (ring_read p U 0 rb m)))"
      using w(2) T by (intro exI [of _ k]) (simp add: ring_run_def run_alone)
  qed
qed

theorem call_alone_is_the_operation_demo:
  "\<exists>k\<le>132. ring_run Debug demo_uuid demo_ring (replicate k (Run 0 False))
      ((\<lambda>_. (WriteReq DiskWrite [1] (1, 2) None, WriteBegin)), demo_mem) =
    ((\<lambda>_. (WriteReq DiskWrite [1] (1, 2) None, WriteBegin))
       (0 := (WriteReq DiskWrite [1] (1, 2) None, Finished (fst (wrote
          (ring_write Debug demo_uuid undisturbed (1, 2) None demo_ring DiskWrite [1] demo_mem))))),
     snd (wrote (ring_write Debug demo_uuid undisturbed (1, 2) None demo_ring DiskWrite [1] demo_mem)))"
  using call_alone_is_the_operation
    [of "\<lambda>_. (WriteReq DiskWrite [1] (1, 2) None, WriteBegin)" 0 DiskWrite "[1]" "(1, 2)" None
      Debug demo_uuid demo_ring demo_mem]
  by simp

lemma finished_returned:
  "ring_system_ok rb s \<Longrightarrow> point_of s i = Finished r \<Longrightarrow> returned r"
  by (metis ring_system_ok_def point_ok.simps(24))

text \<open>
  C3: Whatever the schedule of the accesses of any number of threads that write and read
  a ring whose slots hold anything, no call panics or leaves the mapping, the indices stay
  in range, and the geometry of the ring stays.
\<close>

theorem no_schedule_panics:
  assumes "ring_safe rb m"
  shows "ring_safe rb (snd (ring_run p U rb as (idle m))) \<and>
    fixed_fields (snd (ring_run p U rb as (idle m))) = fixed_fields m \<and>
    (\<forall>i r. point_of (ring_run p U rb as (idle m)) i = Finished r \<longrightarrow> returned r)"
proof -
  have ok: "ring_system_ok rb (ring_run p U rb as (idle m))"
    by (rule ring_run_ok(1) [OF ring_system_ok_idle [OF assms]])
  then have "ring_safe rb (snd (ring_run p U rb as (idle m)))" by (simp add: ring_system_ok_def)
  moreover have "fixed_fields (snd (ring_run p U rb as (idle m))) = fixed_fields m"
    using ring_run_ok(2) [OF ring_system_ok_idle [OF assms]] by (simp add: idle_def)
  ultimately show ?thesis using finished_returned [OF ok] by (simp add: ring_system_ok_def)
qed

theorem no_schedule_panics_demo:
  "ring_safe demo_ring (snd (ring_run Debug demo_uuid demo_ring
     [Call 0 (WriteReq DiskWrite [1] (1, 2) None), Run 0 False, Call 1 ReadReq, Run 1 False] (idle demo_mem)))"
  using no_schedule_panics [of demo_ring demo_mem Debug demo_uuid
      "[Call 0 (WriteReq DiskWrite [1] (1, 2) None), Run 0 False, Call 1 ReadReq, Run 1 False]"]
    ring_wfD(1,4) [OF demo_created(2)]
  unfolding ring_safe_def by blast

subsection \<open>Tickets\<close>

text \<open>
  C8: Under every schedule, the producer indices that the compare-and-swaps of all threads
  give out are consecutive modulo the number of slots, whichever threads they go to and
  whichever attempts fail; so as many claims in a row as there are slots are of
  different slots, and the producer index counts the claims.
\<close>

theorem claims_are_consecutive:
  assumes "ring_safe rb m"
  shows "map unat (claims p U rb as (idle m)) =
      map (\<lambda>j. (unat (producer_idx m) + j) mod slots m) [0..<length (claims p U rb as (idle m))] \<and>
    distinct (take (slots m) (drop k (claims p U rb as (idle m)))) \<and>
    unat (producer_idx (snd (ring_run p U rb as (idle m)))) =
      (unat (producer_idx m) + length (claims p U rb as (idle m))) mod slots m"
proof -
  have i: "snd (idle m) = m" by (simp add: idle_def)
  note ok = ring_system_ok_idle [OF assms]
  show ?thesis
    using claims_are_tickets [OF ok, of p U as, unfolded i] claims_distinct [OF ok, of "slots m", unfolded i]
    by blast
qed

theorem claims_are_consecutive_demo:
  "distinct (take 4 (drop 1 (claims Release demo_uuid demo_ring
     (map (\<lambda>i. Call i (WriteReq DiskWrite [1] (1, 2) None)) [0..<6] @
      concat (map (\<lambda>k. [Run 3 True, Run 5 False, Run (k mod 6) False]) [0..<90])) (idle demo_mem))))"
  using claims_are_consecutive [of demo_ring demo_mem Release demo_uuid
      "map (\<lambda>i. Call i (WriteReq DiskWrite [1] (1, 2) None)) [0..<6] @
       concat (map (\<lambda>k. [Run 3 True, Run 5 False, Run (k mod 6) False]) [0..<90])" 1]
    ring_wfD(1,4) [OF demo_created(2)] demo_created(4)
  unfolding ring_safe_def by simp

subsection \<open>Every call ends\<close>

text \<open>
  C7: A call that begins in any reachable state has ended when its thread has made 133
  accesses, not counting one for each spurious failure of its own
  compare-and-swaps and one for each index another thread advances meanwhile: no failed
  compare-and-swap is repeated unless another thread has made progress.
\<close>

theorem calls_end:
  assumes "ring_safe rb m"
    and "point_of (ring_run p U rb before (idle m)) i = start_call rq"
    and "\<forall>r. Call i r \<notin> set as"
    and "132 + spurious_moves i as + foreign_advances p U rb i as (ring_run p U rb before (idle m)) < moves i as"
  shows "is_finished (point_of (ring_run p U rb as (ring_run p U rb before (idle m))) i)"
proof (rule ccontr)
  let ?s = "ring_run p U rb before (idle m)"
  assume "\<not> is_finished (point_of (ring_run p U rb as ?s) i)"
  then have "moves i as \<le> left (point_of ?s i) (snd ?s) + spurious_moves i as +
      foreign_advances p U rb i as ?s"
    by (rule moves_bounded [OF ring_run_ok(1) [OF ring_system_ok_idle [OF assms(1)]] assms(3)])
  moreover have "left (start_call rq) (snd ?s) \<le> 132"
    by (cases rq) (simp_all add: left_def stale_def max_attempts_def)
  ultimately show False using assms(2,4) by simp
qed

theorem calls_end_demo:
  "is_finished (point_of (ring_run Debug demo_uuid demo_ring (replicate 133 (Run 0 False))
     (ring_run Debug demo_uuid demo_ring [Call 0 ReadReq] (idle demo_mem))) 0)"
proof -
  have safe: "ring_safe demo_ring demo_mem"
    using ring_wfD(1,4) [OF demo_created(2)] by (simp add: ring_safe_def)
  have f: "foreign_advances Debug demo_uuid demo_ring 0 (replicate k (Run 0 False)) s = 0" for k s
    by (induction k arbitrary: s) (simp_all add: by_other_def)
  show ?thesis
    by (rule calls_end [OF safe, where rq = ReadReq])
      (simp_all add: f moves_def spurious_moves_def act_Call idle_def is_finished_def)
qed

subsection \<open>An entry lost between one writer and one reader\<close>

text \<open>The accesses of a write up to the one that claims the index.\<close>

lemma write_claims:
  assumes "ring_safe rb m" "length data \<le> max_payload rb"
  shows "alone (call_step p U rb) (WriteReq kind data u now) 6 (WriteBegin, m) =
    (ClaimedSlot (slot_count m) (producer_idx m) 0 1, bump_producer m)"
proof -
  note s = ring_safeD [OF assms(1)]
  obtain mx where mx: "max_payload_size p rb = Ok mx" "unat mx = max_payload rb"
    by (rule max_payload_size_eq [OF s(1), of p]) blast
  obtain a where a: "available_slots p (slot_count m) m = Ok a" "0 < a"
    by (rule available_slots_value [OF s(2), of p]) blast
  then have av: "available_from p (slot_count m) (producer_idx m) (consumer_idx m) = Ok a"
    by (simp add: available_slots_from)
  have six: "6 = Suc (Suc (Suc (Suc (Suc (Suc 0)))))" by simp
  show ?thesis
    unfolding six using assms(2) mx a(2)
    by (simp add: av cas_round_producer [OF s(4)])
qed

lemma empty_ring_slot:
  assumes "ring_wf rb m" "ring_queue rb m = []"
  shows "producer_idx m = consumer_idx m" "slot_free (slot_at rb (unat (producer_idx m))) m"
proof -
  have q: "pending m = 0" using assms(2) by (metis length_ring_queue list.size(3))
  note rng = ring_wfD(4) [OF assms(1)]
  show "producer_idx m = consumer_idx m" using pending_eq_0_iff [OF rng] q by simp
  have "0 < slots m" by (rule ring_geometryD(4) [OF ring_wfD(1) [OF assms(1)]])
  then have "slot_free (ring_slot rb m 0) m" using assms(1) q by (simp add: ring_wf_def)
  then show "slot_free (slot_at rb (unat (producer_idx m))) m"
    using ring_slot_pending [OF rng, of rb] q by simp
qed

lemma run_to_end:
  assumes "T i = (rq, pt)" "belongs rq pt" "rest p U rb rq pt m = (r, m')"
  obtains k where "ring_run p U rb (replicate k (Run i False)) (T, m) = (T(i := (rq, Finished r)), m')"
proof -
  obtain k where "alone (call_step p U rb) rq k (pt, m) = (Finished r, m')"
    using alone_finishes [OF assms(2), of m p U rb] assms(3) by auto
  then show ?thesis using that [of k] assms(1) by (simp add: ring_run_def run_alone)
qed

text \<open>A claimed free slot is filled, wherever the indices have moved since.\<close>

lemma claimed_rest_fills:
  assumes "ring_safe rb m" "idx < slot_count m" "slot_free (slot_at rb (unat idx)) m"
    "length data \<le> max_payload rb"
  obtains m' where "claimed_rest p U rb (WriteReq kind data u now) n a b idx m = (Ok (Wrote idx), m')"
    "in_slot rb (unat idx) m m'" "slot_ready (slot_at rb (unat idx)) m'"
    "entry (slot_at rb (unat idx)) m' = (kind, data)"
proof -
  let ?s = "slot_at rb (unat idx)"
  have r: "in_slot rb (unat idx) m (reset U ?s m)" by (rule reset_changes)
  have safe: "ring_safe rb (reset U ?s m)" by (rule ring_safe_in_slot [OF r assms(1)])
  have n: "slot_count (reset U ?s m) = slot_count m"
    by (rule in_slot_header(1) [OF r ring_safeD(3) [OF assms(1)]])
  obtain m' where m': "fill_slot p rb U kind data u now idx (reset U ?s m) = (Ok (Wrote idx), m')"
    "in_slot rb (unat idx) (reset U ?s m) m'" "slot_ready ?s m'" "entry ?s m' = (kind, data)"
    using fill_slot_effect [OF ring_safeD(1) [OF safe] _ assms(4), of idx p U kind u now] n assms(2)
    by auto
  have "claimed_rest p U rb (WriteReq kind data u now) n a b idx m = (Ok (Wrote idx), m')"
    using assms(3) m'(1) get_slot_ok [OF assms(1,2)]
    by (simp add: claimed_rest_def slot_free_def found_rest_def)
  then show ?thesis using that changes_only_trans [OF r m'(2)] m'(3,4) by blast
qed

lemma early_reader_loses_entry:
  assumes "ring_wf rb m" "ring_queue rb m = []" "1 < slots m" "length data \<le> max_payload rb"
  shows "\<exists>as. let s = ring_run p U rb (Call 0 (WriteReq kind data u now) # Call 1 ReadReq # as) (idle m) in
    point_of s 0 = Finished (Ok (Wrote (producer_idx m))) \<and>
    point_of s 1 = Finished (Ok (Got None)) \<and>
    slot_ready (slot_at rb (unat (producer_idx m))) (snd s) \<and>
    entry (slot_at rb (unat (producer_idx m))) (snd s) = (kind, data) \<and>
    (\<forall>sp. ring_read p U sp rb (snd s) = (Ok None, snd s)) \<and>
    producer_idx (snd s) = consumer_idx (snd s)"
proof -
  let ?w = "WriteReq kind data u now" and ?P = "producer_idx m" and ?s = "slot_at rb (unat (producer_idx m))"
  let ?T0 = "(\<lambda>_. (ReadReq, Finished (Ok (Got None))))(0 := (?w, WriteBegin), 1 := (ReadReq, ReadBegin))"
  let ?m1 = "bump_producer m"
  let ?T1 = "?T0(0 := (?w, ClaimedSlot (slot_count m) ?P 0 1))"
  have safe: "ring_safe rb m" using ring_wfD(1,4) [OF assms(1)] by (simp add: ring_safe_def)
  note s = ring_safeD [OF safe] and e = empty_ring_slot [OF assms(1,2)]
  have len: "sizeof_RingHeader \<le> length m" by (rule ring_geometryD(6) [OF s(1)])
  have safe1: "ring_safe rb ?m1" by (rule ring_safe_bump(1) [OF safe])
  have free1: "slot_free ?s ?m1" using e(2) by (simp add: slot_free_def bump_slot [OF s(1)])
  have start: "ring_run p U rb [Call 0 ?w, Call 1 ReadReq] (idle m) = (?T0, m)"
    by (simp add: idle_def act_Call is_finished_def)
  have claim: "ring_run p U rb (replicate 6 (Run 0 False)) (?T0, m) = (?T1, ?m1)"
    by (simp add: ring_run_def run_alone write_claims [OF safe assms(4)] del: One_nat_def)
  have P: "unat (producer_idx ?m1) = (unat ?P + 1) mod slots m" "consumer_idx ?m1 = ?P"
    using unat_succ_mod [OF s(4)] e(1) by (simp_all add: header_simps len)
  have "unat ?P < slots m" using s(4) by (simp add: word_less_nat_alt)
  then have "(unat ?P + 1) mod slots m \<noteq> unat ?P"
    using assms(3) by (cases "unat ?P + 1 = slots m") simp_all
  then have ne: "producer_idx ?m1 \<noteq> consumer_idx ?m1" using P by auto
  let ?m2 = "reset U ?s (bump_consumer ?m1)"
  have "ring_read p U 0 rb ?m1 = (Ok None, ?m2)"
    using ring_read_unready [OF safe1 ne, of p U 0] free1 P(2) by (auto simp: slot_free_def)
  then have read: "rest p U rb ReadReq ReadBegin ?m1 = (Ok (Got None), ?m2)" by (simp add: got_def)
  have r: "in_slot rb (unat ?P) (bump_consumer ?m1) ?m2" by (rule reset_changes)
  have safe2: "ring_safe rb ?m2" by (rule ring_safe_in_slot [OF r ring_safe_bump(2) [OF safe1]])
  have h2: "slot_count ?m2 = slot_count m" "producer_idx ?m2 = producer_idx ?m1"
    "consumer_idx ?m2 = (consumer_idx ?m1 + 1) mod slot_count m"
    using in_slot_header [OF r s(3)] by (simp_all add: header_simps len)
  have "slot_in ?s (bump_consumer ?m1)"
    using get_slot_safe [OF ring_safe_bump(2) [OF safe1]] s(4) by (simp add: header_simps word_less_nat_alt)
  then have "status ?s ?m2 = Empty" by (intro reset_effect(1) slot_in_metadata)
  then have free2: "slot_free ?s ?m2" by (simp add: slot_free_def)
  have idx2: "?P < slot_count ?m2" using s(4) by (simp add: h2(1))
  obtain m3 where m3: "claimed_rest p U rb ?w (slot_count m) 0 1 ?P ?m2 = (Ok (Wrote ?P), m3)"
    "in_slot rb (unat ?P) ?m2 m3" "slot_ready ?s m3" "entry ?s m3 = (kind, data)"
    by (rule claimed_rest_fills [OF safe2 idx2 free2 assms(4)]) (rule that)
  then have fill: "rest p U rb ?w (ClaimedSlot (slot_count m) ?P 0 1) ?m2 = (Ok (Wrote ?P), m3)"
    by simp
  have idx3: "producer_idx m3 = consumer_idx m3"
    using in_slot_header [OF m3(2) s(3)] P e(1) h2 by (simp add: header_simps len)
  then have none: "ring_read p U sp rb m3 = (Ok None, m3)" for sp by (simp add: ring_read_def)
  obtain k1 where k1: "ring_run p U rb (replicate k1 (Run 1 False)) (?T1, ?m1) =
      (?T1(1 := (ReadReq, Finished (Ok (Got None)))), ?m2)"
    by (rule run_to_end [OF _ _ read, of ?T1 1]) (simp_all add: belongs_def)
  let ?T2 = "?T1(1 := (ReadReq, Finished (Ok (Got None))))"
  obtain k2 where k2: "ring_run p U rb (replicate k2 (Run 0 False)) (?T2, ?m2) =
      (?T2(0 := (?w, Finished (Ok (Wrote ?P)))), m3)"
    by (rule run_to_end [OF _ _ fill, of ?T2 0]) (simp_all add: belongs_def)
  let ?as = "replicate 6 (Run 0 False) @ replicate k1 (Run 1 False) @ replicate k2 (Run 0 False)"
  have "ring_run p U rb (Call 0 ?w # Call 1 ReadReq # ?as) (idle m) =
      (?T2(0 := (?w, Finished (Ok (Wrote ?P)))), m3)"
    using start claim k1 k2 unfolding ring_run_def by (simp del: replicate.simps)
  then show ?thesis using m3(3,4) none idx3 by (intro exI [of _ ?as]) simp
qed

text \<open>
  C9: With one writer and one reader on an empty ring an entry can get lost although both
  calls succeed: a reader that runs between the claim of an index and the filling of its
  slot takes the index and finds nothing, the write then reports success, its entry is in
  the slot, and no read returns it, since the indices are equal.
\<close>

theorem entry_is_lost_to_an_early_reader:
  assumes "ring_wf rb m" "ring_queue rb m = []" "1 < slots m" "length data \<le> max_payload rb"
  shows "\<exists>as. let s = ring_run p U rb (Call 0 (WriteReq kind data u now) # Call 1 ReadReq # as) (idle m) in
    point_of s 0 = Finished (Ok (Wrote (producer_idx m))) \<and>
    point_of s 1 = Finished (Ok (Got None)) \<and>
    slot_ready (slot_at rb (unat (producer_idx m))) (snd s) \<and>
    entry (slot_at rb (unat (producer_idx m))) (snd s) = (kind, data) \<and>
    (\<forall>sp. ring_read p U sp rb (snd s) = (Ok None, snd s))"
  using early_reader_loses_entry [OF assms, of p U kind u now] unfolding Let_def by blast

theorem entry_is_lost_to_an_early_reader_demo:
  "\<exists>as. let s = ring_run Release demo_uuid demo_ring
      (Call 0 (WriteReq DiskWrite [7] (1, 2) None) # Call 1 ReadReq # as) (idle demo_mem) in
    point_of s 0 = Finished (Ok (Wrote (producer_idx demo_mem))) \<and>
    point_of s 1 = Finished (Ok (Got None)) \<and>
    slot_ready (slot_at demo_ring (unat (producer_idx demo_mem))) (snd s) \<and>
    entry (slot_at demo_ring (unat (producer_idx demo_mem))) (snd s) = (DiskWrite, [7]) \<and>
    (\<forall>sp. ring_read Release demo_uuid sp demo_ring (snd s) = (Ok None, snd s))"
  by (rule entry_is_lost_to_an_early_reader) (simp_all add: demo_created demo_valid)

end
