(* ===== verification/Ring_Writers.thy ===== *)
theory Ring_Writers
  imports Ring_Races
begin

text \<open>
  Writers in parallel: as long as the calls are fewer than the free slots and nobody
  reads, every schedule of the accesses of any number of writers appends the entries of
  all calls, in the order in which they claimed their indices.
\<close>

subsection \<open>What a change elsewhere leaves alone\<close>

definition apart :: "slot \<Rightarrow> nat \<Rightarrow> nat \<Rightarrow> bool" where
  "apart s lo hi \<longleftrightarrow> hi \<le> slot_base s \<or> slot_end s \<le> lo"

lemma apart_status:
  assumes "changes_only lo hi m m'" "apart s lo hi"
  shows "status s m' = status s m" "operation s m' = operation s m"
    "payload_size s m' = payload_size s m"
proof -
  have d: "slot_base s + 64 \<le> slot_end s"
    by (simp add: slot_end_def slot_data_def layout_simps)
  show "status s m' = status s m" "operation s m' = operation s m"
    "payload_size s m' = payload_size s m"
    by (rule status_field.get_local [OF assms(1)] operation_field.get_local [OF assms(1)]
        size_field.get_local [OF assms(1)], use assms(2) d in \<open>auto simp: apart_def\<close>)+
qed

lemma apart_same_slot:
  assumes "changes_only lo hi m m'" "apart s lo hi"
  shows "same_slot s m m'"
proof -
  note g = apart_status [OF assms]
  have "payload s m' = payload s m" if "unat (payload_size s m) \<le> unat (data_size s)"
    unfolding payload_def g(3)
    by (rule load_changes_only [OF assms(1)])
      (use assms(2) that in \<open>auto simp: apart_def slot_end_def slot_data_def\<close>)
  then show ?thesis
    by (auto simp: same_slot_def slot_free_def slot_ready_def entry_def g)
qed

lemma apart_slot:
  "64 \<le> unat (rb_slot_size rb) \<Longrightarrow> i \<noteq> j \<Longrightarrow>
   apart (slot_at rb j) (slot_base (slot_at rb i)) (slot_end (slot_at rb i))"
  using slots_disjoint [of rb i j] by (auto simp: apart_def)

lemma apart_header:
  "64 \<le> unat (rb_slot_size rb) \<Longrightarrow> apart (slot_at rb j) 0 sizeof_RingHeader"
  using slots_behind_header by (auto simp: apart_def)

text \<open>The same stores on two mappings that differ in a region differ in that region only.\<close>

lemma store_both:
  "changes_only lo hi m m' \<Longrightarrow> changes_only lo hi (store off bs m) (store off bs m')"
  by (auto simp: changes_only_def nth_store)

lemma perform_both: "changes_only lo hi m m' \<Longrightarrow> changes_only lo hi (perform st m) (perform st m')"
  by (cases st)
    (simp_all add: set_status_def set_operation_def set_size_def set_timestamp_def
      store32_def store64_def store_both)

lemma performs_both:
  "changes_only lo hi m m' \<Longrightarrow> changes_only lo hi (fold perform sts m) (fold perform sts m')"
  by (induction sts arbitrary: m m') (simp_all add: perform_both)

subsection \<open>Calls that hold a slot\<close>

text \<open>A write whose payload fits, and its entry.\<close>

definition fits_request :: "ring_buffer \<Rightarrow> 'u request \<Rightarrow> bool" where
  "fits_request rb rq \<longleftrightarrow> (case rq of WriteReq kind data u now \<Rightarrow> length data \<le> max_payload rb | ReadReq \<Rightarrow> False)"

definition entry_of :: "'u request \<Rightarrow> operation_kind \<times> u8 list" where
  "entry_of rq = (case rq of WriteReq kind data u now \<Rightarrow> (kind, data) | ReadReq \<Rightarrow> (OpNone, []))"

definition holds_entry :: "slot \<Rightarrow> 'u request \<Rightarrow> mem \<Rightarrow> bool" where
  "holds_entry s rq m \<longleftrightarrow> slot_ready s m \<and> entry s m = entry_of rq"

text \<open>Before the claim.\<close>

definition unclaimed :: "point \<Rightarrow> bool" where
  "unclaimed pt \<longleftrightarrow> (case pt of WriteBegin \<Rightarrow> True | LoadProducer n a b \<Rightarrow> True
     | LoadConsumer n P a b \<Rightarrow> True | NextLoad n a b \<Rightarrow> True | NextCount n c a b \<Rightarrow> True
     | NextCas n k c a b \<Rightarrow> True | _ \<Rightarrow> False)"

text \<open>
  Between the claim of the index and the end: the slot is still free, or it is being reset,
  or the stores that are left make it hold the entry.
\<close>

definition in_hand :: "ring_buffer \<Rightarrow> 'u request \<Rightarrow> u64 \<Rightarrow> point \<Rightarrow> mem \<Rightarrow> bool" where
  "in_hand rb rq idx pt m \<longleftrightarrow>
     (let s = slot_at rb (unat idx) in
      case pt of
        ClaimedSlot n j a b \<Rightarrow> j = idx \<and> slot_free s m
      | CheckEmpty n j t a b \<Rightarrow> j = idx \<and> t = s \<and> slot_free s m
      | CheckComplete n j t a b \<Rightarrow> j = idx \<and> t = s \<and> status s m = Complete
      | FillSlot j \<Rightarrow> j = idx
      | Stores sts nxt \<Rightarrow> stores_in s sts \<and> sts \<noteq> [] \<and>
          (nxt = FillSlot idx \<or>
           nxt = Finished (Ok (Wrote idx)) \<and> holds_entry s rq (fold perform sts m) \<or>
           (\<exists>more. nxt = Stores more (Finished (Ok (Wrote idx))) \<and> stores_in s more \<and> more \<noteq> [] \<and>
              holds_entry s rq (fold perform (sts @ more) m)))
      | _ \<Rightarrow> False)"

lemma apart_holds_entry:
  "changes_only lo hi m m' \<Longrightarrow> apart s lo hi \<Longrightarrow> holds_entry s rq m \<Longrightarrow> holds_entry s rq m'"
  using apart_same_slot by (auto simp: holds_entry_def same_slot_def)

lemma in_hand_stable:
  assumes "in_hand rb rq idx pt m" "changes_only lo hi m m'" "apart (slot_at rb (unat idx)) lo hi"
  shows "in_hand rb rq idx pt m'"
proof -
  let ?s = "slot_at rb (unat idx)"
  have "slot_free ?s m' = slot_free ?s m" "status ?s m' = status ?s m"
    using apart_status(1) [OF assms(2,3)] by (simp_all add: slot_free_def)
  note f = this
  have h: "holds_entry ?s rq (fold perform sts m) \<Longrightarrow> holds_entry ?s rq (fold perform sts m')" for sts
    by (rule apart_holds_entry [OF performs_both [OF assms(2)] assms(3)])
  show ?thesis
  proof (cases pt)
    case (Stores sts nxt)
    have "stores_in ?s sts \<and> sts \<noteq> [] \<and>
        (nxt = FillSlot idx \<or> nxt = Finished (Ok (Wrote idx)) \<and> holds_entry ?s rq (fold perform sts m) \<or>
         (\<exists>more. nxt = Stores more (Finished (Ok (Wrote idx))) \<and> stores_in ?s more \<and> more \<noteq> [] \<and>
            holds_entry ?s rq (fold perform (sts @ more) m)))"
      using assms(1) unfolding in_hand_def Let_def Stores point.case .
    then show ?thesis
      unfolding in_hand_def Let_def Stores point.case using h by blast
  next
    case (ClaimedSlot n j a b)
    then show ?thesis using assms(1) f unfolding in_hand_def Let_def ClaimedSlot point.case by simp
  next
    case (CheckEmpty n j t a b)
    then show ?thesis using assms(1) f unfolding in_hand_def Let_def CheckEmpty point.case by simp
  next
    case (CheckComplete n j t a b)
    then show ?thesis using assms(1) f unfolding in_hand_def Let_def CheckComplete point.case by simp
  qed (use assms(1) in \<open>simp_all only: in_hand_def Let_def point.case\<close>)
qed

text \<open>The stores that fill a slot.\<close>

lemma fill_stores:
  assumes "ring_geometry rb m" "idx < slot_count m" "length data \<le> max_payload rb"
  defines "s \<equiv> slot_at rb (unat idx)"
  shows "holds_entry s (WriteReq kind data u now)
    (fold perform ((SetOperation s kind # set_id_stores U s u) @ write_data_stores s now data) m)"
proof -
  let ?m3 = "set_id U s u (set_operation s kind m)"
  obtain m' where f: "fill_slot Debug rb U kind data u now idx m = (Ok (Wrote idx), m')"
    and e: "slot_ready s m'" "entry s m' = (kind, data)"
    by (rule fill_slot_effect [OF assms(1-3), of Debug U kind u now, folded s_def]) (rule that)
  have g: "get_slot Debug m idx (rb_slot_size rb) = Ok s"
    unfolding s_def by (rule get_slot_in_range [OF assms(1,2)])
  have "write_data s now data ?m3 = (Ok (), m')"
    using f by (auto simp: fill_slot_def g and_then_def split: prod.splits outcome.splits)
  moreover have "fst (write_data s now data ?m3) = Ok () \<Longrightarrow>
      fold perform (write_data_stores s now data) ?m3 = snd (write_data s now data ?m3)"
    by (auto simp: write_data_stores_def write_data_def Let_def split: if_splits)
  ultimately show ?thesis
    using e by (simp add: perform_set_id holds_entry_def entry_of_def)
qed

lemma in_hand_Stores:
  "in_hand rb rq idx (Stores sts nxt) m \<longleftrightarrow>
    stores_in (slot_at rb (unat idx)) sts \<and> sts \<noteq> [] \<and>
    (nxt = FillSlot idx \<or>
     nxt = Finished (Ok (Wrote idx)) \<and> holds_entry (slot_at rb (unat idx)) rq (fold perform sts m) \<or>
     (\<exists>more. nxt = Stores more (Finished (Ok (Wrote idx))) \<and>
        stores_in (slot_at rb (unat idx)) more \<and> more \<noteq> [] \<and>
        holds_entry (slot_at rb (unat idx)) rq (fold perform (sts @ more) m)))"
  unfolding in_hand_def Let_def point.case by (rule refl)

lemma in_hand_simps:
  "in_hand rb rq idx (ClaimedSlot n j a b) m \<longleftrightarrow> j = idx \<and> slot_free (slot_at rb (unat idx)) m"
  "in_hand rb rq idx (CheckEmpty n j t a b) m \<longleftrightarrow>
     j = idx \<and> t = slot_at rb (unat idx) \<and> slot_free (slot_at rb (unat idx)) m"
  "in_hand rb rq idx (CheckComplete n j t a b) m \<longleftrightarrow>
     j = idx \<and> t = slot_at rb (unat idx) \<and> status (slot_at rb (unat idx)) m = Complete"
  "in_hand rb rq idx (FillSlot j) m \<longleftrightarrow> j = idx"
  "\<not> in_hand rb rq idx (Finished r) m"
  unfolding in_hand_def Let_def point.case by simp_all

lemma stores_nonempty [simp]: "reset_stores U s \<noteq> []" "write_data_stores s now data \<noteq> []"
  by (simp_all add: reset_stores_def write_data_stores_def)

text \<open>An access of a call with a slot in hand.\<close>

definition hand_step :: "ring_buffer \<Rightarrow> 'u request \<Rightarrow> u64 \<Rightarrow> point \<Rightarrow> mem \<Rightarrow> point \<times> mem \<Rightarrow> bool" where
  "hand_step rb rq idx pt m x \<longleftrightarrow> in_slot rb (unat idx) m (snd x) \<and>
     (in_hand rb rq idx (fst x) (snd x) \<or>
      fst x = Finished (Ok (Wrote idx)) \<and> holds_entry (slot_at rb (unat idx)) rq (snd x))"

lemma hand_step_stores:
  assumes "ring_safe rb m" "idx < slot_count m" "in_hand rb rq idx (Stores sts nxt) m"
  shows "hand_step rb rq idx (Stores sts nxt) m (call_step p U rb rq sp (Stores sts nxt) m)"
proof -
  let ?s = "slot_at rb (unat idx)"
  obtain st more where sts: "sts = st # more" and st: "stores_in ?s (st # more)"
    using assms(3) by (cases sts) (auto simp: in_hand_Stores)
  have "in_mapping st m"
    using stores_in_mapping [OF st get_slot_safe [OF assms(1)]] assms(2) by (simp add: word_less_nat_alt)
  moreover have "in_slot rb (unat idx) m (perform st m)" by (rule perform_in_slot [OF st])
  moreover have "stores_in ?s more" using st by (simp add: stores_in_def)
  ultimately show ?thesis
    using assms(3) by (cases "more = []") (auto simp: sts hand_step_def in_hand_Stores in_hand_simps)
qed

lemma in_hand_step:
  assumes safe: "ring_safe rb m" and idx: "idx < slot_count m" and fit: "fits_request rb rq"
    and h: "in_hand rb rq idx pt m"
  shows "hand_step rb rq idx pt m (call_step p U rb rq sp pt m)"
proof -
  let ?s = "slot_at rb (unat idx)"
  show ?thesis
  proof (cases pt)
    case (ClaimedSlot n j a b)
    then show ?thesis
      using h get_slot_ok [OF safe idx] by (simp add: hand_step_def in_hand_simps)
  next
    case (CheckEmpty n j t a b)
    then show ?thesis
      using h by (auto simp: hand_step_def in_hand_simps in_hand_Stores slot_free_def)
  next
    case (CheckComplete n j t a b)
    then show ?thesis
      using h by (auto simp: hand_step_def in_hand_simps in_hand_Stores)
  next
    case (FillSlot j)
    obtain kind data u now where rq: "rq = WriteReq kind data u now" and len: "length data \<le> max_payload rb"
      using fit by (auto simp: fits_request_def split: request.splits)
    have ds: "unat (data_size ?s) = max_payload rb"
      by (rule max_payload_size_eq [OF ring_safeD(1) [OF safe]])
    have f: "holds_entry ?s rq
      (fold perform ((SetOperation ?s kind # set_id_stores U ?s u) @ write_data_stores ?s now data) m)"
      unfolding rq by (rule fill_stores [OF ring_safeD(1) [OF safe] idx len])
    have "in_hand rb rq idx (Stores (SetOperation ?s kind # set_id_stores U ?s u)
        (Stores (write_data_stores ?s now data) (Finished (Ok (Wrote idx))))) m"
      unfolding in_hand_Stores
      using f stores_in_write_data [of data ?s now] len ds
      by (simp add: write_data_stores_def)
    then show ?thesis
      using h len ds get_slot_ok [OF safe idx]
      by (simp add: FillSlot rq hand_step_def in_hand_simps not_less)
  next
    case (Stores sts nxt)
    then show ?thesis using hand_step_stores [OF safe idx] h by simp
  qed (use h in \<open>simp_all add: in_hand_def\<close>)
qed

lemma in_hand_unique:
  "in_hand rb rq idx pt m \<Longrightarrow> in_hand rb rq' idx' pt m' \<Longrightarrow> idx = idx'"
  by (cases pt) (auto simp: in_hand_simps in_hand_Stores, simp_all add: in_hand_def)

lemma in_hand_not:
  "in_hand rb rq idx pt m \<Longrightarrow> \<not> unclaimed pt" "in_hand rb rq idx pt m \<Longrightarrow> \<not> is_finished pt"
  "unclaimed pt \<Longrightarrow> \<not> is_finished pt"
  by (cases pt; simp add: in_hand_def unclaimed_def is_finished_def)+

subsection \<open>Calls before their claim\<close>

lemma available_from_pos:
  assumes "P < n" "C < n"
  obtains a where "available_from p n P C = Ok a" "0 < a"
proof (cases "C \<le> P")
  case True
  have d: "unat (P - C) = unat P - unat C" by (rule unat_sub_fits [OF True])
  then have "P - C < n" using assms by (simp add: word_less_nat_alt)
  then have "0 < n - (P - C)" "P - C \<le> n"
    by (simp_all add: word_gt_0)
  then show ?thesis using that True by (simp add: available_from_def outcome_simps)
next
  case False
  then have "0 < C - P" "P \<le> C" by (auto simp: word_gt_0)
  then show ?thesis using that False by (simp add: available_from_def outcome_simps)
qed

definition early_step :: "point \<Rightarrow> mem \<Rightarrow> point \<times> mem \<Rightarrow> bool" where
  "early_step pt m x \<longleftrightarrow>
     unclaimed (fst x) \<and> snd x = m \<and> claimed pt (fst x) = None \<or>
     (\<exists>n a b. fst x = ClaimedSlot n (producer_idx m) a b) \<and> snd x = bump_producer m \<and>
       claimed pt (fst x) \<noteq> None"

lemma unclaimed_step:
  assumes safe: "ring_safe rb m" and ok: "point_ok rb (slot_count m) pt"
    and u: "unclaimed pt" and fit: "fits_request rb rq"
  shows "early_step pt m (call_step p U rb rq sp pt m)"
proof -
  note s = ring_safeD [OF safe]
  obtain kind data u now where rq: "rq = WriteReq kind data u now" and len: "length data \<le> max_payload rb"
    using fit by (auto simp: fits_request_def split: request.splits)
  show ?thesis
  proof (cases pt)
    case WriteBegin
    obtain mx where "max_payload_size p rb = Ok mx" "unat mx = max_payload rb"
      by (rule max_payload_size_eq [OF s(1), of p]) blast
    then show ?thesis using len by (simp add: WriteBegin rq early_step_def unclaimed_def claimed_def)
  next
    case (LoadConsumer n P a b)
    have n: "n = slot_count m" "P < n" using ok LoadConsumer by simp_all
    obtain av where "available_from p n P (consumer_idx m) = Ok av" "0 < av"
      by (rule available_from_pos [OF n(2), of "consumer_idx m" p]) (simp_all add: s(5) n(1))
    then show ?thesis by (simp add: LoadConsumer early_step_def unclaimed_def claimed_def)
  next
    case (NextCas n k c a b)
    then show ?thesis
      using ok by (simp add: cas_round_producer early_step_def unclaimed_def claimed_def)
  qed (use u in \<open>simp_all add: early_step_def unclaimed_def claimed_def\<close>)
qed

subsection \<open>The invariant of writers in parallel\<close>

text \<open>The slot that is \<open>k\<close> behind the producer index of the mapping at the start.\<close>

definition wpos :: "mem \<Rightarrow> nat \<Rightarrow> nat" where
  "wpos m k = (unat (producer_idx m) + k) mod slots m"

definition idx_at :: "mem \<Rightarrow> nat \<Rightarrow> u64" where
  "idx_at m k = of_nat (wpos m k)"

lemma wpos_less: "0 < slots m \<Longrightarrow> wpos m k < slots m"
  by (simp add: wpos_def)

lemma unat_idx_at [simp]: "0 < slots m \<Longrightarrow> unat (idx_at m k) = wpos m k"
  using wpos_less [of m k] unat_u64_less [of "slot_count m"]
  by (simp add: idx_at_def)

lemma wpos_inj: "wpos m k = wpos m j \<Longrightarrow> k < slots m \<Longrightarrow> j < slots m \<Longrightarrow> k = j"
  unfolding wpos_def by (rule ring_slot_index_inj)

text \<open>Claim \<open>k\<close> of the log is still being carried out.\<close>

definition busy ::
  "ring_buffer \<Rightarrow> mem \<Rightarrow> (nat \<times> 'u request) list \<Rightarrow> ('u request, point, mem) system \<Rightarrow> nat \<Rightarrow> bool" where
  "busy rb m L s k \<longleftrightarrow>
     fst (fst s (fst (L ! k))) = snd (L ! k) \<and> fits_request rb (snd (L ! k)) \<and>
     in_hand rb (snd (L ! k)) (idx_at m k) (point_of s (fst (L ! k))) (snd s)"

definition log_ok ::
  "ring_buffer \<Rightarrow> mem \<Rightarrow> (nat \<times> 'u request) list \<Rightarrow> ('u request, point, mem) system \<Rightarrow> bool" where
  "log_ok rb m L s \<longleftrightarrow> (\<forall>k<length L. holds_entry (slot_at rb (wpos m k)) (snd (L ! k)) (snd s) \<or> busy rb m L s k)"

definition threads_ok ::
  "ring_buffer \<Rightarrow> mem \<Rightarrow> (nat \<times> 'u request) list \<Rightarrow> ('u request, point, mem) system \<Rightarrow> bool" where
  "threads_ok rb m L s \<longleftrightarrow> (\<forall>i. is_finished (point_of s i) \<or>
     unclaimed (point_of s i) \<and> fits_request rb (fst (fst s i)) \<or>
     (\<exists>k<length L. fst (L ! k) = i \<and> busy rb m L s k))"

definition rest_same :: "ring_buffer \<Rightarrow> mem \<Rightarrow> (nat \<times> 'u request) list \<Rightarrow> mem \<Rightarrow> bool" where
  "rest_same rb m L m1 \<longleftrightarrow>
     fixed_fields m1 = fixed_fields m \<and> consumer_idx m1 = consumer_idx m \<and>
     producer_idx m1 = idx_at m (length L) \<and>
     (\<forall>j < slots m. (\<forall>k<length L. j \<noteq> wpos m k) \<longrightarrow> same_slot (slot_at rb j) m m1)"

text \<open>
  \<open>R i\<close> are the requests thread \<open>i\<close> has begun, \<open>C\<close> is their number: what the log has of a
  thread is what it has begun, up to the call that has not claimed yet.
\<close>

definition thread_calls ::
  "(nat \<times> 'u request) list \<Rightarrow> 'u request list \<Rightarrow> nat \<Rightarrow> 'u request \<times> point \<Rightarrow> bool" where
  "thread_calls L Q i t \<longleftrightarrow>
     map snd (filter (\<lambda>x. fst x = i) L) @ (if unclaimed (snd t) then [fst t] else []) = Q \<and>
     (Q \<noteq> [] \<longrightarrow> is_finished (snd t) \<longrightarrow> (\<exists>idx. snd t = Finished (Ok (Wrote idx))))"

definition calls_ok ::
  "(nat \<times> 'u request) list \<Rightarrow> (nat \<Rightarrow> 'u request list) \<Rightarrow> nat \<Rightarrow> ('u request, point, mem) system \<Rightarrow> bool" where
  "calls_ok L R C s \<longleftrightarrow> (\<forall>i. thread_calls L (R i) i (fst s i)) \<and>
     finite {i. unclaimed (point_of s i)} \<and> length L + card {i. unclaimed (point_of s i)} = C"

definition writers_inv ::
  "ring_buffer \<Rightarrow> mem \<Rightarrow> (nat \<times> 'u request) list \<Rightarrow> (nat \<Rightarrow> 'u request list) \<Rightarrow> nat
    \<Rightarrow> ('u request, point, mem) system \<Rightarrow> bool" where
  "writers_inv rb m L R C s \<longleftrightarrow>
     ring_system_ok rb s \<and> rest_same rb m L (snd s) \<and> threads_ok rb m L s \<and> log_ok rb m L s \<and>
     calls_ok L R C s"

lemma writers_invD:
  assumes "writers_inv rb m L R C s"
  shows "ring_system_ok rb s" "rest_same rb m L (snd s)" "threads_ok rb m L s" "log_ok rb m L s"
    "calls_ok L R C s" "ring_safe rb (snd s)" "slot_count (snd s) = slot_count m" "0 < slots m"
    "64 \<le> unat (rb_slot_size rb)"
proof -
  show "ring_system_ok rb s" "rest_same rb m L (snd s)" "threads_ok rb m L s" "log_ok rb m L s"
    "calls_ok L R C s"
    using assms by (simp_all add: writers_inv_def)
  then show safe: "ring_safe rb (snd s)" and n: "slot_count (snd s) = slot_count m"
    by (auto simp: ring_system_ok_def rest_same_def dest: fixed_fieldsD(2))
  show "0 < slots m" "64 \<le> unat (rb_slot_size rb)"
    using ring_geometryD(4) [OF ring_safeD(1) [OF safe]] ring_safeD(3) [OF safe] n by simp_all
qed

text \<open>A change of another region leaves the log as it is, for threads that stay where they are.\<close>

lemma busy_stable:
  assumes "busy rb m L (T, m1) k" "changes_only lo hi m1 m2" "0 < slots m"
    "apart (slot_at rb (wpos m k)) lo hi" "T' (fst (L ! k)) = T (fst (L ! k))"
  shows "busy rb m L (T', m2) k"
  using assms in_hand_stable [OF _ assms(2), of rb "snd (L ! k)" "idx_at m k"]
  by (simp add: busy_def)

lemma same_slot_refl: "same_slot s m m"
  by (simp add: same_slot_def)

lemma busy_append [simp]: "k < length L \<Longrightarrow> busy rb m (L @ L') s k = busy rb m L s k"
  by (simp add: busy_def nth_append)

lemma step_stable:
  assumes log: "\<And>k. k < length L \<Longrightarrow> k \<noteq> k0 \<Longrightarrow>
      holds_entry (slot_at rb (wpos m k)) (snd (L ! k)) m1 \<or> busy rb m L (T, m1) k"
    and th: "\<And>j. j \<noteq> i \<Longrightarrow> is_finished (snd (T j)) \<or> unclaimed (snd (T j)) \<and> fits_request rb (fst (T j)) \<or>
      (\<exists>k<length L. k \<noteq> k0 \<and> fst (L ! k) = j \<and> busy rb m L (T, m1) k)"
    and ch: "changes_only lo hi m1 m2" and n: "0 < slots m"
    and ap: "\<And>k. k < length L \<Longrightarrow> k \<noteq> k0 \<Longrightarrow> apart (slot_at rb (wpos m k)) lo hi"
    and own: "\<And>k. k < length L \<Longrightarrow> k \<noteq> k0 \<Longrightarrow> busy rb m L (T, m1) k \<Longrightarrow> fst (L ! k) \<noteq> i"
    and k0: "k0 < length L \<Longrightarrow>
      holds_entry (slot_at rb (wpos m k0)) (snd (L ! k0)) m2 \<or> busy rb m L (T(i := x), m2) k0"
    and i: "is_finished (snd x) \<or> unclaimed (snd x) \<and> fits_request rb (fst x) \<or>
      k0 < length L \<and> fst (L ! k0) = i \<and> busy rb m L (T(i := x), m2) k0"
  shows "log_ok rb m L (T(i := x), m2)" "threads_ok rb m L (T(i := x), m2)"
proof -
  have keep: "busy rb m L (T(i := x), m2) k" if "k < length L" "k \<noteq> k0" "busy rb m L (T, m1) k" for k
    by (rule busy_stable [OF that(3) ch n ap [OF that(1,2)]]) (use own [OF that] in simp)
  have "holds_entry (slot_at rb (wpos m k)) (snd (L ! k)) m2 \<or> busy rb m L (T(i := x), m2) k"
    if k: "k < length L" for k
  proof (cases "k = k0")
    case True
    then show ?thesis using k0 k by simp
  next
    case False
    consider "holds_entry (slot_at rb (wpos m k)) (snd (L ! k)) m1" | "busy rb m L (T, m1) k"
      using log [OF k False] by blast
    then show ?thesis
    proof cases
      case 1
      show ?thesis by (rule disjI1, rule apart_holds_entry [OF ch ap [OF k False] 1])
    next
      case 2
      show ?thesis by (rule disjI2, rule keep [OF k False 2])
    qed
  qed
  then show "log_ok rb m L (T(i := x), m2)" by (simp add: log_ok_def)
  have "is_finished (snd ((T(i := x)) j)) \<or>
      unclaimed (snd ((T(i := x)) j)) \<and> fits_request rb (fst ((T(i := x)) j)) \<or>
      (\<exists>k<length L. fst (L ! k) = j \<and> busy rb m L (T(i := x), m2) k)" for j
  proof (cases "j = i")
    case True
    then show ?thesis using i by auto
  next
    case False
    then show ?thesis using th [OF False] keep by auto
  qed
  then show "threads_ok rb m L (T(i := x), m2)" by (simp add: threads_ok_def)
qed

text \<open>A thread without a slot in hand moves, and the mapping stays as it is.\<close>

lemma quiet_step:
  assumes inv: "writers_inv rb m L R C (T, m1)"
    and free: "\<And>idx. \<not> in_hand rb (fst (T i)) idx (snd (T i)) m1"
    and x: "is_finished (snd x) \<or> unclaimed (snd x) \<and> fits_request rb (fst x)"
  shows "log_ok rb m L (T(i := x), m1)" "threads_ok rb m L (T(i := x), m1)"
proof -
  note d = writers_invD [OF inv]
  have own: "fst (L ! k) \<noteq> i" if "busy rb m L (T, m1) k" for k
    using that free by (auto simp: busy_def)
  have log: "\<And>k. k < length L \<Longrightarrow> k \<noteq> length L \<Longrightarrow>
      holds_entry (slot_at rb (wpos m k)) (snd (L ! k)) m1 \<or> busy rb m L (T, m1) k"
    using d(4) by (simp add: log_ok_def)
  have th: "\<And>j. j \<noteq> i \<Longrightarrow> is_finished (snd (T j)) \<or> unclaimed (snd (T j)) \<and> fits_request rb (fst (T j)) \<or>
      (\<exists>k<length L. k \<noteq> length L \<and> fst (L ! k) = j \<and> busy rb m L (T, m1) k)"
    using d(3) by (simp add: threads_ok_def) blast
  show "log_ok rb m L (T(i := x), m1)" "threads_ok rb m L (T(i := x), m1)"
    by (rule step_stable [OF log th changes_only_refl [of 0 0] d(8), where x = x],
        use own x in \<open>auto simp: apart_def\<close>)+
qed

lemma calls_okD:
  assumes "calls_ok L R C s"
  shows "thread_calls L (R i) i (fst s i)" "unclaimed (point_of s i) \<Longrightarrow> length L < C" "length L \<le> C"
proof -
  have f: "finite {i. unclaimed (point_of s i)}" and n: "length L + card {i. unclaimed (point_of s i)} = C"
    using assms by (simp_all add: calls_ok_def)
  have "0 < card {i. unclaimed (point_of s i)}" if "unclaimed (point_of s i)"
    using f that card_gt_0_iff by blast
  then show "thread_calls L (R i) i (fst s i)" "unclaimed (point_of s i) \<Longrightarrow> length L < C" "length L \<le> C"
    using assms n by (auto simp: calls_ok_def)
qed

lemma calls_step:
  assumes c: "calls_ok L R C (T, m1)"
    and i: "thread_calls L' Q i x"
    and L: "\<And>j. j \<noteq> i \<Longrightarrow> filter (\<lambda>x. fst x = j) L' = filter (\<lambda>x. fst x = j) L"
    and n: "length L' + (if unclaimed (snd x) then 1 else 0) + C =
      length L + (if unclaimed (snd (T i)) then 1 else 0) + C'"
  shows "calls_ok L' (R(i := Q)) C' (T(i := x), m2)"
proof -
  let ?A = "{j. unclaimed (snd (T j))}"
  have f: "finite ?A" and k: "length L + card ?A = C" using c by (simp_all add: calls_ok_def)
  have A: "{j. unclaimed (snd ((T(i := x)) j))} = (if unclaimed (snd x) then insert i (?A - {i}) else ?A - {i})"
    by auto
  have pos: "0 < card ?A" if "unclaimed (snd (T i))" using f that card_gt_0_iff by blast
  have "card (?A - {i}) + (if unclaimed (snd (T i)) then 1 else 0) = card ?A"
    using pos by (simp add: card_Diff_singleton_if)
  then have "length L' + card {j. unclaimed (snd ((T(i := x)) j))} = C'"
    unfolding A using n k card.insert_remove [OF f, of i]
    by (cases "unclaimed (snd x)") (simp_all del: card_Diff_insert)
  moreover have "thread_calls L' ((R(i := Q)) j) j ((T(i := x)) j)" for j
    using calls_okD(1) [OF c, of j] i L [of j] by (cases "j = i") (simp_all add: thread_calls_def)
  moreover have "finite {j. unclaimed (snd ((T(i := x)) j))}" unfolding A using f by simp
  ultimately show ?thesis by (simp add: calls_ok_def)
qed

lemma inv_call:
  assumes inv: "writers_inv rb m L R C (T, m1)" and fin: "is_finished (snd (T i))"
    and fit: "fits_request rb rq"
  shows "writers_inv rb m L (R(i := R i @ [rq])) (Suc C) (T(i := (rq, start_call rq)), m1)"
proof -
  note d = writers_invD [OF inv]
  have start: "start_call rq = WriteBegin"
    using fit by (cases rq) (simp_all add: fits_request_def)
  have ub: "unclaimed WriteBegin" by (simp add: unclaimed_def)
  have un: "\<not> unclaimed (snd (T i))" using in_hand_not(3) fin by blast
  have ok: "ring_system_ok rb (T(i := (rq, start_call rq)), m1)"
    using d(1) belongs_start [of rq] by (simp add: ring_system_ok_def start)
  have st: "log_ok rb m L (T(i := (rq, start_call rq)), m1)" "threads_ok rb m L (T(i := (rq, start_call rq)), m1)"
    by (rule quiet_step [OF inv], use fin fit ub start in \<open>auto dest: in_hand_not(2)\<close>)+
  have "calls_ok L (R(i := R i @ [rq])) (Suc C) (T(i := (rq, start_call rq)), m1)"
    by (rule calls_step [OF d(5)], use calls_okD(1) [OF d(5), of i] un in
      \<open>simp_all add: thread_calls_def start ub is_finished_def\<close>)
  then show ?thesis using ok d(2) st by (simp add: writers_inv_def)
qed

lemma inv_stay:
  assumes inv: "writers_inv rb m L R C (T, m1)" and u: "unclaimed (snd (T i))"
    and ok: "ring_system_ok rb (T(i := (fst (T i), pt')), m1)"
    and fit: "fits_request rb (fst (T i))" and u': "unclaimed pt'"
  shows "writers_inv rb m L R C (T(i := (fst (T i), pt')), m1)"
proof -
  note d = writers_invD [OF inv]
  have st: "log_ok rb m L (T(i := (fst (T i), pt')), m1)" "threads_ok rb m L (T(i := (fst (T i), pt')), m1)"
    by (rule quiet_step [OF inv], use u u' fit in \<open>auto dest: in_hand_not(1)\<close>)+
  have "calls_ok L (R(i := R i)) C (T(i := (fst (T i), pt')), m1)"
    by (rule calls_step [OF d(5)], use calls_okD(1) [OF d(5), of i] u u' in_hand_not(3) [OF u'] in
      \<open>simp_all add: thread_calls_def\<close>)
  then show ?thesis using ok d(2) st by (simp add: writers_inv_def)
qed

text \<open>The slot of the next claim is free.\<close>

lemma next_slot_free:
  assumes wf: "ring_wf rb m" and k: "k + pending m < slots m"
  shows "slot_free (slot_at rb (wpos m k)) m"
proof -
  have "wpos m k = (unat (consumer_idx m) + (pending m + k)) mod slots m"
    unfolding wpos_def producer_at_pending [OF ring_wfD(4) [OF wf]]
    by (simp add: mod_add_left_eq add.assoc)
  then have "slot_at rb (wpos m k) = ring_slot rb m (pending m + k)" by (simp add: ring_slot_def)
  then show ?thesis using wf k by (simp add: ring_wf_def)
qed

lemma next_idx: "0 < slots m \<Longrightarrow> unat ((idx_at m k + 1) mod slot_count m) = wpos m (Suc k)"
  using unat_succ_mod [of "idx_at m k" "slot_count m"] wpos_less [of m k]
  by (simp add: word_less_nat_alt wpos_def mod_simps)

lemma rest_same_claim:
  assumes "rest_same rb m L m1" "0 < slots m" "ring_safe rb m1"
  shows "rest_same rb m (L @ [x]) (bump_producer m1)"
proof -
  have geo: "ring_geometry rb m1" by (rule ring_safeD(1) [OF assms(3)])
  have len: "sizeof_RingHeader \<le> length m1" by (rule ring_geometryD(6) [OF geo])
  have h: "producer_idx (bump_producer m1) = (idx_at m (length L) + 1) mod slot_count m"
    "consumer_idx (bump_producer m1) = consumer_idx m"
    using assms(1) by (auto simp: rest_same_def header_simps len dest: fixed_fieldsD(2))
  have "producer_idx (bump_producer m1) = idx_at m (length (L @ [x]))"
    unfolding h(1) by (rule iffD2 [OF word_unat_eq_iff]) (simp add: next_idx [OF assms(2)] assms(2))
  moreover have "same_slot (slot_at rb j) m (bump_producer m1)"
    if "j < slots m" "\<forall>k<length (L @ [x]). j \<noteq> wpos m k" for j
    using assms(1) that same_slot_trans [OF _ same_slot_bump(1) [OF geo]]
    by (simp add: rest_same_def)
  ultimately show ?thesis
    using assms(1) h(2) by (simp add: rest_same_def fixed_fields_bump)
qed

lemma free_slot_after_claim:
  assumes wf: "ring_wf rb m" and rest: "rest_same rb m L m1" and geo: "ring_geometry rb m1"
    and len: "length L + pending m < slots m"
  shows "slot_free (slot_at rb (wpos m (length L))) (bump_producer m1)"
proof -
  have "0 < slots m" using len by simp
  then have "wpos m (length L) < slots m" by (rule wpos_less)
  moreover have "wpos m (length L) \<noteq> wpos m k" if "k < length L" for k
    using wpos_inj [of m "length L" k] that len by auto
  ultimately have "same_slot (slot_at rb (wpos m (length L))) m m1"
    using rest by (simp add: rest_same_def)
  then have "same_slot (slot_at rb (wpos m (length L))) m (bump_producer m1)"
    by (rule same_slot_trans [OF _ same_slot_bump(1) [OF geo]])
  then show ?thesis using next_slot_free [OF wf len] by (simp add: same_slot_def)
qed

lemma inv_claim:
  assumes inv: "writers_inv rb m L R C (T, m1)" and wf: "ring_wf rb m" and room: "C + pending m < slots m"
    and u: "unclaimed (snd (T i))" and fit: "fits_request rb (fst (T i))"
    and ok: "ring_system_ok rb (T(i := (fst (T i), ClaimedSlot n (producer_idx m1) a b)), bump_producer m1)"
  shows "writers_inv rb m (L @ [(i, fst (T i))]) R C
    (T(i := (fst (T i), ClaimedSlot n (producer_idx m1) a b)), bump_producer m1)"
proof -
  let ?x = "(fst (T i), ClaimedSlot n (producer_idx m1) a b)" and ?L = "L @ [(i, fst (T i))]"
  note d = writers_invD [OF inv, simplified]
  have geo: "ring_geometry rb m1" by (rule ring_safeD(1) [OF d(6)])
  have len: "length L + pending m < slots m"
    using calls_okD(2) [OF d(5), of i] u room by simp
  have "producer_idx m1 = idx_at m (length L)" using d(2) by (simp add: rest_same_def)
  then have b: "busy rb m ?L (T(i := ?x), bump_producer m1) (length L)"
    using fit free_slot_after_claim [OF wf d(2) geo len] d(8)
    by (simp add: busy_def in_hand_simps)
  have own: "fst (?L ! k) \<noteq> i" if "busy rb m ?L (T, m1) k" "k < length ?L" "k \<noteq> length L" for k
    using that u by (auto simp: busy_def dest: in_hand_not(1))
  have log: "\<And>k. k < length ?L \<Longrightarrow> k \<noteq> length L \<Longrightarrow>
      holds_entry (slot_at rb (wpos m k)) (snd (?L ! k)) m1 \<or> busy rb m ?L (T, m1) k"
    using d(4) by (simp add: log_ok_def nth_append)
  have th: "is_finished (snd (T j)) \<or> unclaimed (snd (T j)) \<and> fits_request rb (fst (T j)) \<or>
      (\<exists>k<length ?L. k \<noteq> length L \<and> fst (?L ! k) = j \<and> busy rb m ?L (T, m1) k)" for j
  proof -
    have "(\<exists>k<length L. fst (L ! k) = j \<and> busy rb m L (T, m1) k) \<Longrightarrow>
        \<exists>k<length ?L. k \<noteq> length L \<and> fst (?L ! k) = j \<and> busy rb m ?L (T, m1) k"
    proof (elim exE conjE)
      fix k assume "k < length L" "fst (L ! k) = j" "busy rb m L (T, m1) k"
      then show ?thesis by (intro exI [of _ k]) (simp add: nth_append)
    qed
    then show ?thesis using d(3) by (auto simp: threads_ok_def)
  qed
  have st: "log_ok rb m ?L (T(i := ?x), bump_producer m1)" "threads_ok rb m ?L (T(i := ?x), bump_producer m1)"
    by (rule step_stable [OF log th bump_changes(1) d(8) apart_header [OF d(9)]],
        use own b in auto)+
  have "calls_ok ?L (R(i := R i)) C (T(i := ?x), bump_producer m1)"
    by (rule calls_step [OF d(5)], use calls_okD(1) [OF d(5), of i] u in
      \<open>simp_all add: thread_calls_def unclaimed_def is_finished_def\<close>)
  then show ?thesis
    using ok st rest_same_claim [OF d(2,8,6), of "(i, fst (T i))"] by (simp add: writers_inv_def)
qed

lemma rest_same_hand:
  assumes rest: "rest_same rb m L m1" and k: "k < length L" and ch: "in_slot rb (wpos m k) m1 m2"
    and ss: "64 \<le> unat (rb_slot_size rb)"
  shows "rest_same rb m L m2"
proof -
  note h = in_slot_header [OF ch ss]
  have "same_slot (slot_at rb j) m m2" if "j < slots m" "\<forall>k<length L. j \<noteq> wpos m k" for j
    using rest that k same_slot_trans [OF _ apart_same_slot [OF ch apart_slot [OF ss, of "wpos m k" j]]]
    by (auto simp: rest_same_def)
  then show ?thesis
    using rest h fixed_fields_in_slot [OF ch ss] by (simp add: rest_same_def)
qed

lemma inv_hand:
  assumes inv: "writers_inv rb m L R C (T, m1)" and room: "C < slots m"
    and k: "k < length L" "fst (L ! k) = i" and b: "busy rb m L (T, m1) k"
    and ok: "ring_system_ok rb (T(i := (fst (T i), pt')), m2)"
    and h: "hand_step rb (fst (T i)) (idx_at m k) (snd (T i)) m1 (pt', m2)"
  shows "writers_inv rb m L R C (T(i := (fst (T i), pt')), m2)"
proof -
  let ?x = "(fst (T i), pt')"
  note d = writers_invD [OF inv, simplified]
  have CL: "length L < slots m" using calls_okD(3) [OF d(5)] room by simp
  have ch: "in_slot rb (wpos m k) m1 m2" using h d(8) by (simp add: hand_step_def)
  have rq: "fst (T i) = snd (L ! k)" "fits_request rb (snd (L ! k))"
    "in_hand rb (snd (L ! k)) (idx_at m k) (snd (T i)) m1"
    using b k(2) by (simp_all add: busy_def)
  have own: "fst (L ! j) \<noteq> i" if "j < length L" "j \<noteq> k" "busy rb m L (T, m1) j" for j
  proof
    assume "fst (L ! j) = i"
    then have "in_hand rb (snd (L ! j)) (idx_at m j) (snd (T i)) m1" using that(3) by (simp add: busy_def)
    then have "idx_at m j = idx_at m k" by (rule in_hand_unique [OF _ rq(3)])
    then have "wpos m j = wpos m k" using d(8) by (metis unat_idx_at)
    then show False using wpos_inj [of m j k] that k(1) CL by simp
  qed
  have ap: "apart (slot_at rb (wpos m j)) (slot_base (slot_at rb (wpos m k))) (slot_end (slot_at rb (wpos m k)))"
    if "j < length L" "j \<noteq> k" for j
    by (rule apart_slot [OF d(9)]) (use wpos_inj [of m k j] that k(1) CL in auto)
  have fin: "in_hand rb (snd (L ! k)) (idx_at m k) pt' m2 \<or>
      pt' = Finished (Ok (Wrote (idx_at m k))) \<and> holds_entry (slot_at rb (wpos m k)) (snd (L ! k)) m2"
    using h rq(1) d(8) by (simp add: hand_step_def)
  have log: "\<And>j. j < length L \<Longrightarrow> j \<noteq> k \<Longrightarrow>
      holds_entry (slot_at rb (wpos m j)) (snd (L ! j)) m1 \<or> busy rb m L (T, m1) j"
    using d(4) by (simp add: log_ok_def)
  have th: "\<And>j. j \<noteq> i \<Longrightarrow> is_finished (snd (T j)) \<or> unclaimed (snd (T j)) \<and> fits_request rb (fst (T j)) \<or>
      (\<exists>k'<length L. k' \<noteq> k \<and> fst (L ! k') = j \<and> busy rb m L (T, m1) k')"
    using d(3) k(2) by (simp add: threads_ok_def) blast
  have b': "busy rb m L (T(i := ?x), m2) k" if "in_hand rb (snd (L ! k)) (idx_at m k) pt' m2"
    using that rq k(2) by (simp add: busy_def)
  have k0: "holds_entry (slot_at rb (wpos m k)) (snd (L ! k)) m2 \<or> busy rb m L (T(i := ?x), m2) k"
    using fin b' by blast
  have i: "is_finished (snd ?x) \<or> unclaimed (snd ?x) \<and> fits_request rb (fst ?x) \<or>
      k < length L \<and> fst (L ! k) = i \<and> busy rb m L (T(i := ?x), m2) k"
    using fin b' k by (auto simp: is_finished_def)
  note st = step_stable [OF log th ch d(8) ap own k0 i]
  have un: "\<not> unclaimed (snd (T i))" "\<not> unclaimed pt'"
    using in_hand_not(1) [OF rq(3)] fin by (auto simp: unclaimed_def dest: in_hand_not(1))
  have "calls_ok L (R(i := R i)) C (T(i := ?x), m2)"
    by (rule calls_step [OF d(5)], use calls_okD(1) [OF d(5), of i] un fin in
      \<open>auto simp: thread_calls_def dest: in_hand_not(2)\<close>)
  then show ?thesis
    using ok st rest_same_hand [OF d(2) k(1) ch d(9)] by (simp add: writers_inv_def)
qed

end
