(* ===== verification/Ring_Parallel.thy ===== *)
theory Ring_Parallel
  imports Ring_Writers
begin

text \<open>
  Writers in parallel, continued: the invariant holds after every schedule, and when the
  calls have returned the ring holds the entries in the order of the claims.
\<close>

subsection \<open>Every access keeps the invariant\<close>

lemma inv_access:
  assumes inv: "writers_inv rb m L R C (T, m1)" and wf: "ring_wf rb m" and room: "C + pending m < slots m"
  shows "\<exists>L'. writers_inv rb m L' R C (ring_act p U rb (Run i sp) (T, m1))"
proof -
  note d = writers_invD [OF inv, simplified]
  let ?x = "call_step p U rb (fst (T i)) sp (snd (T i)) m1"
  have ok: "ring_system_ok rb (T(i := (fst (T i), fst ?x)), snd ?x)"
    using ring_act_ok(1) [OF d(1), of p U "Run i sp"] by (simp add: act_Run)
  consider "is_finished (snd (T i))" | "unclaimed (snd (T i))" "fits_request rb (fst (T i))"
    | k where "k < length L" "fst (L ! k) = i" "busy rb m L (T, m1) k"
    using d(3) by (auto simp: threads_ok_def)
  then show ?thesis
  proof cases
    case 1
    then obtain r where "snd (T i) = Finished r" by (auto simp: is_finished_def split: point.splits)
    then have "T(i := (fst (T i), fst ?x)) = T" "snd ?x = m1"
      by (auto simp: fun_eq_iff intro: prod_eqI)
    then show ?thesis using inv by (intro exI [of _ L]) (simp add: act_Run)
  next
    case 2
    have "point_ok rb (slot_count m1) (snd (T i))" using d(1) by (simp add: ring_system_ok_def)
    then consider "unclaimed (fst ?x)" "snd ?x = m1"
      | n a b where "fst ?x = ClaimedSlot n (producer_idx m1) a b" "snd ?x = bump_producer m1"
      using unclaimed_step [OF d(6) _ 2, where p = p and U = U and sp = sp] unfolding early_step_def by blast
    then show ?thesis
    proof cases
      case 1
      show ?thesis
        using inv_stay [OF inv 2(1) _ 2(2) 1(1)] ok 1(2) by (intro exI [of _ L]) (simp add: act_Run)
    next
      case (2 n a b)
      then show ?thesis
        using inv_claim [OF inv wf room \<open>unclaimed (snd (T i))\<close> \<open>fits_request rb (fst (T i))\<close>, of n a b] ok
        by (intro exI) (simp add: act_Run)
    qed
  next
    case (3 k)
    have b: "fits_request rb (fst (T i))" "in_hand rb (fst (T i)) (idx_at m k) (snd (T i)) m1"
      using 3(2,3) by (simp_all add: busy_def)
    have "idx_at m k < slot_count m1"
      using wpos_less [OF d(8)] d(7,8) by (simp add: word_less_nat_alt)
    then have "hand_step rb (fst (T i)) (idx_at m k) (snd (T i)) m1 ?x"
      by (rule in_hand_step [OF d(6) _ b])
    then show ?thesis
      using inv_hand [OF inv _ 3 ok] room by (intro exI [of _ L]) (simp add: act_Run)
  qed
qed

text \<open>The requests a thread begins in a schedule, and the number of calls in it.\<close>

primrec begun ::
  "profile \<Rightarrow> 'u uuid_crate \<Rightarrow> ring_buffer \<Rightarrow> nat \<Rightarrow> 'u request action list
    \<Rightarrow> ('u request, point, mem) system \<Rightarrow> 'u request list" where
  "begun p U rb i [] s = []"
| "begun p U rb i (a # as) s =
     (case a of Call j rq \<Rightarrow> if j = i \<and> is_finished (point_of s i) then [rq] else [] | Run j sp \<Rightarrow> []) @
     begun p U rb i as (ring_act p U rb a s)"

definition calls_in :: "'u request action list \<Rightarrow> nat" where
  "calls_in as = length (filter (\<lambda>a. case a of Call i rq \<Rightarrow> True | Run i sp \<Rightarrow> False) as)"

lemma calls_in_simps [simp]:
  "calls_in [] = 0" "calls_in (Run i sp # as) = calls_in as" "calls_in (Call i rq # as) = Suc (calls_in as)"
  by (simp_all add: calls_in_def)

lemma inv_run:
  assumes "writers_inv rb m L R C s" "ring_wf rb m" "C + calls_in as + pending m < slots m"
    and "\<forall>i rq. Call i rq \<in> set as \<longrightarrow> fits_request rb rq"
  shows "\<exists>L' C'. writers_inv rb m L' (\<lambda>i. R i @ begun p U rb i as s) C' (ring_run p U rb as s) \<and>
    C' \<le> C + calls_in as"
  using assms
proof (induction as arbitrary: s L R C)
  case (Cons a as)
  obtain T m1 where s: "s = (T, m1)" by (cases s)
  note inv = Cons.prems(1) [unfolded s]
  show ?case
  proof (cases a)
    case (Run i sp)
    obtain L1 where "writers_inv rb m L1 R C (ring_act p U rb a s)"
      using inv_access [OF inv Cons.prems(2), of p U i sp] Cons.prems(3) by (auto simp: Run s)
    from Cons.IH [OF this Cons.prems(2)] show ?thesis using Cons.prems(3,4) by (simp add: Run)
  next
    case (Call i rq)
    show ?thesis
    proof (cases "is_finished (snd (T i))")
      case True
      have "fits_request rb rq" using Cons.prems(4) Call by auto
      then have "writers_inv rb m L (R(i := R i @ [rq])) (Suc C) (ring_act p U rb a s)"
        using inv_call [OF inv True] True by (simp add: Call s act_Call)
      from Cons.IH [OF this Cons.prems(2)] obtain L' C' where
        "writers_inv rb m L' (\<lambda>j. (R(i := R i @ [rq])) j @ begun p U rb j as (ring_act p U rb a s)) C'
           (ring_run p U rb as (ring_act p U rb a s))" "C' \<le> Suc C + calls_in as"
        using Cons.prems(3,4) by (auto simp: Call)
      moreover have "(\<lambda>j. (R(i := R i @ [rq])) j @ begun p U rb j as (ring_act p U rb a s)) =
          (\<lambda>j. R j @ begun p U rb j (a # as) s)"
        using True by (auto simp: fun_eq_iff Call s)
      ultimately show ?thesis by (intro exI [of _ L'] exI [of _ C']) (simp add: Call)
    next
      case False
      then have "ring_act p U rb a s = s" by (simp add: Call s act_Call)
      moreover have "begun p U rb j (a # as) s = begun p U rb j as s" for j
        using False by (cases "i = j") (simp_all add: Call s act_Call)
      ultimately show ?thesis
        using Cons.IH [OF Cons.prems(1,2)] Cons.prems(3,4) by (fastforce simp: Call)
    qed
  qed
qed auto

lemma idle_simps [simp]: "snd (idle m) = m" "fst (idle m) i = (ReadReq, Finished (Ok (Got None)))"
  by (simp_all add: idle_def)

lemma inv_idle:
  assumes "ring_wf rb m"
  shows "writers_inv rb m [] (\<lambda>i. []) 0 (idle m)"
proof -
  have safe: "ring_safe rb m" using ring_wfD(1,4) [OF assms] by (simp add: ring_safe_def)
  have "producer_idx m = idx_at m 0"
    using ring_wfD(2) [OF assms] by (simp add: idx_at_def wpos_def word_less_nat_alt)
  then have "rest_same rb m [] m" by (simp add: rest_same_def same_slot_refl)
  moreover have "\<not> unclaimed (Finished r)" "is_finished (Finished r)" for r
    by (simp_all add: unclaimed_def is_finished_def)
  ultimately show ?thesis
    using ring_system_ok_idle [OF safe]
    by (simp add: writers_inv_def threads_ok_def log_ok_def calls_ok_def thread_calls_def)
qed

subsection \<open>When all calls have returned\<close>

lemma wpos_ring_slot:
  assumes "indices_in_range m" "consumer_idx m' = consumer_idx m" "slot_count m' = slot_count m"
  shows "ring_slot rb m' (pending m + k) = slot_at rb (wpos m k)"
  unfolding ring_slot_def wpos_def producer_at_pending [OF assms(1)] assms(2,3)
  by (simp add: mod_add_left_eq add.assoc)

lemma log_positions_apart:
  assumes "indices_in_range m" "k < slots m" "j + pending m < slots m" "k \<noteq> pending m + j"
  shows "(unat (consumer_idx m) + k) mod slots m \<noteq> wpos m j"
proof
  assume "(unat (consumer_idx m) + k) mod slots m = wpos m j"
  then have "(unat (consumer_idx m) + k) mod slots m = (unat (consumer_idx m) + (pending m + j)) mod slots m"
    unfolding wpos_def producer_at_pending [OF assms(1)] by (simp add: mod_add_left_eq add.assoc)
  then show False using ring_slot_index_inj [of _ k "slots m" "pending m + j"] assms(2-4) by simp
qed

lemma entry_of_holds: "holds_entry s rq m \<Longrightarrow> slot_ready s m \<and> entry s m = entry_of rq"
  by (simp add: holds_entry_def)

lemma all_written:
  assumes wf: "ring_wf rb m" and safe: "ring_safe rb m'" and rest: "rest_same rb m L m'"
    and room: "length L + pending m < slots m"
    and full: "\<And>k. k < length L \<Longrightarrow> holds_entry (slot_at rb (wpos m k)) (snd (L ! k)) m'"
  shows "ring_wf rb m' \<and> ring_queue rb m' = ring_queue rb m @ map (entry_of \<circ> snd) L"
proof -
  note rng = ring_wfD(4) [OF wf]
  have h: "slot_count m' = slot_count m" "consumer_idx m' = consumer_idx m"
    "producer_idx m' = idx_at m (length L)"
    using rest by (auto simp: rest_same_def dest: fixed_fieldsD(2))
  have n: "0 < slots m" "unat (consumer_idx m) < slots m"
    using room ring_wfD(3) [OF wf] by (simp_all add: word_less_nat_alt)
  have "unat (producer_idx m') = (unat (consumer_idx m) + (pending m + length L)) mod slots m"
    using n by (simp add: h(3) wpos_def producer_at_pending [OF rng] mod_add_left_eq add.assoc)
  then have q: "pending m' = pending m + length L"
    by (intro pendingI) (use n room in \<open>simp_all add: h\<close>)
  have old: "same_slot (ring_slot rb m k) m m'" "ring_slot rb m' k = ring_slot rb m k"
    if k: "k < slots m" "k < pending m \<or> pending m + length L \<le> k" for k
  proof -
    have "(unat (consumer_idx m) + k) mod slots m \<noteq> wpos m j" if "j < length L" for j
      by (rule log_positions_apart [OF rng k(1)]) (use that room k in auto)
    then show "same_slot (ring_slot rb m k) m m'"
      using rest n(1) by (simp add: rest_same_def ring_slot_def)
    show "ring_slot rb m' k = ring_slot rb m k" by (simp add: ring_slot_def h)
  qed
  have new: "holds_entry (ring_slot rb m' (pending m + k)) (snd (L ! k)) m'" if "k < length L" for k
    unfolding wpos_ring_slot [OF rng h(2,1)] by (rule full [OF that])
  have "slot_ready (ring_slot rb m' k) m'" if "k < pending m'" for k
  proof (cases "k < pending m")
    case True
    then show ?thesis using old [of k] wf room by (simp add: same_slot_def ring_wf_def)
  next
    case False
    then show ?thesis using new [of "k - pending m"] that q by (simp add: holds_entry_def)
  qed
  moreover have "slot_free (ring_slot rb m' k) m'" if "k < slots m" "pending m' \<le> k" for k
    using old [of k] that wf q by (simp add: same_slot_def ring_wf_def)
  ultimately have "ring_wf rb m'"
    using safe by (simp add: ring_wf_def ring_safe_def h(1))
  moreover have "ring_queue rb m' = ring_queue rb m @ map (entry_of \<circ> snd) L"
  proof (rule nth_equalityI)
    fix k assume k: "k < length (ring_queue rb m')"
    show "ring_queue rb m' ! k = (ring_queue rb m @ map (entry_of \<circ> snd) L) ! k"
    proof (cases "k < pending m")
      case True
      then show ?thesis
        using old [of k] wf room q by (simp add: ring_queue_def nth_append same_slot_def ring_wf_def)
    next
      case False
      then show ?thesis
        using new [of "k - pending m"] k q by (simp add: ring_queue_def nth_append holds_entry_def)
    qed
  qed (simp add: q)
  ultimately show ?thesis by blast
qed

text \<open>
  C2: Any number of threads that write in parallel, interleaved access by access in any
  way, with failing compare-and-swaps anywhere: as long as the calls are fewer than the
  free slots, fit into a slot and nobody reads, then once all of them have returned each
  has succeeded, the ring holds what it held before and behind it exactly one entry for
  every call, none lost, torn or overwritten, in an order that agrees for every thread
  with the order of its calls.
\<close>

theorem parallel_writes_are_atomic:
  assumes "ring_wf rb m" "calls_in as + pending m < slots m"
    and "\<forall>i rq. Call i rq \<in> set as \<longrightarrow> fits_request rb rq"
    and "\<forall>i. is_finished (point_of (ring_run p U rb as (idle m)) i)"
  shows "ring_wf rb (snd (ring_run p U rb as (idle m))) \<and>
    (\<exists>L. ring_queue rb (snd (ring_run p U rb as (idle m))) = ring_queue rb m @ map (entry_of \<circ> snd) L \<and>
      (\<forall>i. map snd (filter (\<lambda>x. fst x = i) L) = begun p U rb i as (idle m))) \<and>
    (\<forall>i. begun p U rb i as (idle m) \<noteq> [] \<longrightarrow>
      (\<exists>idx. point_of (ring_run p U rb as (idle m)) i = Finished (Ok (Wrote idx))))"
proof -
  let ?s = "ring_run p U rb as (idle m)" and ?R = "\<lambda>i. begun p U rb i as (idle m)"
  obtain L C where inv: "writers_inv rb m L ?R C ?s" and C: "C \<le> calls_in as"
    using inv_run [OF inv_idle [OF assms(1)] assms(1) _ assms(3), where p = p and U = U] assms(2) by auto
  note d = writers_invD [OF inv]
  have un: "\<not> unclaimed (point_of ?s i)" for i using in_hand_not(3) assms(4) by blast
  have "\<not> busy rb m L ?s k" for k using assms(4) by (auto simp: busy_def dest: in_hand_not(2))
  then have full: "\<And>k. k < length L \<Longrightarrow> holds_entry (slot_at rb (wpos m k)) (snd (L ! k)) (snd ?s)"
    using d(4) by (simp add: log_ok_def)
  have room: "length L + pending m < slots m" using calls_okD(3) [OF d(5)] C assms(2) by linarith
  have t: "thread_calls L (?R i) i (fst ?s i)" for i by (rule calls_okD(1) [OF d(5)])
  then have "map snd (filter (\<lambda>x. fst x = i) L) = ?R i" for i
    using un [of i] t [of i] unfolding thread_calls_def by simp
  moreover have "?R i \<noteq> [] \<Longrightarrow> \<exists>idx. point_of ?s i = Finished (Ok (Wrote idx))" for i
    using t [of i] assms(4) by (simp add: thread_calls_def)
  ultimately show ?thesis
    using all_written [OF assms(1) d(6,2) room full] by blast
qed

lemma thread_finishes:
  assumes "ring_system_ok rb s"
  shows "\<exists>k. is_finished (point_of (ring_run p U rb (replicate k (Run i False)) s) i)"
proof -
  obtain T m where s: "s = (T, m)" by (cases s)
  have b: "belongs (fst (T i)) (snd (T i))" using assms by (simp add: ring_system_ok_def s)
  obtain k where "ring_run p U rb (replicate k (Run i False)) (T, m) =
      (T(i := (fst (T i), Finished (fst (rest p U rb (fst (T i)) (snd (T i)) m)))),
       snd (rest p U rb (fst (T i)) (snd (T i)) m))"
    by (rule run_to_end [of T i, OF surjective_pairing b surjective_pairing, of p U rb m]) (rule that)
  then show ?thesis by (intro exI [of _ k]) (simp add: s is_finished_def)
qed

definition actor :: "'u request action \<Rightarrow> nat" where
  "actor a = (case a of Run i sp \<Rightarrow> i | Call i rq \<Rightarrow> i)"

lemma run_others: "\<forall>a\<in>set as. actor a \<noteq> j \<Longrightarrow> fst (ring_run p U rb as s) j = fst s j"
proof (induction as arbitrary: s)
  case (Cons a as)
  obtain T m where s: "s = (T, m)" by (cases s)
  have "fst (ring_act p U rb a s) j = fst s j"
    using Cons.prems by (cases a) (simp_all add: s act_Run act_Call actor_def)
  then show ?case using Cons by simp
qed simp

lemma begun_runs: "\<forall>a\<in>set as. \<exists>i sp. a = Run i sp \<Longrightarrow> begun p U rb i as s = []"
  by (induction as arbitrary: s) (auto split: action.split)

lemma calls_in_runs: "\<forall>a\<in>set as. \<exists>i sp. a = Run i sp \<Longrightarrow> calls_in as = 0"
  by (induction as) auto

lemma two_threads_finish:
  assumes "ring_system_ok rb s" "\<And>j. 1 < j \<Longrightarrow> is_finished (point_of s j)"
  shows "\<exists>k l. \<forall>j. is_finished (point_of (ring_run p U rb
    (replicate k (Run 0 False) @ replicate l (Run 1 False)) s) j)"
proof -
  obtain k where k: "is_finished (point_of (ring_run p U rb (replicate k (Run 0 False)) s) 0)" (is "is_finished (point_of ?s 0)")
    using thread_finishes [OF assms(1)] by blast
  have "ring_system_ok rb ?s" by (rule ring_run_ok(1) [OF assms(1)])
  then obtain l where l: "is_finished (point_of (ring_run p U rb (replicate l (Run 1 False)) ?s) 1)" (is "is_finished (point_of ?t 1)")
    using thread_finishes by blast
  have "is_finished (point_of ?t j)" for j
  proof -
    have o1: "j \<noteq> 1 \<Longrightarrow> fst ?t j = fst ?s j" and o0: "j \<noteq> 0 \<Longrightarrow> fst ?s j = fst s j"
      by (rule run_others, simp add: actor_def)+
    consider "j = 0" | "j = 1" | "1 < j" by linarith
    then show ?thesis using k l o0 o1 assms(2) by cases simp_all
  qed
  moreover have "?t = ring_run p U rb (replicate k (Run 0 False) @ replicate l (Run 1 False)) s"
    by (simp add: ring_run_def)
  ultimately show ?thesis by metis
qed

text \<open>Two writers that alternate for six accesses each, so that both have claimed.\<close>

definition two_writers :: "(u64 \<times> u64) request action list" where
  "two_writers =
     [Call 0 (WriteReq DiskWrite [7] (1, 2) None), Call 1 (WriteReq NetworkSend [8] (3, 4) None)] @
     concat (replicate 6 [Run 0 False, Run 1 False])"

theorem parallel_writes_are_atomic_demo:
  "\<exists>as. let s = ring_run Debug demo_uuid demo_ring (two_writers @ as) (idle demo_mem) in
    ring_wf demo_ring (snd s) \<and>
    (\<exists>L. ring_queue demo_ring (snd s) = map (entry_of \<circ> snd) L \<and>
      map snd (filter (\<lambda>x. fst x = (0 :: nat)) L) = [WriteReq DiskWrite [7] (1, 2) None] \<and>
      map snd (filter (\<lambda>x. fst x = 1) L) = [WriteReq NetworkSend [8] (3 :: u64, 4 :: u64) None])"
proof -
  let ?run = "ring_run Debug demo_uuid demo_ring"
  let ?s = "?run two_writers (idle demo_mem)"
  have safe: "ring_safe demo_ring demo_mem"
    using ring_wfD(1,4) [OF demo_created(2)] by (simp add: ring_safe_def)
  have "fst ?s j = fst (idle demo_mem) j" if "1 < j" for j
    by (rule run_others) (use that in \<open>auto simp: two_writers_def actor_def\<close>)
  then have "\<And>j. 1 < j \<Longrightarrow> is_finished (point_of ?s j)" by (simp add: is_finished_def)
  from two_threads_finish [OF ring_run_ok(1) [OF ring_system_ok_idle [OF safe]] this]
  obtain k l where kl: "\<forall>j. is_finished (point_of (?run (replicate k (Run 0 False) @ replicate l (Run 1 False)) ?s) j)"
    by blast
  let ?more = "replicate k (Run 0 False) @ replicate l (Run 1 False) :: (u64 \<times> u64) request action list"
  have fin: "\<forall>j. is_finished (point_of (?run (two_writers @ ?more) (idle demo_mem)) j)"
    using kl by (simp add: ring_run_def)
  have runs: "\<forall>a\<in>set (concat (replicate 6 [Run 0 False, Run 1 False]) @ ?more). \<exists>i sp. a = Run i sp"
    by auto
  have calls: "calls_in (two_writers @ ?more) = 2"
    using calls_in_runs [OF runs] by (simp add: two_writers_def)
  have begun: "begun Debug demo_uuid demo_ring 0 (two_writers @ ?more) (idle demo_mem) = [WriteReq DiskWrite [7] (1, 2) None]"
    "begun Debug demo_uuid demo_ring 1 (two_writers @ ?more) (idle demo_mem) = [WriteReq NetworkSend [8] (3, 4) None]"
    using begun_runs [OF runs] by (simp_all add: two_writers_def is_finished_def idle_def act_Call)
  have q: "pending demo_mem = 0" using demo_created(3) by (metis length_ring_queue list.size(3))
  have fit: "\<forall>i rq. Call i rq \<in> set (two_writers @ ?more) \<longrightarrow> fits_request demo_ring rq"
    by (auto simp: two_writers_def fits_request_def demo_valid)
  have "calls_in (two_writers @ ?more) + pending demo_mem < slots demo_mem"
    using calls q demo_created(4) by simp
  from parallel_writes_are_atomic [OF demo_created(2) this fit fin] begun
  show ?thesis by (intro exI [of _ ?more]) (force simp: Let_def demo_created)
qed

end
