(* ===== verification/Rust_Text.thy ===== *)
theory Rust_Text
  imports Elgate_Prelude
begin

text \<open>
  The operations of \<open>str\<close> the topology code uses: \<open>split\<close>, \<open>trim\<close>, \<open>contains\<close>,
  \<open>starts_with\<close>, \<open>trim_start_matches\<close>, \<open>parse\<close> of a \<open>usize\<close>, and the decimal text
  that formatting an integer gives. A character stands for the code point of its number.
\<close>

subsection \<open>Splitting and trimming\<close>

fun split_on :: "char \<Rightarrow> string \<Rightarrow> string list" where
  "split_on c [] = [[]]"
| "split_on c (x # xs) =
     (if x = c then [] # split_on c xs
      else case split_on c xs of [] \<Rightarrow> [[x]] | p # ps \<Rightarrow> (x # p) # ps)"

definition is_white :: "char \<Rightarrow> bool" where
  "is_white c \<longleftrightarrow> (let n = of_char c :: nat in n \<in> {9, 10, 11, 12, 13, 32, 133, 160})"

definition trim :: "string \<Rightarrow> string" where
  "trim s = rev (dropWhile is_white (rev (dropWhile is_white s)))"

definition starts_with :: "string \<Rightarrow> string \<Rightarrow> bool" where
  "starts_with p s \<longleftrightarrow> take (length p) s = p"

text \<open>\<open>trim_start_matches\<close> takes the prefix off as often as it occurs.\<close>

function trim_start_matches :: "string \<Rightarrow> string \<Rightarrow> string" where
  "trim_start_matches p s =
     (if p \<noteq> [] \<and> starts_with p s then trim_start_matches p (drop (length p) s) else s)"
  by pat_completeness auto
termination
  by (relation "measure (\<lambda>(p, s). length s)")
    (auto simp: starts_with_def, metis diff_less length_greater_0_conv take_Nil)

declare trim_start_matches.simps [simp del]

lemma split_on_nonempty: "split_on c s \<noteq> []"
  by (induction c s rule: split_on.induct) (auto split: list.splits)

lemma split_on_none: "c \<notin> set s \<Longrightarrow> split_on c s = [s]"
  by (induction s) auto

lemma split_on_append: "c \<notin> set s \<Longrightarrow> split_on c (s @ c # t) = s # split_on c t"
  by (induction s) auto

lemma dropWhile_clean: "\<forall>c\<in>set s. \<not> P c \<Longrightarrow> dropWhile P s = s"
  by (cases s) auto

lemma trim_white_end:
  assumes "\<forall>c\<in>set s. \<not> is_white c" "\<forall>c\<in>set w. is_white c" "\<forall>c\<in>set v. is_white c"
  shows "trim (v @ s @ w) = s"
proof -
  have "dropWhile is_white (v @ s @ w) = dropWhile is_white (s @ w)"
    using assms(3) by (simp add: dropWhile_append)
  moreover have "rev (dropWhile is_white (rev (dropWhile is_white (s @ w)))) = s"
  proof (cases s)
    case Nil
    then show ?thesis using assms(2) by (auto dest: set_dropWhileD)
  next
    case (Cons x xs)
    then have "dropWhile is_white (s @ w) = s @ w" using assms(1) by simp
    moreover have "dropWhile is_white (rev w @ rev s) = dropWhile is_white (rev s)"
      using assms(2) by (simp add: dropWhile_append)
    moreover have "dropWhile is_white (rev s) = rev s"
      using assms(1) by (intro dropWhile_clean) simp
    ultimately show ?thesis by simp
  qed
  ultimately show ?thesis by (simp add: trim_def)
qed

lemma trim_id: "\<forall>c\<in>set s. \<not> is_white c \<Longrightarrow> trim s = s"
  using trim_white_end [of s "[]" "[]"] by simp

subsection \<open>Decimal numbers\<close>

definition digit_char :: "nat \<Rightarrow> char" where
  "digit_char d = char_of (48 + d)"

definition is_digit :: "char \<Rightarrow> bool" where
  "is_digit c \<longleftrightarrow> 48 \<le> (of_char c :: nat) \<and> (of_char c :: nat) \<le> 57"

definition digit_value :: "char \<Rightarrow> nat" where
  "digit_value c = of_char c - 48"

text \<open>The text an unsigned integer is formatted as.\<close>

fun decimal :: "nat \<Rightarrow> string" where
  "decimal n = (if n < 10 then [digit_char n] else decimal (n div 10) @ [digit_char (n mod 10)])"

declare decimal.simps [simp del]

definition digits_value :: "string \<Rightarrow> nat" where
  "digits_value s = foldl (\<lambda>v c. 10 * v + digit_value c) 0 s"

text \<open>
  \<open>str::parse::<usize>\<close>: an optional plus sign, at least one digit, nothing else, and no
  value that does not fit.
\<close>

definition parse_usize :: "string \<Rightarrow> nat option" where
  "parse_usize s =
     (let ds = (case s of c # t \<Rightarrow> if c = CHR ''+'' then t else s | [] \<Rightarrow> s)
      in if ds = [] \<or> \<not> list_all is_digit ds then None
         else if 2 ^ 64 \<le> digits_value ds then None else Some (digits_value ds))"

text \<open>How an optional integer and a boolean are formatted for debugging.\<close>

definition debug_usize_option :: "nat option \<Rightarrow> string" where
  "debug_usize_option c = (case c of None \<Rightarrow> ''None'' | Some i \<Rightarrow> ''Some('' @ decimal i @ '')'')"

definition debug_bool :: "bool \<Rightarrow> string" where
  "debug_bool b = (if b then ''true'' else ''false'')"

lemma of_char_digit [simp]: "d < 10 \<Longrightarrow> (of_char (digit_char d) :: nat) = 48 + d"
  by (simp add: digit_char_def)

lemma digit_char_value [simp]: "d < 10 \<Longrightarrow> is_digit (digit_char d)" "d < 10 \<Longrightarrow> digit_value (digit_char d) = d"
  by (simp_all add: is_digit_def digit_value_def)

lemma digit_not:
  "is_digit c \<Longrightarrow> \<not> is_white c" "is_digit c \<Longrightarrow> c \<noteq> CHR ''+''" "is_digit c \<Longrightarrow> c \<noteq> CHR ''-''"
  "is_digit c \<Longrightarrow> c \<noteq> CHR '',''"
  by (auto simp: is_digit_def is_white_def)

lemma decimal_digits: "\<forall>c\<in>set (decimal n). is_digit c"
proof (induction n rule: decimal.induct)
  case (1 n)
  then show ?case by (subst decimal.simps) (cases "n < 10", auto)
qed

lemma decimal_nonempty: "decimal n \<noteq> []"
  by (subst decimal.simps) simp

lemma digits_value_decimal: "digits_value (decimal n) = n"
proof (induction n rule: decimal.induct)
  case (1 n)
  show ?case
  proof (cases "n < 10")
    case True
    then show ?thesis by (subst decimal.simps) (simp add: digits_value_def)
  next
    case False
    have "digits_value (decimal n) = 10 * digits_value (decimal (n div 10)) + n mod 10"
      using False by (subst decimal.simps) (simp add: digits_value_def)
    then show ?thesis using 1 [OF False] by simp
  qed
qed

lemma parse_usize_decimal: "n < 2 ^ 64 \<Longrightarrow> parse_usize (decimal n) = Some n"
proof -
  assume n: "n < 2 ^ 64"
  obtain c t where d: "decimal n = c # t" using decimal_nonempty [of n] by (cases "decimal n") auto
  have "c \<noteq> CHR ''+''" using decimal_digits [of n] digit_not(2) by (auto simp: d)
  then show ?thesis
    using n decimal_digits [of n] digits_value_decimal [of n]
    by (simp add: parse_usize_def d list_all_iff)
qed

lemma decimal_inj: "decimal a = decimal b \<longleftrightarrow> a = b"
  by (metis digits_value_decimal)

text \<open>Decimal text holds no separators and no white space.\<close>

lemma decimal_clean:
  "\<forall>c\<in>set (decimal n). \<not> is_white c" "CHR ''-'' \<notin> set (decimal n)" "CHR '','' \<notin> set (decimal n)"
proof -
  show "\<forall>c\<in>set (decimal n). \<not> is_white c" using decimal_digits [of n] by (simp add: digit_not(1))
  show "CHR ''-'' \<notin> set (decimal n)" using decimal_digits [of n] digit_not(3) by auto
  show "CHR '','' \<notin> set (decimal n)" using decimal_digits [of n] digit_not(4) by auto
qed

lemma parse_usize_bound:
  assumes "parse_usize s = Some n"
  shows "n < 2 ^ 64"
proof -
  define ds where "ds = (case s of c # t \<Rightarrow> if c = CHR ''+'' then t else s | [] \<Rightarrow> s)"
  have "parse_usize s = (if ds = [] \<or> \<not> list_all is_digit ds then None
      else if 2 ^ 64 \<le> digits_value ds then None else Some (digits_value ds))"
    by (simp only: parse_usize_def Let_def ds_def)
  with assms show ?thesis by (simp split: if_splits)
qed

end
