(* ===== verification/Cpu_Info.thy ===== *)
theory Cpu_Info
  imports Rust_Text
begin

text \<open>
  The CPU topology (\<open>arch/cpu_info.rs\<close>): the number of cores, the NUMA nodes read from
  sysfs with the parser of CPU lists, the fallback to a single node, and the core a
  worker is given. The \<open>num_cpus\<close> crate and the file system are parameters. A \<open>usize\<close>
  that counts elements of vectors in memory is a natural number.
\<close>

subsection \<open>Data\<close>

record NumaNode =
  node_id :: nat
  node_cores :: "nat list"

definition core_count :: "NumaNode \<Rightarrow> nat" where
  "core_count n = length (node_cores n)"

record CpuInfo =
  logical_cores :: nat
  physical_cores :: "nat option"
  numa_nodes :: "NumaNode list"
  numa_available :: bool

definition is_numa_available :: "CpuInfo \<Rightarrow> bool" where
  "is_numa_available info = numa_available info"

text \<open>The debug text shows the number of nodes only.\<close>

definition debug_cpu_info :: "CpuInfo \<Rightarrow> string" where
  "debug_cpu_info info =
     ''CpuInfo { logical_cores: '' @ decimal (logical_cores info) @
     '', physical_cores: '' @ debug_usize_option (physical_cores info) @
     '', numa_nodes: '' @ decimal (length (numa_nodes info)) @
     '', numa_available: '' @ debug_bool (numa_available info) @ '' }''"

text \<open>What the \<open>num_cpus\<close> crate answers.\<close>

record num_cpus =
  cpus_logical :: nat
  cpus_physical :: nat

text \<open>
  The directory \<open>/sys/devices/system/node\<close>: whether it exists, whether it can be listed,
  and per entry whether the entry can be read, its name and its file \<open>cpulist\<close>.
\<close>

datatype cpulist_file = Missing | Unreadable | Contents string

record sysfs =
  node_dir_exists :: bool
  node_dir :: "(string \<times> cpulist_file) option list option"

datatype io_error = IoError

subsection \<open>Parsing a CPU list\<close>

text \<open>
  A vector of \<open>usize\<close> holds less than \<open>2 ^ 60\<close> elements; growing it further panics.
  Nothing is said here about a system that has not that much memory.
\<close>

definition extend_range :: "nat list \<Rightarrow> nat \<Rightarrow> nat \<Rightarrow> ('e, nat list) outcome" where
  "extend_range cores a b =
     (if 2 ^ 60 \<le> length cores + (Suc b - a) then Panic CapacityOverflow
      else Ok (cores @ [a..<Suc b]))"

definition parse_part :: "string \<Rightarrow> nat list \<Rightarrow> ('e, nat list) outcome" where
  "parse_part part cores =
     (if CHR ''-'' \<in> set part then
        (case split_on (CHR ''-'') part of
           [l, r] \<Rightarrow>
             (case (parse_usize (trim l), parse_usize (trim r)) of
                (Some a, Some b) \<Rightarrow> extend_range cores a b
              | _ \<Rightarrow> Ok cores)
         | _ \<Rightarrow> Ok cores)
      else
        (case parse_usize (trim part) of
           Some c \<Rightarrow> extend_range cores c c
         | None \<Rightarrow> Ok cores))"

primrec parse_parts :: "string list \<Rightarrow> nat list \<Rightarrow> ('e, nat list) outcome" where
  "parse_parts [] cores = Ok cores"
| "parse_parts (p # ps) cores = bind_outcome (parse_part p cores) (parse_parts ps)"

definition parse_cpu_list :: "string \<Rightarrow> ('e, nat list) outcome" where
  "parse_cpu_list cpulist = parse_parts (split_on (CHR '','') cpulist) []"

subsection \<open>Detecting the nodes\<close>

primrec numa_entries ::
  "(string \<times> cpulist_file) option list \<Rightarrow> NumaNode list \<Rightarrow> (io_error, NumaNode list) outcome" where
  "numa_entries [] nodes = Ok nodes"
| "numa_entries (e # es) nodes =
     (case e of
        None \<Rightarrow> Err IoError
      | Some (name, file) \<Rightarrow>
          (if \<not> starts_with ''node'' name then numa_entries es nodes
           else
             (case parse_usize (trim_start_matches ''node'' name) of
                None \<Rightarrow> numa_entries es nodes
              | Some i \<Rightarrow>
                  (case file of
                     Missing \<Rightarrow> numa_entries es nodes
                   | Unreadable \<Rightarrow> Err IoError
                   | Contents text \<Rightarrow>
                       bind_outcome (parse_cpu_list text) (\<lambda>cores.
                         numa_entries es (nodes @ [\<lparr>node_id = i, node_cores = cores\<rparr>]))))))"

definition detect_numa_linux :: "sysfs \<Rightarrow> (io_error, NumaNode list) outcome" where
  "detect_numa_linux fs =
     (if \<not> node_dir_exists fs then Ok []
      else
        (case node_dir fs of
           None \<Rightarrow> Err IoError
         | Some es \<Rightarrow> numa_entries es []))"

text \<open>An error or an empty list of nodes falls back to one node with all cores.\<close>

definition detect_numa_nodes :: "sysfs \<Rightarrow> nat \<Rightarrow> ('e, NumaNode list \<times> bool) outcome" where
  "detect_numa_nodes fs logical =
     (let fallback = Ok ([\<lparr>node_id = 0, node_cores = [0..<logical]\<rparr>], False) in
      case detect_numa_linux fs of
        Ok nodes \<Rightarrow> (if nodes \<noteq> [] then Ok (nodes, True) else fallback)
      | Err e \<Rightarrow> fallback
      | Panic e \<Rightarrow> Panic e
      | UB \<Rightarrow> UB)"

definition detect :: "num_cpus \<Rightarrow> sysfs \<Rightarrow> ('e, CpuInfo) outcome" where
  "detect cpus fs =
     (let logical = cpus_logical cpus;
          physical = (if 0 < cpus_physical cpus then Some (cpus_physical cpus) else None)
      in bind_outcome (detect_numa_nodes fs logical) (\<lambda>(nodes, available). Ok
           \<lparr>logical_cores = logical, physical_cores = physical, numa_nodes = nodes,
            numa_available = available\<rparr>))"

subsection \<open>The core of a worker\<close>

definition rem_cores :: "nat \<Rightarrow> nat \<Rightarrow> ('e, nat) outcome" where
  "rem_cores a b = (if b = 0 then Panic DivisionByZero else Ok (a mod b))"

text \<open>The loop over the nodes; \<open>None\<close> when no node has the worker.\<close>

primrec node_for_worker ::
  "nat \<Rightarrow> nat \<Rightarrow> NumaNode list \<Rightarrow> ('e, nat option) outcome" where
  "node_for_worker w sofar [] = Ok None"
| "node_for_worker w sofar (node # nodes) =
     (let upto = sofar + core_count node in
      if w < upto then
        let local_idx = w - (upto - core_count node) in
        bind_outcome (rem_cores local_idx (core_count node)) (\<lambda>k.
          if k < length (node_cores node) then Ok (Some (node_cores node ! k))
          else Panic IndexOutOfBounds)
      else node_for_worker w upto nodes)"

definition get_core_for_worker :: "CpuInfo \<Rightarrow> nat \<Rightarrow> ('e, nat) outcome" where
  "get_core_for_worker info w =
     (if \<not> numa_available info \<or> numa_nodes info = [] then rem_cores w (logical_cores info)
      else
        bind_outcome (node_for_worker w 0 (numa_nodes info)) (\<lambda>r.
          case r of
            Some c \<Rightarrow> Ok c
          | None \<Rightarrow> rem_cores w (logical_cores info)))"

subsection \<open>The topology of the tests\<close>

primrec mock_nodes :: "nat \<Rightarrow> nat \<Rightarrow> nat list \<Rightarrow> nat \<Rightarrow> NumaNode list" where
  "mock_nodes per_node remaining [] core_idx = []"
| "mock_nodes per_node remaining (i # is) core_idx =
     (let extra = (if 0 < remaining then 1 else 0);
          count = per_node + extra
      in \<lparr>node_id = i, node_cores = [core_idx..<core_idx + count]\<rparr> #
         mock_nodes per_node (remaining - 1) is (core_idx + count))"

definition mock :: "nat \<Rightarrow> nat \<Rightarrow> CpuInfo" where
  "mock logical nodes =
     \<lparr>logical_cores = logical, physical_cores = Some (logical div 2),
      numa_nodes =
        (if 0 < nodes then mock_nodes (logical div nodes) (logical mod nodes) [0..<nodes] 0
         else [\<lparr>node_id = 0, node_cores = [0..<logical]\<rparr>]),
      numa_available = 0 < nodes\<rparr>"

subsection \<open>The list of a rendered CPU list\<close>

text \<open>A CPU list as the kernel prints it: single cores and ranges, and a newline.\<close>

definition render_range :: "nat \<times> nat \<Rightarrow> string" where
  "render_range = (\<lambda>(a, b). if a = b then decimal a else decimal a @ ''-'' @ decimal b)"

fun render_ranges :: "(nat \<times> nat) list \<Rightarrow> string" where
  "render_ranges [] = ''''"
| "render_ranges [r] = render_range r"
| "render_ranges (r # rs) = render_range r @ '','' @ render_ranges rs"

definition range_cores :: "(nat \<times> nat) list \<Rightarrow> nat list" where
  "range_cores rs = concat (map (\<lambda>(a, b). [a..<Suc b]) rs)"

lemma render_range_comma: "CHR '','' \<notin> set (render_range r)"
  using decimal_clean(3) by (auto simp: render_range_def split: prod.split)

text \<open>White space around a rendered range, such as the final newline, does no harm.\<close>

lemma trim_decimal_white: "\<forall>c\<in>set w. is_white c \<Longrightarrow> trim (decimal n @ w) = decimal n"
  using trim_white_end [of "decimal n" w "[]"] decimal_clean(1) [of n] by simp

lemma white_not_minus: "\<forall>c\<in>set w. is_white c \<Longrightarrow> CHR ''-'' \<notin> set w \<and> CHR '','' \<notin> set w"
  by (auto simp: is_white_def)

lemma parse_part_render:
  assumes "a < 2 ^ 64" "b < 2 ^ 64" "\<forall>c\<in>set w. is_white c"
    and "length cores + (Suc b - a) < 2 ^ 60"
  shows "parse_part (render_range (a, b) @ w) cores = Ok (cores @ [a..<Suc b])"
proof (cases "a = b")
  case True
  then show ?thesis
    using assms decimal_clean(2) [of b] white_not_minus [OF assms(3)]
      trim_decimal_white [OF assms(3), of b] parse_usize_decimal [OF assms(2)]
    by (simp add: parse_part_def render_range_def extend_range_def)
next
  case False
  have "split_on (CHR ''-'') (decimal a @ CHR ''-'' # (decimal b @ w)) = [decimal a, decimal b @ w]"
    using split_on_append [OF decimal_clean(2)] decimal_clean(2) white_not_minus [OF assms(3)]
    by (simp add: split_on_none)
  moreover have "trim (decimal a) = decimal a" by (rule trim_id [OF decimal_clean(1)])
  ultimately show ?thesis
    using assms False trim_decimal_white [OF assms(3), of b] parse_usize_decimal [OF assms(1)]
      parse_usize_decimal [OF assms(2)]
    by (simp add: parse_part_def render_range_def extend_range_def)
qed

lemma parse_parts_render:
  fixes cores :: "nat list"
  assumes "\<forall>(a, b)\<in>set rs. a < 2 ^ 64 \<and> b < 2 ^ 64" "\<forall>c\<in>set w. is_white c" "rs \<noteq> []"
    and "length cores + length (range_cores rs) < 2 ^ 60"
  shows "parse_parts (split_on (CHR '','') (render_ranges rs @ w)) cores =
    Ok (cores @ range_cores rs)"
  using assms
proof (induction rs arbitrary: cores rule: render_ranges.induct)
  case 1
  then show ?case by simp
next
  case (2 r)
  obtain a b where r: "r = (a, b)" by (cases r)
  have "CHR '','' \<notin> set (render_range r @ w)"
    using render_range_comma white_not_minus [OF 2(2)] by simp
  then show ?case
    using 2 by (simp add: split_on_none range_cores_def r parse_part_render del: upt_Suc)
next
  case (3 r r' rs)
  obtain a b where r: "r = (a, b)" by (cases r)
  have s: "split_on (CHR '','') (render_ranges (r # r' # rs) @ w) =
      render_range r # split_on (CHR '','') (render_ranges (r' # rs) @ w)"
    using split_on_append [OF render_range_comma] by simp
  have p: "parse_part (render_range r) cores = Ok (cores @ [a..<Suc b])"
    using 3(2,5) parse_part_render [of a b "[]" cores, unfolded append_Nil2]
    by (simp add: range_cores_def r del: upt_Suc)
  have "length (cores @ [a..<Suc b]) + length (range_cores (r' # rs)) < 2 ^ 60"
    using 3(5) by (simp add: range_cores_def r del: upt_Suc)
  then show ?case
    unfolding s using 3(1) [of "cores @ [a..<Suc b]"] 3(2,3)
    by (simp add: p [unfolded r] range_cores_def r del: upt_Suc)
qed

subsection \<open>The cores of the workers\<close>

definition all_cores :: "CpuInfo \<Rightarrow> nat list" where
  "all_cores info = concat (map node_cores (numa_nodes info))"

lemma node_for_worker_eq:
  assumes "sofar \<le> w"
  shows "node_for_worker w sofar nodes =
    (let cs = concat (map node_cores nodes)
     in Ok (if w - sofar < length cs then Some (cs ! (w - sofar)) else None))"
  using assms
proof (induction nodes arbitrary: sofar)
  case (Cons n ns)
  show ?case
  proof (cases "w < sofar + core_count n")
    case True
    then have "w - sofar < length (node_cores n)" using Cons.prems by (simp add: core_count_def)
    moreover from this have "node_cores n \<noteq> []" by auto
    ultimately show ?thesis
      using True by (simp add: rem_cores_def core_count_def nth_append)
  next
    case False
    then show ?thesis
      using Cons.IH [of "sofar + core_count n"] Cons.prems
      by (auto simp: Let_def core_count_def nth_append not_less diff_diff_eq)
  qed
qed simp

lemma get_core_for_worker_eq:
  "get_core_for_worker info w =
     (if numa_available info \<and> w < length (all_cores info) then Ok (all_cores info ! w)
      else rem_cores w (logical_cores info))"
  by (auto simp: get_core_for_worker_def node_for_worker_eq all_cores_def)

lemma mock_nodes_cores:
  "concat (map node_cores (mock_nodes per_node r is c)) =
     [c..<c + length is * per_node + min r (length is)]"
proof (induction "is" arbitrary: r c)
  case (Cons i "is")
  let ?k = "per_node + (if 0 < r then 1 else 0)"
  let ?e = "c + length (i # is) * per_node + min r (length (i # is))"
  let ?rest = "length is * per_node + min (r - 1) (length is)"
  have e: "?e = (c + ?k) + ?rest" by (cases r) auto
  have "[c..<?e] = [c..<c + ?k] @ [c + ?k..<(c + ?k) + ?rest]"
    unfolding e by (rule upt_add_eq_append) simp
  then show ?case using Cons [of "r - 1" "c + ?k"] by (simp add: Let_def add.assoc)
qed simp

end
