(* ===== verification/Ring_Numa.thy ===== *)
theory Ring_Numa
  imports Ring_Create Cpu_Info
begin

text \<open>
  \<open>create_numa_aware\<close> (\<open>ring/buffer.rs\<close>): a ring bound to a NUMA node, with the fallback to
  an ordinary creation. The system call \<open>mbind\<close> is a parameter; its result is only logged.
\<close>

datatype numa_log = MemoryBound nat | BindFailed nat

definition MPOL_BIND :: nat where "MPOL_BIND = 2"
definition MPOL_MF_STRICT :: nat where "MPOL_MF_STRICT = 1"

text \<open>
  \<open>1 << numa_node\<close> as a \<open>u64\<close>: a debug build panics where the shift reaches the width, a
  release build takes the distance modulo the width.
\<close>

definition node_mask :: "profile \<Rightarrow> nat \<Rightarrow> ('e, u64) outcome" where
  "node_mask p node = overflowing p (64 \<le> node) (push_bit (node mod 64) 1)"

text \<open>
  The result of the call (zero for success) by the length of the mapping, the policy, the
  mask, the size of the mask and the flags.
\<close>

type_synonym mbind_call = "u64 \<Rightarrow> nat \<Rightarrow> u64 \<Rightarrow> nat \<Rightarrow> nat \<Rightarrow> int"

definition bind_memory :: "mbind_call \<Rightarrow> u64 \<Rightarrow> u64 \<Rightarrow> nat \<Rightarrow> numa_log" where
  "bind_memory mbind len nodemask node =
     (if mbind len MPOL_BIND nodemask 64 MPOL_MF_STRICT \<noteq> 0 then BindFailed node else MemoryBound node)"

definition create_numa_aware ::
  "profile \<Rightarrow> os \<Rightarrow> mbind_call \<Rightarrow> num_cpus \<Rightarrow> sysfs \<Rightarrow> 'u uuid_crate \<Rightarrow> clock
    \<Rightarrow> ring_options \<Rightarrow> nat \<Rightarrow> (ring_error, ring_buffer \<times> mem) outcome \<times> numa_log list" where
  "create_numa_aware p W mbind cpus fs U now opts node =
     and_then (detect cpus fs, []) (\<lambda>info log.
          (if \<not> is_numa_available info \<or> length (numa_nodes info) \<le> node
           then (ring_create p W U now opts, log)
           else if \<not> os_open W then (Err CreateFailed, log)
           else if \<not> os_set_len W (opt_size opts) then (Err ResizeFailed, log)
           else if \<not> os_map W (unat (opt_size opts)) then (Err MapFailed, log)
           else
             let m0 = replicate (unat (opt_size opts)) 0 in
             and_then (node_mask p node, log) (\<lambda>nodemask log.
             let log1 = log @ [bind_memory mbind (opt_size opts) nodemask node] in
             and_then (header_new p (opt_size opts) (opt_slot_size opts) (as_secs now), log1) (\<lambda>h log1.
             if length m0 < sizeof_RingHeader then (UB, log1)
             else
               let m1 = register_producer (set_numa_node (of_nat node) (write_header h m0)) in
               and_then (reset_slots p U (opt_slot_size opts) [0..<unat (slot_count m1)] m1, log1)
                 (\<lambda>m2 log1.
               (Ok (\<lparr>rb_path = opt_path opts, rb_size = opt_size opts,
                     rb_slot_size = opt_slot_size opts, rb_is_producer = True\<rparr>, m2), log1))))))"

lemma node_mask_fits: "node < 64 \<Longrightarrow> node_mask p node = Ok (push_bit node 1)"
  by (simp add: node_mask_def overflowing_def)

lemma create_numa_valid:
  assumes opts: "valid_options opts" and os: "os_ok W opts"
    and info: "detect cpus fs = (Ok info :: (ring_error, _) outcome)" "numa_available info" "node < length (numa_nodes info)" "node < 64"
  obtains m where
    "create_numa_aware p W mbind cpus fs U now opts node =
      (Ok (created opts, m), [bind_memory mbind (opt_size opts) (push_bit node 1) node])"
    "length m = unat (opt_size opts)" "ring_wf (created opts) m"
    "ring_queue (created opts) m = []" "unat (slot_count m) = options_slot_count opts"
    "validate m" "active_producers m = 1" "numa_node m = of_nat node"
proof -
  let ?rb = "created opts" and ?m0 = "replicate (unat (opt_size opts)) (0 :: u8)"
  obtain h where h: "header_new p (opt_size opts) (opt_slot_size opts) (as_secs now) = Ok h"
    and len: "sizeof_RingHeader \<le> unat (opt_size opts)"
    and f: "fresh_header opts now 0 0 (write_header h ?m0)"
      "unat (slot_count (write_header h ?m0)) = options_slot_count opts"
      "ring_geometry ?rb (write_header h ?m0)"
    by (rule header_written [OF opts, of p now]) (rule that)
  let ?m1 = "register_producer (set_numa_node (of_nat node) (write_header h ?m0))"
  have "fresh_header opts now 0 (of_nat node) (set_numa_node (of_nat node) (write_header h ?m0))"
    using fresh_header_register(2) [OF f(1)] len by simp
  then have f1: "fresh_header opts now 1 (of_nat node) ?m1"
    using fresh_header_register(1) len by fastforce
  then have i1: "producer_idx ?m1 = 0" "consumer_idx ?m1 = 0" by (simp_all add: fresh_header_def)
  have n1: "unat (slot_count ?m1) = options_slot_count opts" by (simp add: counters_other f(2))
  have geo1: "ring_geometry ?rb ?m1" using f(3) by (simp add: ring_geometry_def counters_other)
  obtain m where r: "reset_slots p U (rb_slot_size ?rb) [0..<unat (slot_count ?m1)] ?m1 = Ok m"
    and ch: "changes_only sizeof_RingHeader (length ?m1) ?m1 m"
    and m: "ring_wf ?rb m" "ring_queue ?rb m = []"
    by (rule reset_all_slots [OF geo1 i1, of p U]) (rule that)
  note fr = header_frame [OF ch order_refl]
  have fm: "fresh_header opts now 1 (of_nat node) m" using f1 by (simp add: fresh_header_def fr)
  have "create_numa_aware p W mbind cpus fs U now opts node =
      (Ok (?rb, m), [bind_memory mbind (opt_size opts) (push_bit node 1) node])"
    using os len h r [unfolded created_def ring_buffer.simps] info
    by (simp add: create_numa_aware_def is_numa_available_def os_ok_def Let_def created_def node_mask_fits)
  moreover have "validate m"
    by (rule fresh_header_validate [OF fm opts ring_geometryD(4) [OF ring_wfD(1) [OF m(1)]]])
  ultimately show ?thesis
    using that [of m] m fm n1 changes_only_length [OF ch] by (simp add: fr fresh_header_def)
qed

lemma create_numa_fallback:
  "detect cpus fs = (Ok info :: (ring_error, _) outcome) \<Longrightarrow> \<not> numa_available info \<or> length (numa_nodes info) \<le> node \<Longrightarrow>
   create_numa_aware p W mbind cpus fs U now opts node = (ring_create p W U now opts, [])"
  by (auto simp: create_numa_aware_def is_numa_available_def)

end
