(* ===== verification/Bench_Ring.thy ===== *)
theory Bench_Ring
  imports Ring_Limits Ring_Create Ring_Demo Ring_Numa
begin

text \<open>
  The ring benchmarks: \<open>benchmark_ring_buffer\<close> and \<open>benchmark_numa_ring_buffer\<close> of
  \<open>examples/perf_benchmark.rs\<close>, and \<open>main\<close> of \<open>examples/numa_ring_buffer.rs\<close> up to its
  multi-producer test. Each writes ten thousand entries before it reads the first one.
  The measured times and the printing are left out.
\<close>

subsection \<open>Writing and reading in a row\<close>

text \<open>\<open>for _ in 0..n { ring.write(kind, data)?; }\<close> from call number \<open>i\<close> on.\<close>

primrec write_all ::
  "profile \<Rightarrow> 'u uuid_crate \<Rightarrow> (nat \<Rightarrow> 'u write_ctx) \<Rightarrow> ring_buffer \<Rightarrow> operation_kind \<Rightarrow> u8 list
    \<Rightarrow> nat \<Rightarrow> nat \<Rightarrow> mem \<Rightarrow> (ring_error, unit) outcome \<times> mem" where
  "write_all p U c rb kind data i 0 m = (Ok (), m)"
| "write_all p U c rb kind data i (Suc n) m =
     and_then (ring_write p U (wc_env (c i)) (wc_uuid (c i)) (wc_now (c i)) rb kind data m)
       (\<lambda>_. write_all p U c rb kind data (Suc i) n)"

text \<open>\<open>for _ in 0..n { let result = ring.read()?; assert!(result.is_some()); }\<close>.\<close>

primrec read_all ::
  "profile \<Rightarrow> 'u uuid_crate \<Rightarrow> (nat \<Rightarrow> nat) \<Rightarrow> ring_buffer \<Rightarrow> nat \<Rightarrow> nat \<Rightarrow> mem
    \<Rightarrow> (ring_error, unit) outcome \<times> mem" where
  "read_all p U sp rb i 0 m = (Ok (), m)"
| "read_all p U sp rb i (Suc n) m =
     and_then (ring_read p U (sp i) rb m) (\<lambda>r m1.
       if r = None then (Panic AssertionFailed, m1) else read_all p U sp rb (Suc i) n m1)"

text \<open>
  \<open>while count < n { if let Some(_) = ring.read().unwrap() { count += 1; } }\<close>, which does
  not end (\<open>None\<close>) while the ring stays empty.
\<close>

partial_function (option) drain ::
  "profile \<Rightarrow> 'u uuid_crate \<Rightarrow> (nat \<Rightarrow> nat) \<Rightarrow> ring_buffer \<Rightarrow> nat \<Rightarrow> nat \<Rightarrow> mem
    \<Rightarrow> ((ring_error, unit) outcome \<times> mem) option" where
  "drain p U sp rb i n m =
     (if n = 0 then Some (Ok (), m)
      else
        (case ring_read p U (sp i) rb m of
           (Ok (Some _), m1) \<Rightarrow> drain p U sp rb (Suc i) (n - 1) m1
         | (Ok None, m1) \<Rightarrow> drain p U sp rb (Suc i) n m1
         | (Err e, m1) \<Rightarrow> Some (Panic UnwrapFailed, m1)
         | (Panic z, m1) \<Rightarrow> Some (Panic z, m1)
         | (UB, m1) \<Rightarrow> Some (UB, m1)))"

subsection \<open>The benchmarks of \<open>perf_benchmark.rs\<close>\<close>

definition ITERATIONS :: nat where "ITERATIONS = 10000"
definition DATA_SIZE :: nat where "DATA_SIZE = 4 * 1024"

definition bench_options :: "string \<Rightarrow> ring_options" where
  "bench_options path = \<lparr>opt_path = path, opt_size = 16 * 1024 * 1024, opt_slot_size = 8 * 1024\<rparr>"

definition maybe_then :: "('e, 'a) outcome \<Rightarrow> ('a \<Rightarrow> ('e, 'b) outcome option) \<Rightarrow> ('e, 'b) outcome option" where
  "maybe_then r f = (case r of Ok x \<Rightarrow> f x | Err e \<Rightarrow> Some (Err e) | Panic z \<Rightarrow> Some (Panic z) | UB \<Rightarrow> Some UB)"

definition benchmark_ring_buffer ::
  "profile \<Rightarrow> os \<Rightarrow> 'u uuid_crate \<Rightarrow> clock \<Rightarrow> (nat \<Rightarrow> 'u write_ctx) \<Rightarrow> (nat \<Rightarrow> nat)
    \<Rightarrow> (ring_error, unit) outcome option" where
  "benchmark_ring_buffer p W U now c sp =
     (let opts = bench_options ''/tmp/elgate_bench_ring'' in
      maybe_then (unwrap (ring_create p W U now opts)) (\<lambda>(ring, m).
      maybe_then (unwrap (ring_open W opts m)) (\<lambda>consumer.
      case write_all p U c ring DiskWrite (replicate DATA_SIZE 0x42) 0 ITERATIONS m of (r, m1) \<Rightarrow>
      maybe_then (unwrap r) (\<lambda>_. map_option fst (drain p U sp consumer 0 ITERATIONS m1)))))"

text \<open>The two rings are used one after the other by the one thread of the benchmark.\<close>

definition benchmark_numa_ring_buffer ::
  "profile \<Rightarrow> os \<Rightarrow> mbind_call \<Rightarrow> num_cpus \<Rightarrow> sysfs \<Rightarrow> 'u uuid_crate \<Rightarrow> clock \<Rightarrow> (nat \<Rightarrow> 'u write_ctx)
    \<Rightarrow> (ring_error, unit) outcome" where
  "benchmark_numa_ring_buffer p W mbind cpus fs U now c =
     bind_outcome (detect cpus fs) (\<lambda>info.
       if \<not> is_numa_available info \<or> length (numa_nodes info) \<le> 1 then Ok ()
       else
         bind_outcome (unwrap (ring_create p W U now (bench_options ''/tmp/elgate_bench_ring_regular'')))
           (\<lambda>(regular, m).
         bind_outcome (unwrap (fst (create_numa_aware p W mbind cpus fs U now
             (bench_options ''/tmp/elgate_bench_ring_numa'') 0))) (\<lambda>(numa, k).
         let data = replicate DATA_SIZE 0x42 in
         bind_outcome (unwrap (fst (write_all p U c regular DiskWrite data 0 ITERATIONS m))) (\<lambda>_.
         unwrap (fst (write_all p U c numa DiskWrite data ITERATIONS ITERATIONS k))))))"

subsection \<open>\<open>numa_ring_buffer.rs\<close>\<close>

definition numa_example_options :: "string \<Rightarrow> ring_options" where
  "numa_example_options path = \<lparr>opt_path = path, opt_size = 1024 * 1024, opt_slot_size = 4096\<rparr>"

text \<open>One of the two comparisons: all writes, then all reads.\<close>

definition compare_phase ::
  "profile \<Rightarrow> 'u uuid_crate \<Rightarrow> (nat \<Rightarrow> 'u write_ctx) \<Rightarrow> (nat \<Rightarrow> nat) \<Rightarrow> nat \<Rightarrow> ring_buffer \<Rightarrow> mem
    \<Rightarrow> (ring_error, unit) outcome \<times> mem" where
  "compare_phase p U c sp i ring m =
     and_then (write_all p U c ring DiskWrite (replicate 1024 42) i 10000 m) (\<lambda>_.
       read_all p U sp ring i 10000)"

text \<open>What follows the comparisons, the multi-producer test, is a parameter.\<close>

definition numa_example ::
  "profile \<Rightarrow> os \<Rightarrow> mbind_call \<Rightarrow> num_cpus \<Rightarrow> sysfs \<Rightarrow> 'u uuid_crate \<Rightarrow> clock \<Rightarrow> (nat \<Rightarrow> 'u write_ctx)
    \<Rightarrow> (nat \<Rightarrow> nat) \<Rightarrow> (ring_error, unit) outcome \<Rightarrow> (ring_error, unit) outcome" where
  "numa_example p W mbind cpus fs U now c sp multi_producer =
     bind_outcome (detect cpus fs) (\<lambda>info.
     bind_outcome (ring_create p W U now (numa_example_options ''/tmp/elgate_example_regular_ring''))
       (\<lambda>(regular, m).
     bind_outcome (fst (create_numa_aware p W mbind cpus fs U now
         (numa_example_options ''/tmp/elgate_example_numa_ring'') 0)) (\<lambda>(numa, k).
     bind_outcome (fst (compare_phase p U c sp 0 regular m)) (\<lambda>_.
     bind_outcome (fst (compare_phase p U c sp 10000 numa k)) (\<lambda>_. multi_producer)))))"

subsection \<open>How far writing without reading gets\<close>

lemma write_all_full:
  assumes "ring_geometry rb m" "indices_in_range m" "no_free_slot rb m" "\<And>j. quiet (wc_env (c j))"
    and "length data \<le> max_payload rb"
  shows "fst (write_all p U c rb kind data i n m) = (if n = 0 then Ok () else Err (RingBufferFull 10))"
  by (cases n) (simp_all add: ring_write_full(1) [OF assms])

lemma write_all_count:
  assumes "ring_wf rb m" "\<And>j. quiet (wc_env (c j))" "length data \<le> max_payload rb"
  shows "fst (write_all p U c rb kind data i n m) =
    (if pending m + n \<le> slots m then Ok () else Err (RingBufferFull 10))"
  using assms(1)
proof (induction n arbitrary: i m)
  case 0
  then have "pending m < slots m" using ring_geometryD(4) [OF ring_wfD(1)] by (intro pending_less) auto
  then show ?case by simp
next
  case (Suc n)
  note wf = Suc.prems
  have lt: "pending m < slots m" by (rule pending_less [OF ring_geometryD(4) [OF ring_wfD(1) [OF wf]]])
  let ?w = "ring_write p U (wc_env (c i)) (wc_uuid (c i)) (wc_now (c i)) rb kind data m"
  show ?case
  proof (cases "pending m + 1 < slots m")
    case True
    obtain m' where w: "?w = (Ok (producer_idx m), m')" "ring_wf rb m'"
      "ring_queue rb m' = ring_queue rb m @ [(kind, data)]" "slot_count m' = slot_count m"
      by (rule ring_write_appends [OF wf True assms(3)]) (rule that)
    have "pending m' = pending m + 1" using w(3) by (metis length_ring_queue length_append_singleton Suc_eq_plus1)
    then show ?thesis using Suc.IH [OF w(2)] by (simp add: w(1,4))
  next
    case False
    then have last: "pending m + 1 = slots m" using lt by simp
    obtain m' where w: "?w = (Ok (producer_idx m), m')" "ring_geometry rb m'" "indices_in_range m'"
      "no_free_slot rb m'"
      by (rule ring_write_last [OF wf last assms(3)]) (rule that)
    show ?thesis using write_all_full [OF w(2-4) assms(2,3)] last by (simp add: w(1))
  qed
qed

lemma bench_valid:
  "valid_options (bench_options path)" "options_slot_count (bench_options path) = 2047"
  "max_payload (created (bench_options path)) = 8128"
  by (simp_all add: valid_options_def bench_options_def options_slot_count_def max_payload_def
      created_def layout_simps)

lemma numa_example_valid:
  "valid_options (numa_example_options path)" "options_slot_count (numa_example_options path) = 255"
  "max_payload (created (numa_example_options path)) = 4032"
  by (simp_all add: valid_options_def numa_example_options_def options_slot_count_def max_payload_def
      created_def layout_simps)

text \<open>Too many writes to a ring that was just created.\<close>

lemma fresh_ring_overfilled:
  assumes "valid_options opts" "os_ok W opts" "\<And>j. quiet (wc_env (c j))"
    and "length data \<le> max_payload (created opts)" "options_slot_count opts < n"
  obtains m where "ring_create p W U now opts = Ok (created opts, m)"
    "fst (write_all p U c (created opts) kind data i n m) = Err (RingBufferFull 10)"
    "length m = unat (opt_size opts)" "validate m"
proof -
  obtain m where m: "ring_create p W U now opts = Ok (created opts, m)" "length m = unat (opt_size opts)"
    "ring_wf (created opts) m" "ring_queue (created opts) m = []"
    "unat (slot_count m) = options_slot_count opts" "validate m"
    by (rule ring_create_valid [OF assms(1,2), of p U now]) (rule that)
  have "pending m = 0" using m(4) by (metis length_ring_queue list.size(3))
  then show ?thesis
    using that m write_all_count [OF m(3) assms(3,4), where p = p and U = U and kind = kind and i = i and n = n] assms(5) by simp
qed

lemma numa_created:
  assumes "valid_options opts" "os_ok W opts" "detect cpus fs = (Ok info :: (ring_error, _) outcome)"
  obtains m where "fst (create_numa_aware p W mbind cpus fs U now opts 0) = Ok (created opts, m)"
proof (cases "numa_available info \<and> 0 < length (numa_nodes info)")
  case True
  then show ?thesis
    using create_numa_valid [OF assms, of 0 p mbind U now] that by (metis fst_conv zero_less_numeral)
next
  case False
  obtain m where "ring_create p W U now opts = Ok (created opts, m)"
    by (rule ring_create_valid [OF assms(1,2), of p U now]) (rule that)
  then show ?thesis
    using that create_numa_fallback [OF assms(3), of 0 p W mbind U now opts] False by auto
qed

subsection \<open>The properties\<close>

text \<open>
  Writing to a ring without reading succeeds exactly as often as it has free slots,
  the last time included that makes the ring look empty; the next write fails with the
  error of a full ring.
\<close>

theorem writes_until_full:
  assumes "ring_wf rb m" "\<forall>j. quiet (wc_env (c j))" "length data \<le> max_payload rb"
  shows "fst (write_all p U c rb kind data i n m) =
    (if length (ring_queue rb m) + n \<le> slots m then Ok () else Err (RingBufferFull 10))"
proof -
  have q: "\<And>j. quiet (wc_env (c j))" using assms(2) by simp
  show ?thesis by (simp add: write_all_count [OF assms(1) q assms(3)])
qed

theorem writes_until_full_demo:
  "fst (write_all Debug demo_uuid (\<lambda>_. demo_ctx) demo_ring DiskWrite [1, 2] 0 4 demo_mem) = Ok () \<and>
   fst (write_all Debug demo_uuid (\<lambda>_. demo_ctx) demo_ring DiskWrite [1, 2] 0 5 demo_mem) =
     Err (RingBufferFull 10)"
  using writes_until_full [OF demo_created(2), of "\<lambda>_. demo_ctx" "[1, 2]" Debug demo_uuid DiskWrite 0]
  by (simp_all add: demo_ctx_def demo_valid demo_created)

text \<open>
  C30: The ring benchmarks never get to their reads: whenever the system lets them create
  their rings and nobody else uses the files, the benchmark of \<open>perf_benchmark.rs\<close> panics
  at its 2048th write, the NUMA benchmark does so wherever it is not skipped, and the
  NUMA example ends with the error of a full ring at its 256th.
\<close>

theorem benchmarks_overfill_their_rings:
  assumes "os_open W" "\<forall>n. os_set_len W n" "\<forall>n. os_map W n" "\<forall>j. quiet (wc_env (c j))"
    and "detect cpus fs = (Ok info :: (ring_error, _) outcome)"
  shows "benchmark_ring_buffer p W U now c sp = Some (Panic UnwrapFailed) \<and>
    (is_numa_available info \<and> 1 < length (numa_nodes info) \<longrightarrow>
      benchmark_numa_ring_buffer p W mbind cpus fs U now c = Panic UnwrapFailed) \<and>
    numa_example p W mbind cpus fs U now c sp rest = Err (RingBufferFull 10)"
proof -
  have os: "os_ok W opts" for opts using assms(1-3) by (simp add: os_ok_def)
  have q: "\<And>j. quiet (wc_env (c j))" using assms(4) by simp
  have len: "length (replicate DATA_SIZE (0x42 :: u8)) \<le> max_payload (created (bench_options path))"
    "options_slot_count (bench_options path) < ITERATIONS" for path
    by (simp_all add: bench_valid DATA_SIZE_def ITERATIONS_def)
  note bench = fresh_ring_overfilled [OF bench_valid(1) os q len, where p = p and U = U and now = now and kind = DiskWrite and i = 0]
  let ?b = "bench_options ''/tmp/elgate_bench_ring''"
  obtain m where m: "ring_create p W U now ?b = Ok (created ?b, m)"
    "fst (write_all p U c (created ?b) DiskWrite (replicate DATA_SIZE 0x42) 0 ITERATIONS m) = Err (RingBufferFull 10)"
    "length m = unat (opt_size ?b)" "validate m"
    by (rule bench)
  have "ring_open W ?b m = Ok (opened ?b m)"
    using assms(1,3) m(3,4) by (simp add: ring_open_Ok_iff bench_options_def layout_simps)
  then have 1: "benchmark_ring_buffer p W U now c sp = Some (Panic UnwrapFailed)"
    using m(1,2) by (simp add: benchmark_ring_buffer_def maybe_then_def split_beta)
  let ?r = "bench_options ''/tmp/elgate_bench_ring_regular''"
  obtain m2 where "ring_create p W U now ?r = Ok (created ?r, m2)"
    "fst (write_all p U c (created ?r) DiskWrite (replicate DATA_SIZE 0x42) 0 ITERATIONS m2) = Err (RingBufferFull 10)"
    by (rule bench)
  moreover obtain k where "fst (create_numa_aware p W mbind cpus fs U now
      (bench_options ''/tmp/elgate_bench_ring_numa'') 0) = Ok (created (bench_options ''/tmp/elgate_bench_ring_numa''), k)"
    by (rule numa_created [OF bench_valid(1) os assms(5)])
  ultimately have 2: "is_numa_available info \<and> 1 < length (numa_nodes info) \<longrightarrow>
      benchmark_numa_ring_buffer p W mbind cpus fs U now c = Panic UnwrapFailed"
    using assms(5) by (simp add: benchmark_numa_ring_buffer_def)
  let ?e = "numa_example_options ''/tmp/elgate_example_regular_ring''"
  have fit: "length (replicate 1024 (42 :: u8)) \<le> max_payload (created ?e)" "options_slot_count ?e < 10000"
    by (simp_all add: numa_example_valid)
  obtain m3 where "ring_create p W U now ?e = Ok (created ?e, m3)"
    "fst (write_all p U c (created ?e) DiskWrite (replicate 1024 42) 0 10000 m3) = Err (RingBufferFull 10)"
    by (rule fresh_ring_overfilled [OF numa_example_valid(1) os q fit, where p = p and U = U and now = now and kind = DiskWrite and i = 0])
  moreover obtain k where "fst (create_numa_aware p W mbind cpus fs U now
      (numa_example_options ''/tmp/elgate_example_numa_ring'') 0) =
      Ok (created (numa_example_options ''/tmp/elgate_example_numa_ring''), k)"
    by (rule numa_created [OF numa_example_valid(1) os assms(5)])
  ultimately have "numa_example p W mbind cpus fs U now c sp rest = Err (RingBufferFull 10)"
    using assms(5) by (simp add: numa_example_def compare_phase_def and_then_def split_beta)
  with 1 2 show ?thesis by blast
qed

theorem benchmarks_overfill_their_rings_demo:
  "benchmark_ring_buffer Release demo_os demo_uuid None (\<lambda>_. demo_ctx) (\<lambda>_. 0) = Some (Panic UnwrapFailed) \<and>
   numa_example Debug demo_os (\<lambda>_ _ _ _ _. 0) \<lparr>cpus_logical = 4, cpus_physical = 4\<rparr>
     \<lparr>node_dir_exists = False, node_dir = None\<rparr> demo_uuid None (\<lambda>_. demo_ctx) (\<lambda>_. 0) (Ok ()) =
     Err (RingBufferFull 10)"
proof -
  let ?cpus = "\<lparr>cpus_logical = 4, cpus_physical = 4\<rparr>" and ?fs = "\<lparr>node_dir_exists = False, node_dir = None\<rparr>"
  have d: "(detect ?cpus ?fs :: (ring_error, _) outcome) =
      Ok \<lparr>logical_cores = 4, physical_cores = Some 4, numa_nodes = [\<lparr>node_id = 0, node_cores = [0..<4]\<rparr>],
         numa_available = False\<rparr>"
    by (simp add: detect_def detect_numa_nodes_def detect_numa_linux_def Let_def)
  show ?thesis
    using benchmarks_overfill_their_rings [of demo_os "\<lambda>_. demo_ctx" ?cpus ?fs, OF _ _ _ _ d,
        of _ demo_uuid None "\<lambda>_. 0" "\<lambda>_ _ _ _ _. 0" "Ok ()"]
    by (simp add: demo_os_def demo_ctx_def demo_valid)
qed

end
