(* ===== verification/Ring_Counts.thy ===== *)
theory Ring_Counts
  imports Ring_Writers
begin

text \<open>
  Writers and one reader, interleaved access by access: the reader never gets more entries
  than writes have succeeded. A slot becomes ready only by the last store of a write that
  succeeds, and the one reader takes it away before it returns its entry.
\<close>

subsection \<open>Ready slots\<close>

definition ready_slots :: "ring_buffer \<Rightarrow> mem \<Rightarrow> nat set" where
  "ready_slots rb m = {k. k < slots m \<and> status (slot_at rb k) m = Ready}"

lemma finite_ready [simp]: "finite (ready_slots rb m)"
  by (simp add: ready_slots_def)

lemma bumps_change:
  "changes_only 0 sizeof_RingHeader m (bump_producer m)"
  "changes_only 0 sizeof_RingHeader m (bump_consumer m)"
  by (simp_all add: bump_producer_def bump_consumer_def atomic_changes_only layout_simps)

lemma header_access:
  assumes "ring_safe rb m" "point_ok rb (slot_count m) pt" "\<forall>sts nxt. pt \<noteq> Stores sts nxt"
  shows "changes_only 0 sizeof_RingHeader m (snd (call_step p U rb rq sp pt m))"
proof (cases pt)
  case (NextCas n k c a b)
  then show ?thesis
    using assms(2) by (simp add: cas_round_producer bumps_change)
next
  case (TakeCas k c)
  then show ?thesis
    using assms(2) by (simp add: cas_round_consumer bumps_change)
next
  case (CountRead kind data)
  then show ?thesis by (simp add: counters_changes)
next
  case (FillSlot idx)
  then show ?thesis by (cases rq) simp_all
next
  case WriteBegin
  then show ?thesis by (cases rq) simp_all
next
  case ReadBegin
  then show ?thesis by (cases rq) simp_all
qed (use assms(3) in \<open>simp_all add: Let_def\<close>)

lemma ready_slots_header:
  assumes "ring_safe rb m" "changes_only 0 sizeof_RingHeader m m'" "slot_count m' = slot_count m"
  shows "ready_slots rb m' = ready_slots rb m"
proof -
  have "64 \<le> unat (rb_slot_size rb)" by (rule ring_safeD(3) [OF assms(1)])
  then have "status (slot_at rb k) m' = status (slot_at rb k) m" for k
    by (rule apart_status(1) [OF assms(2) apart_header])
  then show ?thesis by (simp add: ready_slots_def assms(3))
qed

text \<open>What one store does to the status of a slot.\<close>

definition stored_status :: "slot_store \<Rightarrow> slot_status option" where
  "stored_status st = (case st of SetStatus s x \<Rightarrow> Some x | _ \<Rightarrow> None)"

lemma perform_status:
  assumes "ring_safe rb m" "i < slots m" "stores_in (slot_at rb i) (st # sts)"
  shows "status (slot_at rb k) (perform st m) =
    (if k = i then (case stored_status st of Some x \<Rightarrow> x | None \<Rightarrow> status (slot_at rb i) m)
     else status (slot_at rb k) m)"
proof (cases "k = i")
  case True
  let ?s = "slot_at rb i"
  have sl: "slot_data ?s \<le> length m"
    using get_slot_safe [OF assms(1,2)] by (simp add: slot_in_def)
  have st: "store_slot st = ?s" using assms(3) by (simp add: stores_in_def)
  have "status ?s (perform st m) = (case stored_status st of Some x \<Rightarrow> x | None \<Rightarrow> status ?s m)"
  proof (cases st)
    case (SetIdWord t j w)
    then have t: "t = ?s" using st by simp
    have "changes_only (id_word ?s j) (id_word ?s j + 4) m (perform st m)"
      by (simp add: SetIdWord t atomic_changes_only)
    then have "status ?s (perform st m) = status ?s m"
      by (rule status_field.get_local) (simp add: id_word_def layout_simps)
    then show ?thesis by (simp add: SetIdWord stored_status_def)
  qed (use st sl in \<open>simp_all add: stored_status_def slot_simps\<close>)
  then show ?thesis using True by simp
next
  case False
  have "64 \<le> unat (rb_slot_size rb)" by (rule ring_safeD(3) [OF assms(1)])
  then have "apart (slot_at rb k) (slot_base (slot_at rb i)) (slot_end (slot_at rb i))"
    using False by (intro apart_slot) simp_all
  then show ?thesis
    using False apart_status(1) [OF perform_in_slot [OF assms(3)]] by simp
qed

lemma ready_slots_store:
  assumes "ring_safe rb m" "i < slots m" "stores_in (slot_at rb i) (st # sts)"
    "slot_count (perform st m) = slot_count m"
  shows "ready_slots rb (perform st m) =
    (case stored_status st of None \<Rightarrow> ready_slots rb m
     | Some x \<Rightarrow> if x = Ready then insert i (ready_slots rb m) else ready_slots rb m - {i})"
  using assms(2)
  by (auto simp: ready_slots_def perform_status [OF assms(1-3)] assms(4) split: option.splits if_splits)

lemma slot_at_inj: "64 \<le> unat (rb_slot_size rb) \<Longrightarrow> slot_at rb i = slot_at rb j \<Longrightarrow> i = j"
  using apart_slot [of rb i j] by (cases "i = j") (auto simp: apart_def slot_end_def slot_data_def layout_simps)

subsection \<open>What is under way in a call\<close>

definition plain_store :: "slot_store \<Rightarrow> bool" where
  "plain_store st \<longleftrightarrow> stored_status st \<noteq> Some Ready \<and> stored_status st \<noteq> Some Reading"

fun got_entry :: "point \<Rightarrow> nat" where
  "got_entry (Finished (Ok (Got (Some e)))) = 1"
| "got_entry _ = 0"

text \<open>
  The last store of a write that succeeds makes its slot ready; a reader's only store
  before it loads the size takes the slot.
\<close>

fun shape :: "point \<Rightarrow> bool" where
  "shape (Stores sts nxt) \<longleftrightarrow>
     (\<exists>idx. nxt = Finished (Ok (Wrote idx))) \<and>
       (\<exists>init s. sts = init @ [SetStatus s Ready] \<and> (\<forall>st\<in>set init. plain_store st)) \<or>
     (\<forall>st\<in>set sts. plain_store st) \<and> shape nxt \<and> got_entry nxt = 0 \<or>
     (\<exists>s kind. sts = [SetStatus s Reading] \<and> nxt = LoadSize s kind)"
| "shape _ \<longleftrightarrow> True"

text \<open>An entry that the call has in hand and will return, unless its size is out of range.\<close>

fun in_reading :: "point \<Rightarrow> nat" where
  "in_reading (Stores sts nxt) = in_reading nxt"
| "in_reading (LoadSize s kind) = 1"
| "in_reading (CopyOut s kind sz) = 1"
| "in_reading (CountRead kind data) = 1"
| "in_reading _ = 0"

text \<open>The slot that the next store takes, which is still ready.\<close>

definition being_taken :: "ring_buffer \<Rightarrow> point \<Rightarrow> nat set" where
  "being_taken rb pt = (case pt of Stores sts nxt \<Rightarrow> {k. sts = [SetStatus (slot_at rb k) Reading]} | _ \<Rightarrow> {})"

fun wrote_entry :: "point \<Rightarrow> nat" where
  "wrote_entry (Finished (Ok (Wrote idx))) = 1"
| "wrote_entry _ = 0"

lemma plain_store_lists [simp]:
  "plain_store (SetOperation s k)" "plain_store (SetSize s n)" "plain_store (SetTimestamp s t)"
  "plain_store (SetIdWord s j w)" "plain_store (CopyIn s bs)"
  "plain_store (SetStatus s x) \<longleftrightarrow> x \<noteq> Ready \<and> x \<noteq> Reading"
  by (auto simp: plain_store_def stored_status_def)

lemma plain_reset [simp]:
  "st \<in> set (reset_stores U s) \<Longrightarrow> plain_store st" "st \<in> set (set_id_stores U s u) \<Longrightarrow> plain_store st"
  by (auto simp: reset_stores_def set_id_stores_def Let_def)

lemma shape_retry [simp]: "shape (retry n a b)" "in_reading (retry n a b) = 0" "got_entry (retry n a b) = 0"
  "wrote_entry (retry n a b) = 0" "being_taken rb (retry n a b) = {}"
  by (simp_all add: retry_def being_taken_def)

lemma shape_filled:
  "shape (Stores (write_data_stores s now data) (Finished (Ok (Wrote idx))))"
proof -
  have "write_data_stores s now data = [SetStatus s Writing, SetSize s (of_nat (length data)),
      SetTimestamp s (as_secs now), CopyIn s data] @ [SetStatus s Ready]"
    by (simp add: write_data_stores_def)
  then show ?thesis by (subst shape.simps, intro disjI1 conjI exI) (rule refl | simp)+
qed

lemma shape_plain: "\<forall>st\<in>set sts. plain_store st \<Longrightarrow> shape nxt \<Longrightarrow> got_entry nxt = 0 \<Longrightarrow> shape (Stores sts nxt)"
  by simp

lemma shape_fill:
  "shape (Stores (SetOperation s kind # set_id_stores U s u) (if b then Finished (Err e)
     else Stores (write_data_stores t now data) (Finished (Ok (Wrote idx)))))"
proof (rule shape_plain)
  show "shape (if b then Finished (Err e) else Stores (write_data_stores t now data) (Finished (Ok (Wrote idx))))"
    using shape_filled by simp
qed auto

lemma call_step_shape:
  assumes "shape pt"
  shows "shape (fst (call_step p U rb rq sp pt m))"
proof (cases pt)
  case WriteBegin
  then show ?thesis by (cases rq) (auto simp: proceed_def split: outcome.splits)
next
  case (LoadConsumer n P a b)
  then show ?thesis by (auto simp: proceed_def split: outcome.splits)
next
  case (NextCas n k c a b)
  then show ?thesis by (auto simp: proceed_def split: outcome.splits prod.splits sum.splits)
next
  case (TakeCas k c)
  then show ?thesis by (auto simp: proceed_def split: outcome.splits prod.splits sum.splits)
next
  case (ClaimedSlot n idx a b)
  then show ?thesis by (auto simp: proceed_def split: outcome.splits)
next
  case (CheckEmpty n idx s a b)
  then show ?thesis by auto
next
  case (CheckComplete n idx s a b)
  then show ?thesis by auto
next
  case (FillSlot idx)
  then show ?thesis
    by (cases rq; cases "get_slot p m idx (rb_slot_size rb)")
      (simp_all add: shape_fill del: shape.simps(1))
next
  case ReadBegin
  then show ?thesis by (cases rq) simp_all
next
  case (TakenSlot idx)
  then show ?thesis by (auto simp: proceed_def split: outcome.splits)
next
  case (CheckReady s)
  then show ?thesis by auto
next
  case (RecheckReady s kind)
  then show ?thesis by auto
next
  case (LoadSize s kind)
  then show ?thesis by (auto simp: Let_def)
next
  case (CopyOut s kind sz)
  then show ?thesis by simp
next
  case (Stores sts nxt)
  show ?thesis
  proof (cases sts)
    case Nil
    then show ?thesis using assms Stores by auto
  next
    case (Cons st more)
    then show ?thesis
      using assms Stores by (cases more rule: rev_cases) (auto simp: Cons_eq_append_conv)
  qed
qed simp_all

subsection \<open>The balance of an access\<close>

text \<open>An access that is not a store, and a store.\<close>

lemma ready_access:
  assumes "ring_safe rb m" "point_ok rb (slot_count m) pt" "\<forall>sts nxt. pt \<noteq> Stores sts nxt"
  shows "ready_slots rb (snd (call_step p U rb rq sp pt m)) = ready_slots rb m"
proof (rule ready_slots_header [OF assms(1) header_access [OF assms]])
  have "fixed_fields (snd (call_step p U rb rq sp pt m)) = fixed_fields m"
    using call_step_effect [OF assms(1,2)] effect_safe(2) [OF _ assms(1)] by blast
  then show "slot_count (snd (call_step p U rb rq sp pt m)) = slot_count m" by (rule fixed_fieldsD(2))
qed

lemma ready_store:
  assumes "ring_safe rb m" "point_ok rb (slot_count m) (Stores (st # sts) nxt)"
  obtains i where "i < slots m" "stores_in (slot_at rb i) (st # sts)"
    "ready_slots rb (perform st m) =
      (case stored_status st of None \<Rightarrow> ready_slots rb m
       | Some x \<Rightarrow> if x = Ready then insert i (ready_slots rb m) else ready_slots rb m - {i})"
    "call_step p U rb rq sp (Stores (st # sts) nxt) m = (if sts = [] then nxt else Stores sts nxt, perform st m)"
proof -
  obtain i where i: "i < slots m" "stores_in (slot_at rb i) (st # sts)"
    using assms(2) by (auto simp: slot_of_def)
  have "in_mapping st m" by (rule stores_in_mapping [OF i(2) get_slot_safe [OF assms(1) i(1)]])
  then have step: "call_step p U rb rq sp (Stores (st # sts) nxt) m =
      (if sts = [] then nxt else Stores sts nxt, perform st m)" by simp
  have "fixed_fields (perform st m) = fixed_fields m"
    using fixed_fields_in_slot [OF perform_in_slot [OF i(2)] ring_safeD(3) [OF assms(1)]] .
  then have "slot_count (perform st m) = slot_count m" by (rule fixed_fieldsD(2))
  from that [OF i ready_slots_store [OF assms(1) i this] step] show ?thesis .
qed

lemma plain_ready:
  assumes "plain_store st"
  shows "(case stored_status st of None \<Rightarrow> R | Some x \<Rightarrow> if x = Ready then insert i R else R - {i}) \<subseteq> R"
  using assms by (auto simp: plain_store_def split: option.splits)

lemma card_insert_minus: "finite R \<Longrightarrow> card (insert i R - H) \<le> card (R - H) + 1"
  by (cases "i \<in> H") (simp_all add: insert_Diff_if card_insert_if)

text \<open>A write.\<close>

lemma write_balance:
  assumes "ring_safe rb m" "point_ok rb (slot_count m) pt" "shape pt" "write_point pt"
  shows "card (ready_slots rb (snd (call_step p U rb rq sp pt m)) - H) \<le> card (ready_slots rb m - H) +
    (if is_finished pt then 0 else wrote_entry (fst (call_step p U rb rq sp pt m)))"
proof (cases "\<exists>sts nxt. pt = Stores sts nxt")
  case False
  then show ?thesis using ready_access [OF assms(1,2), of p U rq sp] by simp
next
  case True
  then obtain sts nxt where pt: "pt = Stores sts nxt" by blast
  have fin: "\<not> is_finished pt" by (simp add: pt is_finished_def)
  show ?thesis
  proof (cases sts)
    case Nil
    then show ?thesis by (simp add: pt)
  next
    case (Cons st more)
    obtain i where i: "ready_slots rb (perform st m) =
      (case stored_status st of None \<Rightarrow> ready_slots rb m
       | Some x \<Rightarrow> if x = Ready then insert i (ready_slots rb m) else ready_slots rb m - {i})"
      and step: "call_step p U rb rq sp pt m = (if more = [] then nxt else Stores more nxt, perform st m)"
      using ready_store [OF assms(1), of st more nxt p U rq sp] assms(2) unfolding pt Cons by metis
    show ?thesis
    proof (cases "plain_store st")
      case True
      have "card (ready_slots rb (perform st m) - H) \<le> card (ready_slots rb m - H)"
        unfolding i by (rule card_mono, simp add: finite_Diff split: option.split) (use plain_ready [OF True, where R = "ready_slots rb m" and i = i] in blast)
      then show ?thesis by (simp add: step)
    next
      case False
      then have "more = [] \<and> stored_status st = Some Ready \<and> (\<exists>idx. nxt = Finished (Ok (Wrote idx)))"
        using assms(3,4) by (auto simp: pt Cons Cons_eq_append_conv stored_status_def)
      then show ?thesis
        using card_insert_minus [of "ready_slots rb m" i H] fin by (auto simp: step i)
    qed
  qed
qed

lemma got_proceed [simp]: "(\<And>y. r = Ok y \<Longrightarrow> got_entry (f y) = 0) \<Longrightarrow> got_entry (proceed r f) = 0"
  by (cases r) simp_all

lemma write_gets_nothing:
  assumes "write_point pt" "shape pt" "\<not> is_finished pt"
  shows "got_entry (fst (call_step p U rb rq sp pt m)) = 0"
proof (cases pt)
  case WriteBegin
  then show ?thesis by (cases rq) simp_all
next
  case (FillSlot idx)
  then show ?thesis by (cases rq) simp_all
next
  case (NextCas n k c a b)
  then show ?thesis by (auto split: prod.splits sum.splits)
next
  case (Stores sts nxt)
  moreover have "got_entry nxt = 0" using assms(2) Stores by auto
  ultimately show ?thesis by (cases sts) simp_all
qed (use assms in \<open>simp_all add: is_finished_def\<close>)

text \<open>A read does not end like a write.\<close>

fun no_write :: "point \<Rightarrow> bool" where
  "no_write (Stores sts nxt) \<longleftrightarrow> no_write nxt"
| "no_write (Finished r) \<longleftrightarrow> (\<forall>idx. r \<noteq> Ok (Wrote idx))"
| "no_write _ \<longleftrightarrow> True"

lemma no_write_reply: "no_write pt \<Longrightarrow> wrote_entry pt = 0"
  by (cases pt rule: wrote_entry.cases) simp_all

lemma no_write_proceed [simp]: "(\<And>y. r = Ok y \<Longrightarrow> no_write (f y)) \<Longrightarrow> no_write (proceed r f)"
  by (cases r) simp_all

lemma call_step_no_write:
  assumes "read_point pt" "no_write pt"
  shows "no_write (fst (call_step p U rb ReadReq sp pt m))"
proof (cases pt)
  case (TakeCas k c)
  then show ?thesis by (auto split: prod.splits sum.splits)
next
  case (LoadSize s kind)
  then show ?thesis by (simp add: Let_def)
next
  case (Stores sts nxt)
  then show ?thesis using assms(2) by (cases sts) simp_all
qed (use assms in simp_all)

text \<open>A read.\<close>

lemma read_balance:
  assumes "ring_safe rb m" "point_ok rb (slot_count m) pt" "shape pt" "read_point pt"
    and x_def: "x = call_step p U rb ReadReq sp pt m"
  shows "in_reading (fst x) + (if is_finished pt then 0 else got_entry (fst x)) +
      card (ready_slots rb (snd x) - being_taken rb (fst x)) \<le>
    in_reading pt + card (ready_slots rb m - being_taken rb pt) +
      (if is_finished pt then 0 else wrote_entry (fst x))"
proof (cases "\<exists>sts nxt. pt = Stores sts nxt")
  case False
  then have r: "ready_slots rb (snd x) = ready_slots rb m" unfolding x_def by (intro ready_access [OF assms(1,2)]) simp
  have le: "card (ready_slots rb m - X) \<le> card (ready_slots rb m)" for X by (rule card_mono) auto
  show ?thesis
  proof (cases pt)
    case (RecheckReady s kind)
    obtain i where i: "i < slots m" "s = slot_at rb i"
      using assms(2) by (auto simp: RecheckReady slot_of_def)
    show ?thesis
    proof (cases "status s m = Ready")
      case True
      then have "i \<in> ready_slots rb m" using i by (simp add: ready_slots_def)
      then have "card (ready_slots rb m - {k. s = slot_at rb k}) < card (ready_slots rb m)"
        using i(2) by (intro psubset_card_mono) auto
      then show ?thesis
        using True r by (simp add: RecheckReady x_def is_finished_def being_taken_def)
    next
      case False
      then show ?thesis using le by (simp add: RecheckReady x_def being_taken_def)
    qed
  next
    case (LoadSize s kind)
    then show ?thesis using r le by (auto simp: x_def being_taken_def Let_def)
  next
    case (CopyOut s kind sz)
    then show ?thesis using r le by (auto simp: x_def being_taken_def)
  next
    case (CountRead kind data)
    then show ?thesis using r le by (auto simp: x_def being_taken_def is_finished_def)
  next
    case (TakeCas k c)
    then show ?thesis using r le by (auto simp: x_def being_taken_def proceed_def split: prod.splits outcome.splits sum.splits)
  next
    case (TakenSlot idx)
    then show ?thesis using r le by (auto simp: x_def being_taken_def proceed_def split: outcome.splits)
  next
    case (CheckReady s)
    then show ?thesis using r le by (auto simp: x_def being_taken_def)
  next
    case (FillSlot idx)
    then show ?thesis using assms(4) by simp
  qed (use r le False assms(4) in \<open>auto simp: x_def being_taken_def is_finished_def\<close>)
next
  case True
  then obtain sts nxt where pt: "pt = Stores sts nxt" by blast
  have finst: "card (A - X) \<le> card A" if "finite A" for A X :: "nat set" using that by (intro card_mono) auto
  show ?thesis
  proof (cases sts)
    case Nil
    then have "being_taken rb pt = {}" "got_entry nxt = 0" using assms(3) by (auto simp: pt being_taken_def)
    then show ?thesis
      using finst [OF finite_ready, of rb m "being_taken rb nxt"] by (simp add: pt Nil x_def is_finished_def)
  next
    case (Cons st more)
    obtain i where s: "i < slots m" "stores_in (slot_at rb i) (st # more)"
      and i: "ready_slots rb (perform st m) =
      (case stored_status st of None \<Rightarrow> ready_slots rb m
       | Some x \<Rightarrow> if x = Ready then insert i (ready_slots rb m) else ready_slots rb m - {i})"
      and step: "x = (if more = [] then nxt else Stores more nxt, perform st m)"
      unfolding x_def using ready_store [OF assms(1), of st more nxt p U ReadReq sp] assms(2) unfolding pt Cons by metis
    consider (reading) t kind where "st = SetStatus t Reading" "more = []" "nxt = LoadSize t kind"
      | (ready) t idx where "st = SetStatus t Ready" "more = []" "nxt = Finished (Ok (Wrote idx))"
      | (plain) "plain_store st"
      using assms(3) by (auto simp: pt Cons Cons_eq_append_conv)
    then show ?thesis
    proof cases
      case reading
      then have "t = slot_at rb i" using s(2) by simp
      then have "{k. slot_at rb i = slot_at rb k} = {i}"
        using slot_at_inj [OF ring_safeD(3) [OF assms(1)]] by auto
      then show ?thesis
        using reading i \<open>t = slot_at rb i\<close>
        by (simp add: step pt Cons being_taken_def is_finished_def stored_status_def)
    next
      case ready
      then show ?thesis
        using i card_insert_minus [of "ready_slots rb m" i "{}"]
        by (simp add: step pt Cons being_taken_def is_finished_def stored_status_def)
    next
      case plain
      have "ready_slots rb (perform st m) \<subseteq> ready_slots rb m" unfolding i by (rule plain_ready [OF plain])
      then have c: "card (ready_slots rb (perform st m) - X) \<le> card (ready_slots rb m)" for X
        by (intro card_mono) auto
      have "being_taken rb pt = {}" using plain by (auto simp: pt Cons being_taken_def)
      moreover have "got_entry nxt = 0"
        using assms(3) plain by (auto simp: pt Cons Cons_eq_append_conv)
      ultimately show ?thesis
        using c [of "being_taken rb nxt"] c [of "being_taken rb (Stores more nxt)"]
        by (simp add: step pt is_finished_def)
    qed
  qed
qed

subsection \<open>Every schedule\<close>

text \<open>How many calls end with a result that \<open>f\<close> counts.\<close>

definition ends_with :: "(point \<Rightarrow> nat) \<Rightarrow> 'u request action \<Rightarrow> ('u request, point, mem) system
    \<Rightarrow> ('u request, point, mem) system \<Rightarrow> nat" where
  "ends_with f a s s' = (case a of Call i rq \<Rightarrow> 0
     | Run i sp \<Rightarrow> if is_finished (point_of s i) then 0 else f (point_of s' i))"

primrec replies ::
  "(point \<Rightarrow> nat) \<Rightarrow> profile \<Rightarrow> 'u uuid_crate \<Rightarrow> ring_buffer \<Rightarrow> 'u request action list
    \<Rightarrow> ('u request, point, mem) system \<Rightarrow> nat" where
  "replies f p U rb [] s = 0"
| "replies f p U rb (a # as) s =
     (let s' = ring_act p U rb a s in ends_with f a s s' + replies f p U rb as s')"

text \<open>Thread \<open>r\<close> reads and the others write.\<close>

definition one_reader :: "nat \<Rightarrow> 'u request action \<Rightarrow> bool" where
  "one_reader r a \<longleftrightarrow> (case a of Run i sp \<Rightarrow> True | Call i rq \<Rightarrow> rq = ReadReq \<longleftrightarrow> i = r)"

definition counts_inv :: "ring_buffer \<Rightarrow> nat \<Rightarrow> ('u request, point, mem) system \<Rightarrow> bool" where
  "counts_inv rb r s \<longleftrightarrow> ring_system_ok rb s \<and> (\<forall>i. shape (point_of s i)) \<and> fst (fst s r) = ReadReq \<and>
     no_write (point_of s r) \<and>
     (\<forall>i. i \<noteq> r \<longrightarrow> fst (fst s i) \<noteq> ReadReq \<or> is_finished (point_of s i))"

definition balance :: "ring_buffer \<Rightarrow> nat \<Rightarrow> ('u request, point, mem) system \<Rightarrow> nat" where
  "balance rb r s = in_reading (point_of s r) + card (ready_slots rb (snd s) - being_taken rb (point_of s r))"

lemma call_step_finished: "is_finished pt \<Longrightarrow> call_step p U rb rq sp pt m = (pt, m)"
  by (cases pt) (simp_all add: is_finished_def)

lemma start_call_counts [simp]:
  "shape (start_call rq)" "in_reading (start_call rq) = 0" "being_taken rb (start_call rq) = {}"
  by (cases rq; simp add: being_taken_def)+

lemma finished_counts:
  "is_finished pt \<Longrightarrow> in_reading pt = 0" "is_finished pt \<Longrightarrow> being_taken rb pt = {}"
  by (cases pt; simp add: is_finished_def being_taken_def)+

lemma act_counts_inv:
  assumes "counts_inv rb r s" "one_reader r a"
  shows "counts_inv rb r (ring_act p U rb a s)"
proof -
  obtain T m where s: "s = (T, m)" by (cases s)
  have ok: "ring_system_ok rb (ring_act p U rb a s)"
    by (rule ring_act_ok(1)) (use assms(1) in \<open>simp add: counts_inv_def\<close>)
  have "read_point (snd (T r))"
    using assms(1) by (auto simp: counts_inv_def ring_system_ok_def s belongs_def split: request.splits)
  note nw = call_step_no_write [OF this, of p U rb _ m]
  show ?thesis
  proof (cases a)
    case (Run i sp)
    then show ?thesis
      using assms(1) ok nw [of sp] call_step_shape [of "snd (T i)" p U rb "fst (T i)" sp m]
        call_step_finished [of "snd (T i)" p U rb "fst (T i)" sp m]
      by (auto simp: counts_inv_def s act_Run)
  next
    case (Call i rq)
    then show ?thesis
      using assms ok by (cases "is_finished (snd (T i))") (auto simp: counts_inv_def s act_Call one_reader_def)
  qed
qed

lemma act_balance:
  assumes "counts_inv rb r s" "one_reader r a" "s' = ring_act p U rb a s"
  shows "balance rb r s' + ends_with got_entry a s s' \<le> balance rb r s + ends_with wrote_entry a s s'"
proof -
  obtain T m where s: "s = (T, m)" by (cases s)
  have safe: "ring_safe rb m" and ok: "\<And>i. point_ok rb (slot_count m) (snd (T i))"
    and b: "\<And>i. belongs (fst (T i)) (snd (T i))" and sh: "\<And>i. shape (snd (T i))"
    and rd: "fst (T r) = ReadReq"
    and wr: "\<And>i. i \<noteq> r \<Longrightarrow> fst (T i) \<noteq> ReadReq \<or> is_finished (snd (T i))"
    using assms(1) by (simp_all add: counts_inv_def ring_system_ok_def s)
  show ?thesis
  proof (cases a)
    case (Call i rq)
    then show ?thesis
      by (auto simp: assms(3) s act_Call balance_def ends_with_def finished_counts)
  next
    case (Run i sp)
    show ?thesis
    proof (cases "i = r")
      case True
      have "read_point (snd (T r))" using b [of r] rd by (simp add: belongs_def)
      from read_balance [OF safe ok sh this refl, of p U sp]
      show ?thesis
        using rd True Run by (simp add: assms(3) s act_Run balance_def ends_with_def split: if_splits)
    next
      case False
      let ?x = "call_step p U rb (fst (T i)) sp (snd (T i)) m"
      show ?thesis
      proof (cases "is_finished (snd (T i))")
        case True
        then show ?thesis
          using False Run by (simp add: assms(3) s act_Run balance_def ends_with_def call_step_finished)
      next
        case f: False
        then have w: "write_point (snd (T i))"
          using wr [OF False] b [of i] by (cases "fst (T i)") (simp_all add: belongs_def)
        from write_balance [OF safe ok sh w, of p U "fst (T i)" sp "being_taken rb (snd (T r))"]
        show ?thesis
          using f write_gets_nothing [OF w sh f, where p = p and U = U and rb = rb and rq = "fst (T i)" and sp = sp and m = m] False Run by (simp add: assms(3) s act_Run balance_def ends_with_def)
      qed
    qed
  qed
qed

lemma reader_writes_nothing:
  assumes "counts_inv rb r s"
  shows "wrote_entry (point_of (ring_act p U rb (Run r sp) s) r) = 0"
proof -
  have "counts_inv rb r (ring_act p U rb (Run r sp) s)"
    by (rule act_counts_inv [OF assms]) (simp add: one_reader_def)
  then show ?thesis by (intro no_write_reply) (simp add: counts_inv_def)
qed

lemma run_counts_inv:
  "counts_inv rb r s \<Longrightarrow> \<forall>a\<in>set as. one_reader r a \<Longrightarrow> counts_inv rb r (ring_run p U rb as s)"
  by (induction as arbitrary: s) (simp_all add: act_counts_inv)

lemma run_balance:
  assumes "counts_inv rb r s" "\<forall>a\<in>set as. one_reader r a"
  shows "balance rb r (ring_run p U rb as s) + replies got_entry p U rb as s \<le>
    balance rb r s + replies wrote_entry p U rb as s"
  using assms
proof (induction as arbitrary: s)
  case (Cons a as)
  let ?s = "ring_act p U rb a s"
  have "balance rb r ?s + ends_with got_entry a s ?s \<le> balance rb r s + ends_with wrote_entry a s ?s"
    by (rule act_balance [OF Cons.prems(1) _ refl]) (use Cons.prems(2) in simp)
  moreover have "balance rb r (ring_run p U rb as ?s) + replies got_entry p U rb as ?s \<le>
      balance rb r ?s + replies wrote_entry p U rb as ?s"
    by (rule Cons.IH [OF act_counts_inv [OF Cons.prems(1)]]) (use Cons.prems(2) in simp_all)
  ultimately show ?case by (simp add: Let_def)
qed simp

lemma counts_inv_idle: "ring_safe rb m \<Longrightarrow> counts_inv rb r (idle m)"
  by (simp add: counts_inv_def ring_system_ok_idle) (simp add: idle_def is_finished_def)

lemma idle_replies:
  assumes "ring_safe rb m" "\<forall>a\<in>set as. one_reader r a"
  shows "replies got_entry p U rb as (idle m) \<le>
    card (ready_slots rb m) + replies wrote_entry p U rb as (idle m)"
  using run_balance [OF counts_inv_idle [OF assms(1), of r] assms(2), of p U]
  by (simp add: balance_def idle_def being_taken_def)

lemma empty_ring_ready:
  assumes "ring_wf rb m" "ring_queue rb m = []"
  shows "ready_slots rb m = {}"
proof -
  have q: "pending m = 0" using assms(2) by (metis length_ring_queue list.size(3))
  have "status (slot_at rb j) m \<noteq> Ready" if j: "j < slots m" for j
  proof -
    let ?c = "unat (consumer_idx m)" and ?n = "slots m"
    have c: "?c < ?n" using ring_wfD(4) [OF assms(1)] by (simp add: indices_in_range_def word_less_nat_alt)
    define k where "k = (if ?c \<le> j then j - ?c else j + ?n - ?c)"
    have "k < ?n" "(?c + k) mod ?n = j" using c j by (auto simp: k_def)
    then have "slot_free (slot_at rb j) m"
      using assms(1) q by (auto simp: ring_wf_def ring_slot_def)
    then show ?thesis by (auto simp: slot_free_def)
  qed
  then show ?thesis by (auto simp: ready_slots_def)
qed

text \<open>
  C26: Any number of writers and one reader on a ring whose slots hold anything, interleaved
  access by access in any way and with failing compare-and-swaps anywhere: the reader has
  never got more entries than slots were ready at the start and writes have succeeded. No
  entry is read twice and none is read that no write has finished.
\<close>

theorem reads_need_writes:
  assumes "ring_safe rb m" "\<forall>i rq. Call i rq \<in> set as \<longrightarrow> (rq = ReadReq \<longleftrightarrow> i = r)"
  shows "replies got_entry p U rb as (idle m) \<le>
    card (ready_slots rb m) + replies wrote_entry p U rb as (idle m)"
  by (rule idle_replies [OF assms(1), of as r])
    (use assms(2) in \<open>auto simp: one_reader_def split: action.split\<close>)

theorem reads_need_writes_demo:
  "replies got_entry Debug demo_uuid demo_ring
      ([Call 0 (WriteReq DiskWrite [1] (1, 2) None), Call 1 (WriteReq DiskRead [2] (1, 2) None), Call 7 ReadReq] @
       concat (replicate 60 [Run 0 False, Run 7 False, Run 1 True])) (idle demo_mem) \<le>
    replies wrote_entry Debug demo_uuid demo_ring
      ([Call 0 (WriteReq DiskWrite [1] (1, 2) None), Call 1 (WriteReq DiskRead [2] (1, 2) None), Call 7 ReadReq] @
       concat (replicate 60 [Run 0 False, Run 7 False, Run 1 True])) (idle demo_mem)"
proof -
  let ?as = "[Call 0 (WriteReq DiskWrite [1] (1 :: u64, 2 :: u64) None), Call 1 (WriteReq DiskRead [2] (1, 2) None), Call 7 ReadReq] @
       concat (replicate 60 [Run 0 False, Run 7 False, Run 1 True])"
  have safe: "ring_safe demo_ring demo_mem"
    using ring_wfD(1,4) [OF demo_created(2)] by (simp add: ring_safe_def)
  have calls: "\<forall>i rq. Call i rq \<in> set ?as \<longrightarrow> (rq = ReadReq \<longleftrightarrow> i = 7)" by auto
  show ?thesis
    using reads_need_writes [OF safe calls, of Debug demo_uuid]
      empty_ring_ready [OF demo_created(2,3)] by simp
qed

end
