(* ===== verification/Numa_Threads.thy ===== *)
theory Numa_Threads
  imports Ring_Counts Bench_Ring
begin

text \<open>
  The threads of the NUMA optimization example (\<open>run_benchmark\<close> of
  \<open>examples/numa_optimization.rs\<close>): writers that each make a fixed number of writes and end
  at the first error, a reader that reads until it has as many entries as there are writes,
  and the main thread that joins them. The calls of the ring are interleaved access by
  access. A turn of a thread makes one access, begins a call, or looks at the result of
  one. Times and printing are left out; a sleeping reader is one that the schedule does
  not pick.
\<close>

definition OPERATIONS_PER_THREAD :: nat where "OPERATIONS_PER_THREAD = 100000"
definition PAYLOAD_SIZE :: nat where "PAYLOAD_SIZE = 1024"
definition NUM_THREADS :: nat where "NUM_THREADS = 4"

text \<open>What writer \<open>i\<close> has done, whether a call of a thread is under way, and how threads ended.\<close>

record 'u threads =
  th_ring :: "('u request, point, mem) system"
  th_in :: "nat \<Rightarrow> bool"
  th_done :: "nat \<Rightarrow> nat"
  th_end :: "nat \<Rightarrow> (ring_error, unit) outcome option"
  th_read :: nat
  th_reader_end :: "(ring_error, nat) outcome option"

text \<open>The ids and clocks of the calls are the environment's.\<close>

definition nth_write :: "(nat \<Rightarrow> nat \<Rightarrow> 'u write_ctx) \<Rightarrow> u8 list \<Rightarrow> nat \<Rightarrow> nat \<Rightarrow> 'u request" where
  "nth_write c data i k = WriteReq Custom data (wc_uuid (c i k)) (wc_now (c i k))"

definition writer_turn ::
  "profile \<Rightarrow> 'u uuid_crate \<Rightarrow> ring_buffer \<Rightarrow> (nat \<Rightarrow> nat \<Rightarrow> 'u write_ctx) \<Rightarrow> u8 list \<Rightarrow> nat \<Rightarrow> nat \<Rightarrow> bool
    \<Rightarrow> 'u threads \<Rightarrow> 'u threads" where
  "writer_turn p U rb c data ops i sp st =
     (if th_end st i \<noteq> None then st
      else if th_in st i then
        (case point_of (th_ring st) i of
           Finished (Ok v) \<Rightarrow> st\<lparr>th_in := (th_in st)(i := False), th_done := (th_done st)(i := th_done st i + 1)\<rparr>
         | Finished (Err e) \<Rightarrow> st\<lparr>th_in := (th_in st)(i := False), th_end := (th_end st)(i := Some (Err e))\<rparr>
         | Finished (Panic z) \<Rightarrow> st\<lparr>th_in := (th_in st)(i := False), th_end := (th_end st)(i := Some (Panic z))\<rparr>
         | Finished UB \<Rightarrow> st\<lparr>th_in := (th_in st)(i := False), th_end := (th_end st)(i := Some UB)\<rparr>
         | _ \<Rightarrow> st\<lparr>th_ring := ring_act p U rb (Run i sp) (th_ring st)\<rparr>)
      else if th_done st i < ops then
        st\<lparr>th_ring := ring_act p U rb (Call i (nth_write c data i (th_done st i))) (th_ring st),
           th_in := (th_in st)(i := True)\<rparr>
      else st\<lparr>th_end := (th_end st)(i := Some (Ok ()))\<rparr>)"

definition reader_turn ::
  "profile \<Rightarrow> 'u uuid_crate \<Rightarrow> ring_buffer \<Rightarrow> nat \<Rightarrow> nat \<Rightarrow> bool \<Rightarrow> 'u threads \<Rightarrow> 'u threads" where
  "reader_turn p U rb expected r sp st =
     (if th_reader_end st \<noteq> None then st
      else if th_in st r then
        (case point_of (th_ring st) r of
           Finished (Ok (Got (Some e))) \<Rightarrow> st\<lparr>th_in := (th_in st)(r := False), th_read := th_read st + 1\<rparr>
         | Finished (Ok v) \<Rightarrow> st\<lparr>th_in := (th_in st)(r := False)\<rparr>
         | Finished (Err e) \<Rightarrow> st\<lparr>th_in := (th_in st)(r := False), th_reader_end := Some (Err e)\<rparr>
         | Finished (Panic z) \<Rightarrow> st\<lparr>th_in := (th_in st)(r := False), th_reader_end := Some (Panic z)\<rparr>
         | Finished UB \<Rightarrow> st\<lparr>th_in := (th_in st)(r := False), th_reader_end := Some UB\<rparr>
         | _ \<Rightarrow> st\<lparr>th_ring := ring_act p U rb (Run r sp) (th_ring st)\<rparr>)
      else if th_read st < expected then
        st\<lparr>th_ring := ring_act p U rb (Call r ReadReq) (th_ring st), th_in := (th_in st)(r := True)\<rparr>
      else st\<lparr>th_reader_end := Some (Ok (th_read st))\<rparr>)"

text \<open>The writers are the threads below \<open>n\<close>, the reader is thread \<open>n\<close>.\<close>

definition thread_turn ::
  "profile \<Rightarrow> 'u uuid_crate \<Rightarrow> ring_buffer \<Rightarrow> (nat \<Rightarrow> nat \<Rightarrow> 'u write_ctx) \<Rightarrow> u8 list \<Rightarrow> nat \<Rightarrow> nat
    \<Rightarrow> nat \<times> bool \<Rightarrow> 'u threads \<Rightarrow> 'u threads" where
  "thread_turn p U rb c data n ops = (\<lambda>(i, sp) st.
     if i < n then writer_turn p U rb c data ops i sp st
     else if i = n then reader_turn p U rb (ops * n) n sp st
     else st)"

definition threads_start :: "mem \<Rightarrow> 'u threads" where
  "threads_start m = \<lparr>th_ring = idle m, th_in = (\<lambda>_. False), th_done = (\<lambda>_. 0), th_end = (\<lambda>_. None),
     th_read = 0, th_reader_end = None\<rparr>"

definition threads_run ::
  "profile \<Rightarrow> 'u uuid_crate \<Rightarrow> ring_buffer \<Rightarrow> (nat \<Rightarrow> nat \<Rightarrow> 'u write_ctx) \<Rightarrow> u8 list \<Rightarrow> nat \<Rightarrow> nat
    \<Rightarrow> (nat \<times> bool) list \<Rightarrow> 'u threads \<Rightarrow> 'u threads" where
  "threads_run p U rb c data n ops = fold (thread_turn p U rb c data n ops)"

text \<open>
  \<open>main\<close> joins the writers in order: an error is printed, a panic of a writer makes it panic;
  then the reader, whose error is returned. \<open>None\<close> says that it still waits.
\<close>

primrec join_all ::
  "(nat \<Rightarrow> (ring_error, unit) outcome option) \<Rightarrow> (ring_error, nat) outcome option \<Rightarrow> nat list
    \<Rightarrow> (ring_error, nat) outcome option" where
  "join_all ends reader [] =
     (case reader of Some (Panic z) \<Rightarrow> Some (Panic UnwrapFailed) | r \<Rightarrow> r)"
| "join_all ends reader (i # is) =
     (case ends i of
        None \<Rightarrow> None
      | Some (Panic z) \<Rightarrow> Some (Panic UnwrapFailed)
      | Some UB \<Rightarrow> Some UB
      | Some _ \<Rightarrow> join_all ends reader is)"

definition run_benchmark ::
  "profile \<Rightarrow> 'u uuid_crate \<Rightarrow> ring_buffer \<Rightarrow> (nat \<Rightarrow> nat \<Rightarrow> 'u write_ctx) \<Rightarrow> u8 list \<Rightarrow> nat \<Rightarrow> nat
    \<Rightarrow> (nat \<times> bool) list \<Rightarrow> mem \<Rightarrow> (ring_error, nat) outcome option" where
  "run_benchmark p U rb c data n ops sched m =
     (let st = threads_run p U rb c data n ops sched (threads_start m) in
      join_all (th_end st) (th_reader_end st) [0..<n])"

subsection \<open>Counting the calls of the threads\<close>

lemma replies_append:
  "replies f p U rb (as @ bs) s = replies f p U rb as s + replies f p U rb bs (ring_run p U rb as s)"
  by (induction as arbitrary: s) (simp_all add: Let_def)

lemma ring_run_append: "ring_run p U rb (as @ bs) s = ring_run p U rb bs (ring_run p U rb as s)"
  by (simp add: ring_run_def)

text \<open>The result that waits to be looked at.\<close>

definition result_of :: "(point \<Rightarrow> nat) \<Rightarrow> 'u threads \<Rightarrow> nat \<Rightarrow> nat" where
  "result_of f st i = (if th_in st i then f (point_of (th_ring st) i) else 0)"

definition writers_count :: "nat \<Rightarrow> 'u threads \<Rightarrow> nat" where
  "writers_count n st = (\<Sum>i<n. th_done st i + result_of wrote_entry st i)"

definition threads_inv ::
  "profile \<Rightarrow> 'u uuid_crate \<Rightarrow> ring_buffer \<Rightarrow> nat \<Rightarrow> nat \<Rightarrow> mem \<Rightarrow> 'u threads \<Rightarrow> bool" where
  "threads_inv p U rb n ops m st \<longleftrightarrow>
     (\<exists>as. th_ring st = ring_run p U rb as (idle m) \<and> (\<forall>a\<in>set as. one_reader n a) \<and>
        replies wrote_entry p U rb as (idle m) \<le> writers_count n st \<and>
        th_read st + result_of got_entry st n \<le> replies got_entry p U rb as (idle m)) \<and>
     (\<forall>i. th_in st i \<or> is_finished (point_of (th_ring st) i)) \<and>
     (\<forall>i<n. th_done st i + (if th_in st i then 1 else 0) \<le> ops) \<and>
     (\<forall>i<n. \<forall>e. th_end st i = Some (Err e) \<longrightarrow> \<not> th_in st i \<and> th_done st i < ops) \<and>
     (\<forall>k. th_reader_end st = Some (Ok k) \<longrightarrow> ops * n \<le> th_read st)"

lemma sum_one_changed:
  fixes f g :: "nat \<Rightarrow> nat"
  assumes "i < n" "\<And>j. j < n \<Longrightarrow> j \<noteq> i \<Longrightarrow> g j = f j"
  shows "(\<Sum>j<n. g j) + f i = (\<Sum>j<n. f j) + g i"
proof -
  have "(\<Sum>j\<in>{..<n} - {i}. g j) = (\<Sum>j\<in>{..<n} - {i}. f j)" by (rule sum.cong) (use assms(2) in auto)
  moreover have "(\<Sum>j<n. h j) = h i + (\<Sum>j\<in>{..<n} - {i}. h j)" for h :: "nat \<Rightarrow> nat"
    by (rule sum.remove) (use assms(1) in simp_all)
  ultimately show ?thesis by simp
qed

lemma writers_count_changed:
  assumes "i < n" "\<And>j. j \<noteq> i \<Longrightarrow> th_done st' j = th_done st j \<and> th_in st' j = th_in st j \<and>
      point_of (th_ring st') j = point_of (th_ring st) j"
  shows "writers_count n st' + (th_done st i + result_of wrote_entry st i) =
    writers_count n st + (th_done st' i + result_of wrote_entry st' i)"
  unfolding writers_count_def by (rule sum_one_changed [OF assms(1)]) (simp add: assms(2) result_of_def)

lemma writers_count_same:
  assumes "\<And>j. j < n \<Longrightarrow> th_done st' j = th_done st j \<and> th_in st' j = th_in st j \<and>
      point_of (th_ring st') j = point_of (th_ring st) j"
  shows "writers_count n st' = writers_count n st"
  unfolding writers_count_def by (rule sum.cong) (simp_all add: assms result_of_def)

lemma act_other: "j \<noteq> i \<Longrightarrow> point_of (ring_act p U rb (Run i sp) s) j = point_of s j"
  "j \<noteq> i \<Longrightarrow> point_of (ring_act p U rb (Call i rq) s) j = point_of s j"
  by (cases s; simp add: act_Run act_Call)+

lemma act_call: "is_finished (point_of s i) \<Longrightarrow> point_of (ring_act p U rb (Call i rq) s) i = start_call rq"
  by (cases s) (simp add: act_Call)

lemma unfinished_counts:
  "\<not> is_finished pt \<Longrightarrow> wrote_entry pt = 0" "\<not> is_finished pt \<Longrightarrow> got_entry pt = 0"
  "wrote_entry (start_call rq) = 0" "got_entry (start_call rq) = 0" "wrote_entry pt \<le> 1"
proof -
  show "\<not> is_finished pt \<Longrightarrow> wrote_entry pt = 0" "\<not> is_finished pt \<Longrightarrow> got_entry pt = 0"
    by (cases pt; simp add: is_finished_def)+
  show "wrote_entry (start_call rq) = 0" "got_entry (start_call rq) = 0" by (cases rq; simp)+
  show "wrote_entry pt \<le> 1" by (cases pt rule: wrote_entry.cases) simp_all
qed

lemma threads_invE:
  assumes "threads_inv p U rb n ops m st"
  obtains as where "th_ring st = ring_run p U rb as (idle m)" "\<forall>a\<in>set as. one_reader n a"
    "replies wrote_entry p U rb as (idle m) \<le> writers_count n st"
    "th_read st + result_of got_entry st n \<le> replies got_entry p U rb as (idle m)"
    "\<And>i. th_in st i \<or> is_finished (point_of (th_ring st) i)"
    "\<And>i. i < n \<Longrightarrow> th_done st i + (if th_in st i then 1 else 0) \<le> ops"
    "\<And>i e. i < n \<Longrightarrow> th_end st i = Some (Err e) \<Longrightarrow> \<not> th_in st i \<and> th_done st i < ops"
    "\<And>k. th_reader_end st = Some (Ok k) \<Longrightarrow> ops * n \<le> th_read st"
  using assms unfolding threads_inv_def by blast

text \<open>A turn that leaves the ring alone.\<close>

lemma quiet_turn_inv:
  assumes "threads_inv p U rb n ops m st" "th_ring st' = th_ring st"
    and "writers_count n st \<le> writers_count n st'"
    and "th_read st' + result_of got_entry st' n \<le> th_read st + result_of got_entry st n"
    and "\<And>i. th_in st i \<Longrightarrow> \<not> th_in st' i \<Longrightarrow> is_finished (point_of (th_ring st) i)"
    and "\<And>i. i < n \<Longrightarrow> th_done st' i + (if th_in st' i then 1 else 0) \<le> ops"
    and "\<And>i e. i < n \<Longrightarrow> th_end st' i = Some (Err e) \<Longrightarrow> \<not> th_in st' i \<and> th_done st' i < ops"
    and "\<And>k. th_reader_end st' = Some (Ok k) \<Longrightarrow> ops * n \<le> th_read st'"
  shows "threads_inv p U rb n ops m st'"
proof -
  obtain as where as: "th_ring st = ring_run p U rb as (idle m)" "\<forall>a\<in>set as. one_reader n a"
    "replies wrote_entry p U rb as (idle m) \<le> writers_count n st"
    "th_read st + result_of got_entry st n \<le> replies got_entry p U rb as (idle m)"
    and i: "\<And>i. th_in st i \<or> is_finished (point_of (th_ring st) i)"
    using assms(1) by (rule threads_invE) blast
  have "\<exists>as. th_ring st' = ring_run p U rb as (idle m) \<and> (\<forall>a\<in>set as. one_reader n a) \<and>
        replies wrote_entry p U rb as (idle m) \<le> writers_count n st' \<and>
        th_read st' + result_of got_entry st' n \<le> replies got_entry p U rb as (idle m)"
    by (rule exI [of _ as]) (use as assms(2-4) in simp)
  moreover have "\<forall>i. th_in st' i \<or> is_finished (point_of (th_ring st') i)"
    using i assms(2,5) by metis
  ultimately show ?thesis using assms(6-8) by (simp add: threads_inv_def)
qed

text \<open>A turn that makes an access or begins a call.\<close>

lemma ring_turn_inv:
  assumes "threads_inv p U rb n ops m st" "one_reader n a"
    and st': "st' = st\<lparr>th_ring := ring_act p U rb a (th_ring st), th_in := ins\<rparr>"
    and "ends_with wrote_entry a (th_ring st) (th_ring st') + writers_count n st \<le> writers_count n st'"
    and "result_of got_entry st' n \<le> result_of got_entry st n + ends_with got_entry a (th_ring st) (th_ring st')"
    and "\<And>i. ins i \<or> is_finished (point_of (th_ring st') i)"
    and "\<And>i. i < n \<Longrightarrow> th_done st i + (if ins i then 1 else 0) \<le> ops"
    and "\<And>i. i < n \<Longrightarrow> ins i \<Longrightarrow> th_in st i \<or> th_end st i = None"
  shows "threads_inv p U rb n ops m st'"
proof -
  obtain as where as: "th_ring st = ring_run p U rb as (idle m)" "\<forall>a\<in>set as. one_reader n a"
    "replies wrote_entry p U rb as (idle m) \<le> writers_count n st"
    "th_read st + result_of got_entry st n \<le> replies got_entry p U rb as (idle m)"
    and e: "\<And>i e. i < n \<Longrightarrow> th_end st i = Some (Err e) \<Longrightarrow> \<not> th_in st i \<and> th_done st i < ops"
    and r: "\<And>k. th_reader_end st = Some (Ok k) \<Longrightarrow> ops * n \<le> th_read st"
    using assms(1) by (rule threads_invE) blast
  have "replies f p U rb (as @ [a]) (idle m) =
      replies f p U rb as (idle m) + ends_with f a (th_ring st) (th_ring st')" for f
    by (simp add: replies_append Let_def st' flip: as(1))
  then have "\<exists>as. th_ring st' = ring_run p U rb as (idle m) \<and> (\<forall>a\<in>set as. one_reader n a) \<and>
        replies wrote_entry p U rb as (idle m) \<le> writers_count n st' \<and>
        th_read st' + result_of got_entry st' n \<le> replies got_entry p U rb as (idle m)"
    using as assms(2,4,5) by (intro exI [of _ "as @ [a]"]) (simp add: ring_run_append st')
  moreover have "\<forall>i<n. \<forall>e. th_end st' i = Some (Err e) \<longrightarrow> \<not> th_in st' i \<and> th_done st' i < ops"
  proof (intro allI impI)
    fix i e assume i: "i < n" "th_end st' i = Some (Err e)"
    then have "th_end st i = Some (Err e)" by (simp add: st')
    then show "\<not> th_in st' i \<and> th_done st' i < ops"
      using e [OF i(1)] assms(8) [OF i(1)] by (auto simp: st')
  qed
  ultimately show ?thesis using assms(6,7) r by (simp add: threads_inv_def st')
qed

lemma is_finished_ex: "is_finished pt \<longleftrightarrow> (\<exists>r. pt = Finished r)"
  by (cases pt) (simp_all add: is_finished_def)

lemma writer_turn_inv:
  assumes "threads_inv p U rb n ops m st" "i < n"
  shows "threads_inv p U rb n ops m (writer_turn p U rb c data ops i sp st)" (is "threads_inv p U rb n ops m ?st")
proof -
  note inv = assms(1) and i = assms(2)
  have fin: "\<And>i. th_in st i \<or> is_finished (point_of (th_ring st) i)"
    and le: "\<And>i. i < n \<Longrightarrow> th_done st i + (if th_in st i then 1 else 0) \<le> ops"
    and e: "\<And>i e. i < n \<Longrightarrow> th_end st i = Some (Err e) \<Longrightarrow> \<not> th_in st i \<and> th_done st i < ops"
    and r: "\<And>k. th_reader_end st = Some (Ok k) \<Longrightarrow> ops * n \<le> th_read st"
    using inv by (rule threads_invE, blast)+
  consider (ended) "th_end st i \<noteq> None" | (running) "th_end st i = None" "th_in st i" "\<not> is_finished (point_of (th_ring st) i)"
    | (ok) v where "th_end st i = None" "th_in st i" "point_of (th_ring st) i = Finished (Ok v)"
    | (failed) x where "th_end st i = None" "th_in st i" "point_of (th_ring st) i = Finished x" "\<forall>v. x \<noteq> Ok v"
    | (starting) "th_end st i = None" "\<not> th_in st i" "th_done st i < ops"
    | (over) "th_end st i = None" "\<not> th_in st i" "ops \<le> th_done st i"
    unfolding is_finished_ex not_less [symmetric] by blast
  then show ?thesis
  proof cases
    case ended
    then show ?thesis using inv by (simp add: writer_turn_def)
  next
    case running
    then have st: "?st = st\<lparr>th_ring := ring_act p U rb (Run i sp) (th_ring st), th_in := th_in st\<rparr>"
      by (cases "point_of (th_ring st) i") (simp_all add: writer_turn_def is_finished_def)
    have w: "writers_count n ?st + (th_done st i + result_of wrote_entry st i) =
        writers_count n st + (th_done ?st i + result_of wrote_entry ?st i)"
      by (rule writers_count_changed [OF i]) (simp add: st act_other)
    show ?thesis
    proof (rule ring_turn_inv [OF inv _ st])
      show "ends_with wrote_entry (Run i sp) (th_ring st) (th_ring ?st) + writers_count n st \<le> writers_count n ?st"
        using w running(2,3) by (simp add: ends_with_def result_of_def unfinished_counts st)
      show "th_in st j \<or> is_finished (point_of (th_ring ?st) j)" for j
        using fin [of j] running(2) by (cases "j = i") (simp_all add: st act_other)
      show "th_done st j + (if th_in st j then 1 else 0) \<le> ops" if "j < n" for j by (rule le [OF that])
    qed (use i in \<open>simp_all add: one_reader_def result_of_def st act_other\<close>)
  next
    case ok
    then have st: "?st = st\<lparr>th_in := (th_in st)(i := False), th_done := (th_done st)(i := th_done st i + 1)\<rparr>"
      by (simp add: writer_turn_def)
    have w: "writers_count n ?st + (th_done st i + result_of wrote_entry st i) =
        writers_count n st + (th_done ?st i + result_of wrote_entry ?st i)"
      by (rule writers_count_changed [OF i]) (simp add: st)
    have "result_of wrote_entry st i \<le> 1"
      using unfinished_counts(5) [of "point_of (th_ring st) i"] by (simp add: result_of_def)
    then have "writers_count n st \<le> writers_count n ?st"
      using w by (simp add: st result_of_def)
    moreover have "th_done ?st j + (if th_in ?st j then 1 else 0) \<le> ops" if "j < n" for j
      using le [OF that] ok(2) by (cases "j = i") (simp_all add: st)
    moreover have "\<not> th_in ?st j \<and> th_done ?st j < ops" if "j < n" "th_end ?st j = Some (Err x)" for j x
      using e [OF that(1)] that(2) ok(1) by (cases "j = i") (simp_all add: st)
    ultimately show ?thesis
      by (intro quiet_turn_inv [OF inv])
        (use ok r i in \<open>auto simp: st result_of_def is_finished_def split: if_splits\<close>)
  next
    case failed
    then have st: "\<exists>x. ?st = st\<lparr>th_in := (th_in st)(i := False), th_end := (th_end st)(i := Some x)\<rparr>"
      by (cases x) (auto simp: writer_turn_def)
    then obtain y where st: "?st = st\<lparr>th_in := (th_in st)(i := False), th_end := (th_end st)(i := Some y)\<rparr>"
      by blast
    have w: "writers_count n ?st + (th_done st i + result_of wrote_entry st i) =
        writers_count n st + (th_done ?st i + result_of wrote_entry ?st i)"
      by (rule writers_count_changed [OF i]) (simp add: st)
    have "wrote_entry (Finished x) = 0" using failed(4) by (cases x) simp_all
    then have "writers_count n st \<le> writers_count n ?st"
      using w failed by (simp add: st result_of_def)
    moreover have "th_done st i < ops" using le [OF i] failed(2) by simp
    moreover have "th_done st j + (if th_in ?st j then 1 else 0) \<le> ops" if "j < n" for j
      using le [OF that] by (simp add: st split: if_splits)
    ultimately show ?thesis
      by (intro quiet_turn_inv [OF inv])
        (use failed e r i in \<open>auto simp: st result_of_def is_finished_def split: if_splits\<close>)
  next
    case starting
    let ?a = "Call i (nth_write c data i (th_done st i))"
    have f: "is_finished (point_of (th_ring st) i)" using fin [of i] starting(2) by simp
    have st: "?st = st\<lparr>th_ring := ring_act p U rb ?a (th_ring st), th_in := (th_in st)(i := True)\<rparr>"
      using starting by (simp add: writer_turn_def)
    have w: "writers_count n ?st + (th_done st i + result_of wrote_entry st i) =
        writers_count n st + (th_done ?st i + result_of wrote_entry ?st i)"
      by (rule writers_count_changed [OF i]) (simp add: st act_other)
    show ?thesis
    proof (rule ring_turn_inv [OF inv _ st])
      show "one_reader n ?a" using i by (simp add: one_reader_def nth_write_def)
      show "ends_with wrote_entry ?a (th_ring st) (th_ring ?st) + writers_count n st \<le> writers_count n ?st"
        using w starting(2) by (simp add: ends_with_def result_of_def st)
      show "result_of got_entry ?st n \<le> result_of got_entry st n + ends_with got_entry ?a (th_ring st) (th_ring ?st)"
        using i by (simp add: result_of_def st act_other)
      show "((th_in st)(i := True)) j \<or> is_finished (point_of (th_ring ?st) j)" for j
        using fin [of j] by (cases "j = i") (simp_all add: st act_other)
      show "th_done st j + (if ((th_in st)(i := True)) j then 1 else 0) \<le> ops" if "j < n" for j
        using le [OF that] starting(3) by (cases "j = i") simp_all
      show "th_in st j \<or> th_end st j = None" if "((th_in st)(i := True)) j" for j
        using that starting(1) by (cases "j = i") simp_all
    qed
  next
    case over
    then have st: "?st = st\<lparr>th_end := (th_end st)(i := Some (Ok ()))\<rparr>" by (simp add: writer_turn_def)
    have "writers_count n ?st = writers_count n st" by (rule writers_count_same) (simp add: st)
    then show ?thesis
      by (intro quiet_turn_inv [OF inv])
        (use over le e r i in \<open>auto simp: st result_of_def split: if_splits\<close>)
  qed
qed

lemma reader_turn_inv:
  assumes "threads_inv p U rb n ops m st" "ring_safe rb m"
  shows "threads_inv p U rb n ops m (reader_turn p U rb (ops * n) n sp st)" (is "threads_inv p U rb n ops m ?st")
proof -
  note inv = assms(1)
  have fin: "\<And>i. th_in st i \<or> is_finished (point_of (th_ring st) i)"
    and le: "\<And>i. i < n \<Longrightarrow> th_done st i + (if th_in st i then 1 else 0) \<le> ops"
    and e: "\<And>i e. i < n \<Longrightarrow> th_end st i = Some (Err e) \<Longrightarrow> \<not> th_in st i \<and> th_done st i < ops"
    and r: "\<And>k. th_reader_end st = Some (Ok k) \<Longrightarrow> ops * n \<le> th_read st"
    using inv by (rule threads_invE, blast)+
  obtain as where as: "th_ring st = ring_run p U rb as (idle m)" "\<forall>a\<in>set as. one_reader n a"
    using inv by (rule threads_invE) blast
  have "counts_inv rb n (th_ring st)"
    unfolding as(1) by (rule run_counts_inv [OF counts_inv_idle [OF assms(2)] as(2)])
  then have silent: "wrote_entry (point_of (ring_act p U rb (Run n sp) (th_ring st)) n) = 0"
    by (rule reader_writes_nothing)
  consider (ended) "th_reader_end st \<noteq> None"
    | (running) "th_reader_end st = None" "th_in st n" "\<not> is_finished (point_of (th_ring st) n)"
    | (entry) v where "th_reader_end st = None" "th_in st n" "point_of (th_ring st) n = Finished (Ok (Got (Some v)))"
    | (other) x where "th_reader_end st = None" "th_in st n" "point_of (th_ring st) n = Finished x"
      "\<forall>v. x \<noteq> Ok (Got (Some v))"
    | (starting) "th_reader_end st = None" "\<not> th_in st n" "th_read st < ops * n"
    | (over) "th_reader_end st = None" "\<not> th_in st n" "ops * n \<le> th_read st"
    unfolding is_finished_ex not_less [symmetric] by blast
  then show ?thesis
  proof cases
    case ended
    then show ?thesis using inv by (simp add: reader_turn_def)
  next
    case running
    then have st: "?st = st\<lparr>th_ring := ring_act p U rb (Run n sp) (th_ring st), th_in := th_in st\<rparr>"
      by (cases "point_of (th_ring st) n") (simp_all add: reader_turn_def is_finished_def)
    have "writers_count n ?st = writers_count n st"
      by (rule writers_count_same) (simp add: st act_other)
    then have w: "writers_count n ?st = writers_count n st" .
    show ?thesis
    proof (rule ring_turn_inv [OF inv _ st])
      show "ends_with wrote_entry (Run n sp) (th_ring st) (th_ring ?st) + writers_count n st \<le> writers_count n ?st"
      proof -
        have "ends_with wrote_entry (Run n sp) (th_ring st) (th_ring ?st) = 0"
          unfolding ends_with_def st using silent by simp
        then show ?thesis using w by simp
      qed
      show "result_of got_entry ?st n \<le> result_of got_entry st n + ends_with got_entry (Run n sp) (th_ring st) (th_ring ?st)"
        using running(2,3) by (simp add: ends_with_def result_of_def st)
      show "th_in st j \<or> is_finished (point_of (th_ring ?st) j)" for j
        using fin [of j] running(2) by (cases "j = n") (simp_all add: st act_other)
      show "th_done st j + (if th_in st j then 1 else 0) \<le> ops" if "j < n" for j by (rule le [OF that])
    qed (simp_all add: one_reader_def)
  next
    case entry
    then have st: "?st = st\<lparr>th_in := (th_in st)(n := False), th_read := th_read st + 1\<rparr>"
      by (simp add: reader_turn_def)
    have "writers_count n ?st = writers_count n st" by (rule writers_count_same) (simp add: st)
    then show ?thesis
      by (intro quiet_turn_inv [OF inv])
        (use entry le e in \<open>auto simp: st result_of_def is_finished_def split: if_splits\<close>)
  next
    case other
    have "\<exists>y. ?st = st\<lparr>th_in := (th_in st)(n := False), th_reader_end := y\<rparr> \<and> (\<forall>k. y \<noteq> Some (Ok k))"
    proof (cases x)
      case (Ok v)
      then have "?st = st\<lparr>th_in := (th_in st)(n := False), th_reader_end := None\<rparr>"
        using other by (cases v) (auto simp: reader_turn_def split: option.splits)
      then show ?thesis by blast
    qed (use other in \<open>auto simp: reader_turn_def\<close>)
    then obtain y where st: "?st = st\<lparr>th_in := (th_in st)(n := False), th_reader_end := y\<rparr>"
      and y: "\<forall>k. y \<noteq> Some (Ok k)" by blast
    have "writers_count n ?st = writers_count n st" by (rule writers_count_same) (simp add: st)
    then show ?thesis
      by (intro quiet_turn_inv [OF inv])
        (use other y le e in \<open>auto simp: st result_of_def is_finished_def split: if_splits\<close>)
  next
    case starting
    have f: "is_finished (point_of (th_ring st) n)" using fin [of n] starting(2) by simp
    have st: "?st = st\<lparr>th_ring := ring_act p U rb (Call n ReadReq) (th_ring st), th_in := (th_in st)(n := True)\<rparr>"
      using starting by (simp add: reader_turn_def)
    have w: "writers_count n ?st = writers_count n st" by (rule writers_count_same) (simp add: st act_other)
    show ?thesis
    proof (rule ring_turn_inv [OF inv _ st])
      show "one_reader n (Call n ReadReq :: 'a request action)" by (simp add: one_reader_def)
      show "ends_with wrote_entry (Call n ReadReq) (th_ring st) (th_ring ?st) + writers_count n st \<le> writers_count n ?st"
        using w by (simp add: ends_with_def)
      show "result_of got_entry ?st n \<le> result_of got_entry st n + ends_with got_entry (Call n ReadReq) (th_ring st) (th_ring ?st)"
        using f by (simp add: result_of_def st act_call unfinished_counts del: start_call.simps)
      show "((th_in st)(n := True)) j \<or> is_finished (point_of (th_ring ?st) j)" for j
        using fin [of j] by (cases "j = n") (simp_all add: st act_other)
    qed (use le in auto)
  next
    case over
    then have st: "?st = st\<lparr>th_reader_end := Some (Ok (th_read st))\<rparr>" by (simp add: reader_turn_def)
    have "writers_count n ?st = writers_count n st" by (rule writers_count_same) (simp add: st)
    then show ?thesis
      by (intro quiet_turn_inv [OF inv])
        (use over le e in \<open>auto simp: st result_of_def split: if_splits\<close>)
  qed
qed

lemma threads_start_inv: "threads_inv p U rb n ops m (threads_start m)"
  unfolding threads_inv_def
  by (intro conjI exI [of _ "[]"]) (simp_all add: threads_start_def result_of_def idle_def is_finished_def)

lemma threads_run_inv:
  assumes "ring_safe rb m" "threads_inv p U rb n ops m st"
  shows "threads_inv p U rb n ops m (threads_run p U rb c data n ops sched st)"
  using assms(2)
proof (induction sched arbitrary: st)
  case (Cons x sched)
  obtain i sp where x: "x = (i, sp)" by (cases x)
  have "threads_inv p U rb n ops m (thread_turn p U rb c data n ops x st)"
    using writer_turn_inv [OF Cons.prems, of i] reader_turn_inv [OF Cons.prems assms(1)] Cons.prems
    by (simp add: x thread_turn_def)
  then show ?case using Cons.IH by (simp add: threads_run_def)
qed (simp add: threads_run_def)

subsection \<open>A reader that waits for a write that failed\<close>

lemma all_writes_done:
  assumes "ring_safe rb m" "ready_slots rb m = {}" "threads_inv p U rb n ops m st"
    and "th_reader_end st = Some (Ok k)" "i < n"
  shows "th_done st i + result_of wrote_entry st i = ops"
proof -
  have le: "\<And>i. i < n \<Longrightarrow> th_done st i + (if th_in st i then 1 else 0) \<le> ops"
    and r: "ops * n \<le> th_read st"
    using assms(3) by (rule threads_invE, blast)+ (use assms(3,4) in \<open>auto elim: threads_invE\<close>)
  obtain as where as: "\<forall>a\<in>set as. one_reader n a"
    "replies wrote_entry p U rb as (idle m) \<le> writers_count n st"
    "th_read st + result_of got_entry st n \<le> replies got_entry p U rb as (idle m)"
    using assms(3) by (rule threads_invE) blast
  have "th_read st \<le> writers_count n st"
    using as(2,3) idle_replies [OF assms(1) as(1), of p U] assms(2) by simp
  have one: "th_done st j + result_of wrote_entry st j \<le> ops" if "j < n" for j
    using le [OF that] unfinished_counts(5) [of "point_of (th_ring st) j"]
    by (simp add: result_of_def split: if_splits)
  show ?thesis
  proof (rule ccontr)
    assume "\<not> ?thesis"
    then have "writers_count n st < (\<Sum>j<n. ops)"
      unfolding writers_count_def using one le_neq_implies_less [OF one [OF assms(5)]] assms(5)
      by (intro sum_strict_mono_ex1) (auto intro!: bexI [of _ i])
    then show False using r \<open>th_read st \<le> writers_count n st\<close> by (simp add: mult.commute)
  qed
qed

lemma reader_turn_ends: "th_end (reader_turn p U rb expected r sp st) = th_end st"
proof (cases "point_of (th_ring st) r")
  case (Finished x)
  then show ?thesis
  proof (cases x)
    case (Ok v)
    with Finished show ?thesis by (cases v) (auto simp: reader_turn_def split: option.split)
  qed (simp_all add: reader_turn_def)
qed (simp_all add: reader_turn_def)

lemma writer_turn_ends:
  assumes "th_end st i \<noteq> None"
  shows "th_end (writer_turn p U rb c data ops j sp st) i = th_end st i"
proof (cases "j = i")
  case True
  then show ?thesis using assms by (simp add: writer_turn_def)
next
  case False
  show ?thesis
  proof (cases "point_of (th_ring st) j")
    case (Finished x)
    then show ?thesis using False by (cases x) (simp_all add: writer_turn_def)
  qed (use False in \<open>simp_all add: writer_turn_def\<close>)
qed

lemma ends_stay: "th_end st i \<noteq> None \<Longrightarrow> th_end (thread_turn p U rb c data n ops x st) i = th_end st i"
  by (cases x) (simp add: thread_turn_def writer_turn_ends reader_turn_ends)

lemma ends_stay_run:
  "th_end st i \<noteq> None \<Longrightarrow> th_end (threads_run p U rb c data n ops sched st) i = th_end st i"
proof (induction sched arbitrary: st)
  case (Cons x sched)
  have "th_end (thread_turn p U rb c data n ops x st) i = th_end st i" by (rule ends_stay [OF Cons.prems])
  then show ?case using Cons by (simp add: threads_run_def)
qed (simp add: threads_run_def)

lemma join_all_Ok:
  "join_all ends reader is = Some (Ok k) \<Longrightarrow> reader = Some (Ok k) \<and> (\<forall>i\<in>set is. \<exists>r. ends i = Some r)"
  by (induction "is") (auto split: option.splits outcome.splits)

lemma failed_write_never_joins:
  assumes "ring_safe rb m" "ready_slots rb m = {}" "i < n"
    and "th_end (threads_run p U rb c data n ops sched (threads_start m)) i = Some (Err e)"
  shows "run_benchmark p U rb c data n ops (sched @ later) m \<noteq> Some (Ok k)"
proof
  let ?st = "threads_run p U rb c data n ops (sched @ later) (threads_start m)"
  assume "run_benchmark p U rb c data n ops (sched @ later) m = Some (Ok k)"
  then have "th_reader_end ?st = Some (Ok k)"
    using join_all_Ok by (fastforce simp: run_benchmark_def Let_def)
  moreover have inv: "threads_inv p U rb n ops m ?st"
    by (rule threads_run_inv [OF assms(1) threads_start_inv])
  ultimately have "th_done ?st i + result_of wrote_entry ?st i = ops"
    by (intro all_writes_done [OF assms(1,2) _ _ assms(3)])
  moreover have "?st = threads_run p U rb c data n ops later (threads_run p U rb c data n ops sched (threads_start m))"
    by (simp add: threads_run_def)
  then have "th_end ?st i = Some (Err e)" using assms(4) by (simp add: ends_stay_run)
  then have "\<not> th_in ?st i \<and> th_done ?st i < ops" using inv assms(3) by (auto elim: threads_invE)
  ultimately show False by (simp add: result_of_def)
qed

subsection \<open>A writer alone\<close>

lemma result_stays:
  "is_finished (point_of s i) \<Longrightarrow> ring_run p U rb (replicate k (Run i sp)) s = s"
proof (induction k)
  case (Suc k)
  then have "ring_act p U rb (Run i sp) s = s"
    by (cases s) (simp add: act_Run call_step_finished)
  then show ?case using Suc by simp
qed simp

lemma writer_alone_run:
  assumes "0 < n" "th_end st 0 = None" "th_in st 0"
    and "is_finished (point_of (ring_run p U rb (replicate k (Run 0 False)) (th_ring st)) 0)"
  shows "\<exists>j. threads_run p U rb c data n ops (replicate j (0, False)) st =
    st\<lparr>th_ring := ring_run p U rb (replicate k (Run 0 False)) (th_ring st)\<rparr>"
  using assms(2-4)
proof (induction k arbitrary: st)
  case 0
  show ?case by (rule exI [of _ 0]) (simp add: threads_run_def)
next
  case (Suc k)
  show ?case
  proof (cases "is_finished (point_of (th_ring st) 0)")
    case True
    then have "ring_run p U rb (replicate (Suc k) (Run 0 False)) (th_ring st) = th_ring st"
      by (rule result_stays)
    then show ?thesis by (intro exI [of _ 0]) (simp add: threads_run_def)
  next
    case False
    let ?st = "st\<lparr>th_ring := ring_act p U rb (Run 0 False) (th_ring st)\<rparr>"
    have turn: "thread_turn p U rb c data n ops (0, False) st = ?st"
      using assms(1) Suc.prems(1,2) False
      by (cases "point_of (th_ring st) 0") (simp_all add: thread_turn_def writer_turn_def is_finished_def)
    obtain j where "threads_run p U rb c data n ops (replicate j (0, False)) ?st =
        ?st\<lparr>th_ring := ring_run p U rb (replicate k (Run 0 False)) (th_ring ?st)\<rparr>"
      using Suc.IH [of ?st] Suc.prems by auto
    then show ?thesis
      by (intro exI [of _ "Suc j"]) (simp add: threads_run_def turn)
  qed
qed

text \<open>One write of a writer that is alone.\<close>

lemma writer_alone_write:
  assumes "0 < n" "th_end st 0 = None" "\<not> th_in st 0" "th_done st 0 < ops"
    and "is_finished (point_of (th_ring st) 0)"
    and W_def: "W = ring_write p U undisturbed (wc_uuid (c 0 (th_done st 0))) (wc_now (c 0 (th_done st 0)))
      rb Custom data (snd (th_ring st))"
  obtains j st' where "threads_run p U rb c data n ops (replicate j (0, False)) st = st'"
    "\<not> th_in st' 0" "is_finished (point_of (th_ring st') 0)" "snd (th_ring st') = snd W"
    "\<And>v. fst W = Ok v \<Longrightarrow> th_end st' 0 = None \<and> th_done st' 0 = th_done st 0 + 1"
    "\<And>e. fst W = Err e \<Longrightarrow> th_end st' 0 = Some (Err e)"
proof -
  obtain T m where ring: "th_ring st = (T, m)" by (cases "th_ring st")
  let ?rq = "nth_write c data 0 (th_done st 0)"
  let ?s1 = "(T(0 := (?rq, WriteBegin)), m)"
  let ?st1 = "st\<lparr>th_ring := ?s1, th_in := (th_in st)(0 := True)\<rparr>"
  have t1: "thread_turn p U rb c data n ops (0, False) st = ?st1"
    using assms(1-5) by (simp add: thread_turn_def writer_turn_def ring act_Call nth_write_def)
  let ?r = "fst (wrote W)"
  let ?T1 = "T(0 := (?rq, WriteBegin))"
  have "rest p U rb ?rq WriteBegin m = (?r, snd (wrote W))" by (simp add: nth_write_def W_def ring)
  then obtain k where k: "ring_run p U rb (replicate k (Run 0 False)) ?s1 = (?T1(0 := (?rq, Finished ?r)), snd (wrote W))"
    using run_to_end [of ?T1 0 ?rq WriteBegin p U rb m ?r "snd (wrote W)"]
    by (auto simp: belongs_def nth_write_def)
  let ?s2 = "(?T1(0 := (?rq, Finished ?r)), snd (wrote W))"
  let ?st2 = "?st1\<lparr>th_ring := ?s2\<rparr>"
  obtain j where j: "threads_run p U rb c data n ops (replicate j (0, False)) ?st1 = ?st2"
    using writer_alone_run [OF assms(1), of ?st1 p U rb k c data ops] assms(2) k
    by (auto simp: is_finished_def)
  let ?st3 = "thread_turn p U rb c data n ops (0, False) ?st2"
  have run: "threads_run p U rb c data n ops (replicate (Suc (Suc j)) (0, False)) st = ?st3"
  proof -
    have "replicate (Suc (Suc j)) (0 :: nat, False) = (0, False) # replicate j (0, False) @ [(0, False)]"
      by (simp add: replicate_append_same)
    then show ?thesis using j by (simp add: threads_run_def t1)
  qed
  have w: "snd (wrote W) = snd W" "fst W = Ok v \<Longrightarrow> ?r = Ok (Wrote v)" "fst W = Err e \<Longrightarrow> ?r = Err e" for v e
    by (cases W; cases "fst W"; simp add: wrote_def)+
  have st3: "?st3 = writer_turn p U rb c data ops 0 False ?st2" using assms(1) by (simp add: thread_turn_def)
  show ?thesis
  proof (rule that [OF run])
    show "\<not> th_in ?st3 0" unfolding st3 using assms(2) by (cases ?r) (simp_all add: writer_turn_def)
    show "is_finished (point_of (th_ring ?st3) 0)" unfolding st3 using assms(2)
      by (cases ?r) (simp_all add: writer_turn_def is_finished_def)
    show "snd (th_ring ?st3) = snd W" unfolding st3 using assms(2) w(1)
      by (cases ?r) (simp_all add: writer_turn_def)
    show "fst W = Ok v \<Longrightarrow> th_end ?st3 0 = None \<and> th_done ?st3 0 = th_done st 0 + 1" for v
      unfolding st3 using assms(2) w(2) by (simp add: writer_turn_def)
    show "fst W = Err e \<Longrightarrow> th_end ?st3 0 = Some (Err e)" for e
      unfolding st3 using assms(2) w(3) by (simp add: writer_turn_def)
  qed
qed

lemma writer_alone_fails:
  assumes "0 < n"
  shows "th_end st 0 = None \<Longrightarrow> \<not> th_in st 0 \<Longrightarrow> is_finished (point_of (th_ring st) 0) \<Longrightarrow>
    th_done st 0 + N \<le> ops \<Longrightarrow>
    fst (write_all p U (\<lambda>k. (c 0 k)\<lparr>wc_env := undisturbed\<rparr>) rb Custom data (th_done st 0) N (snd (th_ring st))) = Err e \<Longrightarrow>
    \<exists>j. th_end (threads_run p U rb c data n ops (replicate j (0, False)) st) 0 = Some (Err e)"
proof (induction N arbitrary: st)
  case (Suc N)
  let ?W = "ring_write p U undisturbed (wc_uuid (c 0 (th_done st 0))) (wc_now (c 0 (th_done st 0)))
      rb Custom data (snd (th_ring st))"
  have "th_done st 0 < ops" using Suc.prems(4) by simp
  from writer_alone_write [OF assms Suc.prems(1,2) this Suc.prems(3) refl, where p = p and U = U and rb = rb and c = c and data = data]
  obtain j st' where st': "threads_run p U rb c data n ops (replicate j (0, False)) st = st'"
    "\<not> th_in st' 0" "is_finished (point_of (th_ring st') 0)" "snd (th_ring st') = snd ?W"
    "\<And>v. fst ?W = Ok v \<Longrightarrow> th_end st' 0 = None \<and> th_done st' 0 = th_done st 0 + 1"
    "\<And>e. fst ?W = Err e \<Longrightarrow> th_end st' 0 = Some (Err e)"
    by metis
  show ?case
  proof (cases "fst ?W")
    case (Ok v)
    have "fst (write_all p U (\<lambda>k. (c 0 k)\<lparr>wc_env := undisturbed\<rparr>) rb Custom data (th_done st' 0) N
        (snd (th_ring st'))) = Err e"
      using Suc.prems(5) st'(4) st'(5) [OF Ok] Ok by (cases ?W) simp
    then obtain k where "th_end (threads_run p U rb c data n ops (replicate k (0, False)) st') 0 = Some (Err e)"
      using Suc.IH [of st'] st'(2,3) st'(5) [OF Ok] Suc.prems(4) by auto
    then show ?thesis
      using st'(1) by (intro exI [of _ "j + k"]) (simp add: threads_run_def replicate_add)
  next
    case (Err x)
    then have "x = e" using Suc.prems(5) by (cases ?W) simp
    then show ?thesis using st'(1,6) Err by blast
  qed (use Suc.prems(5) in \<open>(cases ?W; simp)+\<close>)
qed simp

text \<open>
  C29: The threads of the NUMA example wait for every write: once a writer has ended with an
  error the benchmark never succeeds, whatever the schedule goes on to do, since its reader
  waits for an entry that nobody writes. And a writer can fail: on an empty ring with fewer
  slots than the writes of one thread there is a schedule under which the first writer ends
  with the error of a full ring.
\<close>

theorem failed_writer_hangs_the_benchmark:
  assumes "ring_wf rb m" "ring_queue rb m = []" "length data \<le> max_payload rb"
    and "0 < n" "slots m < ops"
  shows "(\<forall>sched later i e k. i < n \<and>
      th_end (threads_run p U rb c data n ops sched (threads_start m)) i = Some (Err e) \<longrightarrow>
      run_benchmark p U rb c data n ops (sched @ later) m \<noteq> Some (Ok k)) \<and>
    (\<exists>sched. th_end (threads_run p U rb c data n ops sched (threads_start m)) 0 = Some (Err (RingBufferFull 10)))"
proof -
  have safe: "ring_safe rb m" using ring_wfD(1,4) [OF assms(1)] by (simp add: ring_safe_def)
  have q: "pending m = 0" using assms(2) by (metis length_ring_queue list.size(3))
  have "fst (write_all p U (\<lambda>k. (c 0 k)\<lparr>wc_env := undisturbed\<rparr>) rb Custom data 0 (slots m + 1) m) =
      Err (RingBufferFull 10)"
    using write_all_count [OF assms(1) _ assms(3), of "\<lambda>k. (c 0 k)\<lparr>wc_env := undisturbed\<rparr>" p U Custom 0 "slots m + 1"] q
    by (simp add: quiet_def undisturbed_def)
  then have "\<exists>j. th_end (threads_run p U rb c data n ops (replicate j (0, False)) (threads_start m)) 0 =
      Some (Err (RingBufferFull 10))"
    using assms(4,5) by (intro writer_alone_fails [where N = "slots m + 1"])
      (simp_all add: threads_start_def idle_def is_finished_def)
  moreover have "run_benchmark p U rb c data n ops (sched @ later) m \<noteq> Some (Ok k)"
    if "i < n" "th_end (threads_run p U rb c data n ops sched (threads_start m)) i = Some (Err e)" for sched later i e k
    by (rule failed_write_never_joins [OF safe empty_ring_ready [OF assms(1,2)] that])
  ultimately show ?thesis by blast
qed

theorem failed_writer_hangs_the_benchmark_demo:
  "\<exists>sched. th_end (threads_run Debug demo_uuid demo_ring (\<lambda>_ _. demo_ctx) [1, 2] NUM_THREADS
      OPERATIONS_PER_THREAD sched (threads_start demo_mem)) 0 = Some (Err (RingBufferFull 10))"
  using failed_writer_hangs_the_benchmark [OF demo_created(2,3), of "[1, 2]" NUM_THREADS
      OPERATIONS_PER_THREAD Debug demo_uuid "\<lambda>_ _. demo_ctx"]
  by (simp add: NUM_THREADS_def OPERATIONS_PER_THREAD_def demo_created(4) demo_valid)

end
