(* ===== verification/Echo_Benchmark.thy ===== *)
theory Echo_Benchmark
  imports Main
begin

text \<open>
  The traditional network benchmark (\<open>run_traditional_network_benchmark\<close> of
  \<open>examples/cross_platform_benchmark.rs\<close>): the main thread and an echo server thread over one
  TCP connection with a buffer of \<open>cap\<close> bytes in each direction. A step is one call of one
  thread and its result; \<open>None\<close> says that the call cannot return that result now, so that
  a thread without a step waits. The bytes are all alike and are counted only. The measured
  times and the printing are left out.
\<close>

subsection \<open>The two threads\<close>

definition NET_DATA_SIZE :: nat where "NET_DATA_SIZE = 5 * 1024 * 1024"
definition NET_CHUNK_SIZE :: nat where "NET_CHUNK_SIZE = 64 * 1024"

definition chunks_to_send :: nat where "chunks_to_send = NET_DATA_SIZE div NET_CHUNK_SIZE"

text \<open>The chunks still to come after the one in hand, and the bytes of it that are left.\<close>

datatype main_point =
    MainBind
  | MainRecv
  | MainConnect
  | MainBlocking
  | MainWrite nat nat
  | MainRead nat
  | MainJoin
  | MainReturned bool

datatype echo_point =
    EchoNone
  | EchoSignal
  | EchoAccept
  | EchoRead
  | EchoWrite nat
  | EchoEnded

record 'p echo_state =
  es_left :: nat
  es_main :: 'p
  es_server :: echo_point
  es_ready :: bool
  es_connected :: bool
  es_to_server :: nat
  es_to_client :: nat
  es_client_open :: bool
  es_server_open :: bool
  es_sent :: nat
  es_received :: nat

text \<open>What a call returns: it moves a number of bytes, or none where it moves no data, or fails.\<close>

datatype io = Moves nat | Fails

datatype who = TheMain | TheServer

definition next_chunk :: "nat \<Rightarrow> main_point" where
  "next_chunk k = (if k = 0 then MainJoin else MainWrite (k - 1) NET_CHUNK_SIZE)"

text \<open>
  A write moves some of the \<open>n\<close> bytes, as far as the buffer has room; it does not wait for
  a peer that has closed its side.
\<close>

definition can_write :: "nat \<Rightarrow> nat \<Rightarrow> bool \<Rightarrow> nat \<Rightarrow> nat \<Rightarrow> bool" where
  "can_write cap buffered peer_open n m \<longleftrightarrow> 0 < m \<and> m \<le> n \<and> (peer_open \<longrightarrow> buffered + m \<le> cap)"

text \<open>A read moves some of what is buffered, or none at the end of the stream.\<close>

definition can_read :: "nat \<Rightarrow> bool \<Rightarrow> nat \<Rightarrow> nat \<Rightarrow> bool" where
  "can_read buffered peer_open len n \<longleftrightarrow>
     (if n = 0 then buffered = 0 \<and> \<not> peer_open else n \<le> buffered \<and> n \<le> len)"

definition main_step :: "nat \<Rightarrow> io \<Rightarrow> main_point echo_state \<Rightarrow> main_point echo_state option" where
  "main_step cap r s =
     (case es_main s of
        MainBind \<Rightarrow>
          if es_left s = 0 then Some (s\<lparr>es_main := MainReturned True\<rparr>)
          else (case r of
            Fails \<Rightarrow> Some (s\<lparr>es_main := MainReturned False\<rparr>)
          | Moves _ \<Rightarrow> Some (s\<lparr>es_main := MainRecv, es_server := EchoSignal, es_ready := False,
              es_connected := False, es_to_server := 0, es_to_client := 0, es_client_open := False,
              es_server_open := False, es_sent := 0, es_received := 0\<rparr>))
      | MainRecv \<Rightarrow> if es_ready s then Some (s\<lparr>es_main := MainConnect\<rparr>) else None
      | MainConnect \<Rightarrow>
          (case r of
             Fails \<Rightarrow> Some (s\<lparr>es_main := MainReturned False\<rparr>)
           | Moves _ \<Rightarrow> Some (s\<lparr>es_main := MainBlocking, es_connected := True, es_client_open := True,
               es_server_open := True\<rparr>))
      | MainBlocking \<Rightarrow>
          (case r of
             Fails \<Rightarrow> Some (s\<lparr>es_main := MainReturned False, es_client_open := False\<rparr>)
           | Moves _ \<Rightarrow> Some (s\<lparr>es_main := next_chunk chunks_to_send\<rparr>))
      | MainWrite k n \<Rightarrow>
          (case r of
             Fails \<Rightarrow> Some (s\<lparr>es_main := MainJoin\<rparr>)
           | Moves m \<Rightarrow>
               if can_write cap (es_to_server s) (es_server_open s) n m
               then Some (s\<lparr>es_to_server := es_to_server s + m,
                 es_sent := (if m = n then es_sent s + NET_CHUNK_SIZE else es_sent s),
                 es_main := (if m = n then MainRead k else MainWrite k (n - m))\<rparr>)
               else None)
      | MainRead k \<Rightarrow>
          (case r of
             Fails \<Rightarrow> Some (s\<lparr>es_main := MainJoin\<rparr>)
           | Moves n \<Rightarrow>
               if can_read (es_to_client s) (es_server_open s) NET_CHUNK_SIZE n
               then Some (s\<lparr>es_to_client := es_to_client s - n, es_received := es_received s + n,
                 es_main := (if n = 0 then MainJoin else next_chunk k)\<rparr>)
               else None)
      | MainJoin \<Rightarrow>
          if es_server s = EchoEnded
          then Some (s\<lparr>es_left := es_left s - 1, es_client_open := False, es_main := MainBind\<rparr>)
          else None
      | MainReturned ok \<Rightarrow> None)"

definition echo_end :: "'p echo_state \<Rightarrow> 'p echo_state" where
  "echo_end s = s\<lparr>es_server := EchoEnded, es_server_open := False\<rparr>"

definition echo_step :: "nat \<Rightarrow> io \<Rightarrow> 'p echo_state \<Rightarrow> 'p echo_state option" where
  "echo_step cap r s =
     (case es_server s of
        EchoSignal \<Rightarrow> Some (s\<lparr>es_ready := True, es_server := EchoAccept\<rparr>)
      | EchoAccept \<Rightarrow>
          (case r of
             Fails \<Rightarrow> Some (echo_end s)
           | Moves _ \<Rightarrow>
               if es_connected s then Some (s\<lparr>es_server := EchoRead\<rparr>) else None)
      | EchoRead \<Rightarrow>
          (case r of
             Fails \<Rightarrow> Some (echo_end s)
           | Moves n \<Rightarrow>
               if can_read (es_to_server s) (es_client_open s) NET_CHUNK_SIZE n
               then Some (if n = 0 then echo_end s
                 else s\<lparr>es_to_server := es_to_server s - n, es_server := EchoWrite n\<rparr>)
               else None)
      | EchoWrite n \<Rightarrow>
          (case r of
             Fails \<Rightarrow> Some (echo_end s)
           | Moves m \<Rightarrow>
               if can_write cap (es_to_client s) (es_client_open s) n m
               then Some (s\<lparr>es_to_client := es_to_client s + m,
                 es_server := (if m = n then EchoRead else EchoWrite (n - m))\<rparr>)
               else None)
      | _ \<Rightarrow> None)"

text \<open>A run of both threads, for a main thread with the given steps.\<close>

primrec conn_act ::
  "(io \<Rightarrow> 'p echo_state \<Rightarrow> 'p echo_state option) \<Rightarrow> nat \<Rightarrow> who \<times> io \<Rightarrow> 'p echo_state \<Rightarrow> 'p echo_state option" where
  "conn_act main cap (w, r) s = (case w of TheMain \<Rightarrow> main r s | TheServer \<Rightarrow> echo_step cap r s)"

primrec conn_run ::
  "(io \<Rightarrow> 'p echo_state \<Rightarrow> 'p echo_state option) \<Rightarrow> nat \<Rightarrow> (who \<times> io) list \<Rightarrow> 'p echo_state \<Rightarrow> 'p echo_state option" where
  "conn_run main cap [] s = Some s"
| "conn_run main cap (a # as) s =
     (case conn_act main cap a s of None \<Rightarrow> None | Some t \<Rightarrow> conn_run main cap as t)"

abbreviation echo_run :: "nat \<Rightarrow> (who \<times> io) list \<Rightarrow> main_point echo_state \<Rightarrow> main_point echo_state option" where
  "echo_run cap \<equiv> conn_run (main_step cap) cap"

definition run_traditional_network_benchmark :: "nat \<Rightarrow> main_point echo_state" where
  "run_traditional_network_benchmark iterations =
     \<lparr>es_left = iterations, es_main = MainBind, es_server = EchoNone, es_ready = False,
      es_connected = False, es_to_server = 0, es_to_client = 0, es_client_open = False,
      es_server_open = False, es_sent = 0, es_received = 0\<rparr>"

subsection \<open>Runs that end\<close>

text \<open>
  What has to be shown of the two threads: every call that does not fail keeps an invariant
  and leaves less to do.
\<close>

locale draining =
  fixes main :: "io \<Rightarrow> 'p echo_state \<Rightarrow> 'p echo_state option"
    and cap :: nat
    and inv :: "'p echo_state \<Rightarrow> bool"
    and todo :: "'p echo_state \<Rightarrow> nat"
  assumes main_less: "inv s \<Longrightarrow> main r s = Some t \<Longrightarrow> r \<noteq> Fails \<Longrightarrow> inv t \<and> todo t < todo s"
    and server_less: "inv s \<Longrightarrow> echo_step cap r s = Some t \<Longrightarrow> r \<noteq> Fails \<Longrightarrow> inv t \<and> todo t < todo s"
begin

lemma run_inv:
  assumes "inv s" "conn_run main cap acts s = Some t" "\<forall>a\<in>set acts. snd a \<noteq> Fails"
  shows "inv t \<and> length acts + todo t \<le> todo s"
  using assms
proof (induction acts arbitrary: s)
  case (Cons a acts)
  obtain w r where a: "a = (w, r)" by (cases a)
  obtain u where u: "conn_act main cap a s = Some u" "conn_run main cap acts u = Some t"
    using Cons.prems(2) by (auto split: option.splits)
  have "inv u \<and> todo u < todo s"
    using u(1) Cons.prems(3) main_less [OF Cons.prems(1)] server_less [OF Cons.prems(1)]
    by (cases w) (simp_all add: a)
  moreover then have "inv t \<and> length acts + todo t \<le> todo u"
    using Cons.IH [OF _ u(2)] Cons.prems(3) by simp
  ultimately show ?case by simp
qed simp

end

subsection \<open>Where the bytes are\<close>

fun unsent :: "main_point \<Rightarrow> nat" where
  "unsent (MainWrite k n) = k * NET_CHUNK_SIZE + n"
| "unsent (MainRead k) = k * NET_CHUNK_SIZE"
| "unsent MainJoin = 0"
| "unsent (MainReturned ok) = 0"
| "unsent _ = NET_DATA_SIZE"

fun in_echo :: "echo_point \<Rightarrow> nat" where
  "in_echo (EchoWrite n) = n"
| "in_echo _ = 0"

text \<open>Every chunk but the one in hand has been answered by at most one read of its size.\<close>

fun main_ok :: "main_point \<Rightarrow> nat \<Rightarrow> bool" where
  "main_ok (MainWrite k n) received \<longleftrightarrow>
     0 < n \<and> n \<le> NET_CHUNK_SIZE \<and> received + (k + 1) * NET_CHUNK_SIZE \<le> NET_DATA_SIZE"
| "main_ok (MainRead k) received \<longleftrightarrow> received + (k + 1) * NET_CHUNK_SIZE \<le> NET_DATA_SIZE"
| "main_ok (MainReturned ok) received \<longleftrightarrow> False"
| "main_ok _ received \<longleftrightarrow> True"

definition before_connect :: "main_point \<Rightarrow> bool" where
  "before_connect pt \<longleftrightarrow> pt = MainBind \<or> pt = MainRecv \<or> pt = MainConnect"

definition echo_inv :: "main_point echo_state \<Rightarrow> bool" where
  "echo_inv s \<longleftrightarrow>
     0 < es_left s \<and> es_server s \<noteq> EchoEnded \<and> es_server s \<noteq> EchoWrite 0 \<and>
     main_ok (es_main s) (es_received s) \<and>
     unsent (es_main s) + es_received s + es_to_server s + in_echo (es_server s) + es_to_client s = NET_DATA_SIZE \<and>
     (if before_connect (es_main s)
      then \<not> es_connected s \<and> es_server s \<in> {EchoNone, EchoSignal, EchoAccept} \<and> es_received s = 0
      else es_connected s \<and> es_client_open s \<and> es_server_open s \<and> es_server s \<noteq> EchoNone) \<and>
     (es_main s = MainBind \<longrightarrow> es_server s = EchoNone) \<and>
     (es_main s = MainRecv \<or> es_main s = MainConnect \<longrightarrow> es_server s \<noteq> EchoNone) \<and>
     (es_main s = MainRecv \<longrightarrow> es_server s = EchoSignal \<or> es_ready s)"

fun main_rank :: "main_point \<Rightarrow> nat" where
  "main_rank MainBind = 6"
| "main_rank MainRecv = 3"
| "main_rank MainConnect = 2"
| "main_rank MainBlocking = 1"
| "main_rank _ = 0"

fun echo_rank :: "echo_point \<Rightarrow> nat" where
  "echo_rank EchoSignal = 2"
| "echo_rank EchoAccept = 1"
| "echo_rank _ = 0"

lemma net_sizes: "0 < NET_CHUNK_SIZE" "chunks_to_send * NET_CHUNK_SIZE = NET_DATA_SIZE" "0 < chunks_to_send"
  by (simp_all add: chunks_to_send_def NET_DATA_SIZE_def NET_CHUNK_SIZE_def)

lemma next_chunk_facts:
  assumes "received + k * NET_CHUNK_SIZE \<le> NET_DATA_SIZE"
  shows "main_ok (next_chunk k) received" "\<not> before_connect (next_chunk k)"
    "next_chunk k \<notin> {MainBind, MainRecv, MainConnect, MainBlocking}" "next_chunk k \<noteq> MainReturned ok"
    "main_rank (next_chunk k) = 0"
    "unsent (next_chunk k) = k * NET_CHUNK_SIZE"
  using assms net_sizes(1) by (cases k; simp add: next_chunk_def before_connect_def)+

subsection \<open>How much is left to do\<close>

text \<open>Every byte that moves comes one place nearer to its reader.\<close>

definition echo_left :: "main_point echo_state \<Rightarrow> nat" where
  "echo_left s = 4 * unsent (es_main s) + 3 * es_to_server s + 2 * in_echo (es_server s) + es_to_client s +
     main_rank (es_main s) + echo_rank (es_server s)"

lemma main_step_inv:
  assumes "echo_inv s" "main_step cap r s = Some t" "r \<noteq> Fails"
  shows "echo_inv t \<and> echo_left t < echo_left s"
proof -
  obtain m where r: "r = Moves m" using assms(3) by (cases r) simp_all
  show ?thesis
  proof (cases "es_main s")
    case MainBlocking
    have "es_received s + chunks_to_send * NET_CHUNK_SIZE \<le> NET_DATA_SIZE"
      using assms(1) by (simp add: echo_inv_def MainBlocking net_sizes(2))
    note n = next_chunk_facts [OF this]
    have "t = s\<lparr>es_main := next_chunk chunks_to_send\<rparr>"
      using assms(2) by (simp add: main_step_def r MainBlocking)
    then show ?thesis
      using assms(1) n net_sizes by (simp add: echo_inv_def echo_left_def MainBlocking before_connect_def)
  next
    case (MainRead k)
    have m: "m \<noteq> 0" "m \<le> es_to_client s" "m \<le> NET_CHUNK_SIZE"
      and t: "t = s\<lparr>es_to_client := es_to_client s - m, es_received := es_received s + m,
        es_main := next_chunk k\<rparr>"
      using assms(1,2)
      by (auto simp: main_step_def r MainRead can_read_def echo_inv_def before_connect_def split: if_splits)
    have "es_received s + m + k * NET_CHUNK_SIZE \<le> NET_DATA_SIZE"
      using assms(1) m(3) by (simp add: echo_inv_def MainRead)
    note n = next_chunk_facts [OF this]
    show ?thesis
      using assms(1) m n by (simp add: t echo_inv_def echo_left_def MainRead before_connect_def)
  next
    case (MainWrite k n)
    have m: "0 < m" "m \<le> n"
      and t: "t = s\<lparr>es_to_server := es_to_server s + m,
        es_sent := (if m = n then es_sent s + NET_CHUNK_SIZE else es_sent s),
        es_main := (if m = n then MainRead k else MainWrite k (n - m))\<rparr>"
      using assms(2) by (auto simp: main_step_def r MainWrite can_write_def split: if_splits)
    show ?thesis
      using assms(1) m by (auto simp: t echo_inv_def echo_left_def MainWrite before_connect_def)
  qed (use assms(1,2) in \<open>auto simp: main_step_def r echo_inv_def echo_left_def before_connect_def split: if_splits\<close>)
qed

lemma echo_step_inv:
  assumes "echo_inv s" "echo_step cap r s = Some t" "r \<noteq> Fails"
  shows "echo_inv t \<and> echo_left t < echo_left s"
proof -
  obtain m where r: "r = Moves m" using assms(3) by (cases r) simp_all
  show ?thesis
  proof (cases "es_server s")
    case EchoRead
    have b: "\<not> before_connect (es_main s)" using assms(1) EchoRead by (auto simp: echo_inv_def)
    have m: "m \<noteq> 0" "m \<le> es_to_server s"
      and t: "t = s\<lparr>es_to_server := es_to_server s - m, es_server := EchoWrite m\<rparr>"
      using assms(1,2) b by (auto simp: echo_step_def r EchoRead can_read_def echo_inv_def split: if_splits)
    show ?thesis using assms(1) b m by (simp add: t EchoRead echo_inv_def echo_left_def)
  next
    case (EchoWrite n)
    have b: "\<not> before_connect (es_main s)" using assms(1) EchoWrite by (auto simp: echo_inv_def)
    have m: "0 < m" "m \<le> n"
      and t: "t = s\<lparr>es_to_client := es_to_client s + m,
        es_server := (if m = n then EchoRead else EchoWrite (n - m))\<rparr>"
      using assms(2) by (auto simp: echo_step_def r EchoWrite can_write_def split: if_splits)
    show ?thesis using assms(1) b m by (auto simp: t EchoWrite echo_inv_def echo_left_def)
  next
    case EchoSignal
    then have "t = s\<lparr>es_ready := True, es_server := EchoAccept\<rparr>" using assms(2) by (simp add: echo_step_def)
    then show ?thesis using assms(1) EchoSignal by (simp add: echo_inv_def echo_left_def split: if_splits)
  next
    case EchoAccept
    then have "t = s\<lparr>es_server := EchoRead\<rparr>" "es_connected s"
      using assms(2) by (simp_all add: echo_step_def r split: if_splits)
    then show ?thesis using assms(1) EchoAccept by (auto simp: echo_inv_def echo_left_def split: if_splits)
  qed (use assms(1,2) in \<open>simp_all add: echo_step_def r echo_inv_def\<close>)
qed

interpretation traditional: draining "main_step cap" cap echo_inv echo_left for cap
  by unfold_locales (use main_step_inv echo_step_inv in blast)+

subsection \<open>Where it waits\<close>

text \<open>No thread can return from its call, unless the call fails.\<close>

definition deadlocked ::
  "(io \<Rightarrow> 'p echo_state \<Rightarrow> 'p echo_state option) \<Rightarrow> nat \<Rightarrow> 'p echo_state \<Rightarrow> bool" where
  "deadlocked main cap s \<longleftrightarrow> (\<forall>w m. conn_act main cap (w, Moves m) s = None)"

lemma deadlocked_where:
  assumes "echo_inv s" "0 < cap" "deadlocked (main_step cap) cap s"
  shows "(es_main s = MainJoin \<and> es_server s = EchoRead \<and> es_to_server s = 0 \<and> es_client_open s) \<or>
    (es_main s = MainJoin \<or> (\<exists>k n. es_main s = MainWrite k n \<and> cap \<le> es_to_server s)) \<and>
      (\<exists>n. es_server s = EchoWrite n) \<and> cap \<le> es_to_client s"
proof -
  have m: "main_step cap (Moves x) s = None" and e: "echo_step cap (Moves x) s = None" for x
    using assms(3) by (auto simp: deadlocked_def dest: spec [of _ TheMain] spec [of _ TheServer])
  have b: "\<not> before_connect (es_main s)"
    using m [of 0] e [of 0] assms(1) by (auto simp: before_connect_def main_step_def echo_step_def echo_inv_def)
  then have open_: "es_connected s" "es_client_open s" "es_server_open s" "es_server s \<noteq> EchoNone"
    using assms(1) by (simp_all add: echo_inv_def)
  have server: "es_server s = EchoRead \<and> es_to_server s = 0 \<or> (\<exists>n. es_server s = EchoWrite n) \<and> cap \<le> es_to_client s"
  proof (cases "es_server s")
    case EchoRead
    then show ?thesis using e [of 1] net_sizes(1) by (auto simp: echo_step_def can_read_def split: if_splits)
  next
    case (EchoWrite n)
    moreover have "n \<noteq> 0" using EchoWrite assms(1) by (auto simp: echo_inv_def)
    ultimately show ?thesis using e [of 1] by (auto simp: echo_step_def can_write_def split: if_splits)
  qed (use e [of 0] open_ assms(1) in \<open>auto simp: echo_step_def echo_inv_def split: if_splits\<close>)
  show ?thesis
  proof (cases "es_main s")
    case (MainWrite k n)
    then have "0 < n" using assms(1) by (simp add: echo_inv_def)
    then have "cap \<le> es_to_server s"
      using m [of 1] MainWrite by (auto simp: main_step_def can_write_def split: if_splits)
    then show ?thesis using server MainWrite assms(2) by auto
  next
    case (MainRead k)
    have z: "es_to_client s = 0"
      using m [of 1] net_sizes(1) by (auto simp: main_step_def MainRead can_read_def split: if_splits)
    then have "es_to_server s = 0" "in_echo (es_server s) = 0" using server assms(2) by auto
    then show ?thesis using assms(1) z net_sizes(1) by (simp add: echo_inv_def MainRead)
  next
    case MainJoin
    then show ?thesis using server open_ by auto
  qed (use b m [of 0] assms(1) in \<open>auto simp: before_connect_def main_step_def echo_inv_def split: if_splits\<close>)
qed

text \<open>
  C27: The traditional network benchmark hangs. For any positive number of iterations, sizes
  of the buffers of the connection, schedule of its two threads and sizes of their reads and
  writes: as long as no call fails, the benchmark has not returned, at most some twenty
  million calls return at all, and where none can, either the main thread waits for the
  server to end while the server waits for the end of a stream that the main thread still
  holds open, or both sides wait for room in full buffers.
\<close>

theorem network_benchmark_hangs:
  assumes "0 < iterations" "0 < cap" "\<forall>a\<in>set acts. snd a \<noteq> Fails"
    and "echo_run cap acts (run_traditional_network_benchmark iterations) = Some s"
  shows "(\<forall>ok. es_main s \<noteq> MainReturned ok) \<and> length acts \<le> 4 * NET_DATA_SIZE + 6 \<and>
    (deadlocked (main_step cap) cap s \<longrightarrow>
      (es_main s = MainJoin \<and> es_server s = EchoRead \<and> es_to_server s = 0 \<and> es_client_open s) \<or>
      (es_main s = MainJoin \<or> (\<exists>k n. es_main s = MainWrite k n \<and> cap \<le> es_to_server s)) \<and>
        (\<exists>n. es_server s = EchoWrite n) \<and> cap \<le> es_to_client s)"
proof -
  have "echo_inv (run_traditional_network_benchmark iterations)"
    "echo_left (run_traditional_network_benchmark iterations) = 4 * NET_DATA_SIZE + 6"
    using assms(1)
    by (simp_all add: run_traditional_network_benchmark_def echo_inv_def echo_left_def before_connect_def)
  then have inv: "echo_inv s" and len: "length acts \<le> 4 * NET_DATA_SIZE + 6"
    using traditional.run_inv [OF _ assms(4,3)] by force+
  have "\<forall>ok. es_main s \<noteq> MainReturned ok" using inv by (auto simp: echo_inv_def)
  with len show ?thesis using deadlocked_where [OF inv assms(2)] by blast
qed

text \<open>A run in step to the end of the data: each chunk is sent, echoed and read at once.\<close>

definition echo_start :: "(who \<times> io) list" where
  "echo_start = [(TheMain, Moves 0), (TheServer, Moves 0), (TheMain, Moves 0), (TheMain, Moves 0),
     (TheMain, Moves 0), (TheServer, Moves 0)]"

definition echo_round :: "(who \<times> io) list" where
  "echo_round = map (\<lambda>w. (w, Moves NET_CHUNK_SIZE)) [TheMain, TheServer, TheServer, TheMain]"

lemma conn_run_append:
  "conn_run main cap (as @ bs) s =
    (case conn_run main cap as s of None \<Rightarrow> None | Some t \<Rightarrow> conn_run main cap bs t)"
  by (induction as arbitrary: s) (simp_all split: option.split)

definition in_step :: "main_point \<Rightarrow> nat \<Rightarrow> main_point echo_state" where
  "in_step pt n =
     \<lparr>es_left = 2, es_main = pt, es_server = EchoRead, es_ready = True,
      es_connected = True, es_to_server = 0, es_to_client = 0, es_client_open = True,
      es_server_open = True, es_sent = n, es_received = n\<rparr>"

lemma echo_start_run:
  "echo_run NET_CHUNK_SIZE echo_start (run_traditional_network_benchmark 2) =
    Some (in_step (next_chunk chunks_to_send) 0)"
  by (simp add: echo_start_def run_traditional_network_benchmark_def main_step_def echo_step_def in_step_def)

lemma echo_round_run:
  "echo_run NET_CHUNK_SIZE echo_round (in_step (MainWrite k NET_CHUNK_SIZE) n) =
    Some (in_step (next_chunk k) (n + NET_CHUNK_SIZE))"
  using net_sizes(1)
  by (simp add: echo_round_def in_step_def main_step_def echo_step_def can_write_def can_read_def)

lemma echo_rounds_run:
  "echo_run NET_CHUNK_SIZE (concat (replicate k echo_round)) (in_step (next_chunk k) n) =
    Some (in_step MainJoin (n + k * NET_CHUNK_SIZE))"
proof (induction k arbitrary: n)
  case (Suc k)
  have "next_chunk (Suc k) = MainWrite k NET_CHUNK_SIZE" by (simp add: next_chunk_def)
  then show ?case using Suc [of "n + NET_CHUNK_SIZE"] by (simp add: conn_run_append echo_round_run algebra_simps)
qed (simp add: next_chunk_def)

theorem network_benchmark_hangs_demo:
  "\<exists>s. echo_run NET_CHUNK_SIZE (echo_start @ concat (replicate chunks_to_send echo_round))
      (run_traditional_network_benchmark 2) = Some s \<and>
    es_received s = NET_DATA_SIZE \<and> deadlocked (main_step NET_CHUNK_SIZE) NET_CHUNK_SIZE s \<and> (\<forall>ok. es_main s \<noteq> MainReturned ok) \<and>
    es_main s = MainJoin \<and> es_server s = EchoRead \<and> es_client_open s"
proof -
  let ?s = "in_step MainJoin NET_DATA_SIZE"
  have run: "echo_run NET_CHUNK_SIZE (echo_start @ concat (replicate chunks_to_send echo_round))
      (run_traditional_network_benchmark 2) = Some ?s"
    using echo_rounds_run [of chunks_to_send 0] by (simp add: conn_run_append echo_start_run net_sizes(2))
  have fine: "\<forall>a\<in>set (echo_start @ concat (replicate chunks_to_send echo_round)). snd a \<noteq> Fails"
    by (auto simp: echo_start_def echo_round_def)
  have "conn_act (main_step NET_CHUNK_SIZE) NET_CHUNK_SIZE (w, Moves m) ?s = None" for w m
    by (cases w) (simp_all add: in_step_def main_step_def echo_step_def can_read_def)
  then have dead: "deadlocked (main_step NET_CHUNK_SIZE) NET_CHUNK_SIZE ?s" by (simp add: deadlocked_def)
  show ?thesis
    using network_benchmark_hangs [OF _ net_sizes(1) fine run] run dead by (simp add: in_step_def)
qed

text \<open>A call that fails lets it return: a server whose read fails ends, and so does the join.\<close>

lemma failing_server_ends_it:
  "\<exists>acts s. echo_run NET_CHUNK_SIZE acts (run_traditional_network_benchmark 1) = Some s \<and>
    es_main s = MainReturned True"
  by (rule exI [of _ "echo_start @ [(TheServer, Fails), (TheMain, Moves NET_CHUNK_SIZE), (TheMain, Moves 0),
      (TheMain, Moves 0), (TheMain, Moves 0)]"])
    (simp add: echo_start_def run_traditional_network_benchmark_def main_step_def echo_step_def
      echo_end_def next_chunk_def can_write_def can_read_def net_sizes)

end
