(* ===== verification/Echo_Throughput.thy ===== *)
theory Echo_Throughput
  imports Echo_Benchmark
begin

text \<open>
  The network benchmark of the engine (\<open>run_network_throughput_benchmark\<close> of
  \<open>examples/cross_platform_benchmark.rs\<close>) beside the same echo server. A call of the engine on
  its one connection is one call on the socket of the connection. \<open>buf\<close> is the buffer size of
  the engine. The engine closes a connection by dropping its stream, which is done before the
  program waits for the server. When the socket of a dropped stream is closed is up to
  \<open>tokio_uring\<close>, a parameter: \<open>now\<close> says that it is closed at once; otherwise it is closed in the
  background, which is when the thread drives its runtime again, after the wait for the server.
\<close>

datatype engine_point =
    EngBind
  | EngRecv
  | EngConnect
  | EngWrite nat
  | EngRead nat
  | EngClose
  | EngJoin
  | EngReturned bool

definition next_write :: "nat \<Rightarrow> engine_point" where
  "next_write k = (if k = 0 then EngClose else EngWrite (k - 1))"

text \<open>\<open>es_left\<close> counts the iterations that have not begun.\<close>

definition engine_step ::
  "bool \<Rightarrow> nat \<Rightarrow> nat \<Rightarrow> io \<Rightarrow> engine_point echo_state \<Rightarrow> engine_point echo_state option" where
  "engine_step now cap buf r s =
     (case es_main s of
        EngBind \<Rightarrow>
          if es_left s = 0 then Some (s\<lparr>es_main := EngReturned True\<rparr>)
          else (case r of
            Fails \<Rightarrow> Some (s\<lparr>es_main := EngReturned False\<rparr>)
          | Moves _ \<Rightarrow> Some (s\<lparr>es_left := es_left s - 1, es_main := EngRecv, es_server := EchoSignal,
              es_ready := False, es_connected := False, es_to_server := 0, es_to_client := 0,
              es_client_open := False, es_server_open := False, es_sent := 0, es_received := 0\<rparr>))
      | EngRecv \<Rightarrow> if es_ready s then Some (s\<lparr>es_main := EngConnect\<rparr>) else None
      | EngConnect \<Rightarrow>
          (case r of
             Fails \<Rightarrow> Some (s\<lparr>es_main := EngReturned False\<rparr>)
           | Moves _ \<Rightarrow> Some (s\<lparr>es_main := next_write chunks_to_send, es_connected := True,
               es_client_open := True, es_server_open := True\<rparr>))
      | EngWrite k \<Rightarrow>
          (case r of
             Fails \<Rightarrow> Some (s\<lparr>es_main := EngReturned False\<rparr>)
           | Moves m \<Rightarrow>
               if can_write cap (es_to_server s) (es_server_open s) NET_CHUNK_SIZE m
               then Some (s\<lparr>es_to_server := es_to_server s + m, es_sent := es_sent s + m,
                 es_main := EngRead k\<rparr>)
               else None)
      | EngRead k \<Rightarrow>
          (case r of
             Fails \<Rightarrow> Some (s\<lparr>es_main := EngReturned False\<rparr>)
           | Moves n \<Rightarrow>
               if can_read (es_to_client s) (es_server_open s) buf n
               then Some (s\<lparr>es_to_client := es_to_client s - n, es_received := es_received s + n,
                 es_main := next_write k\<rparr>)
               else None)
      | EngClose \<Rightarrow>
          (case r of
             Fails \<Rightarrow> Some (s\<lparr>es_main := EngReturned False\<rparr>)
           | Moves _ \<Rightarrow> Some (s\<lparr>es_client_open := \<not> now, es_main := EngJoin\<rparr>))
      | EngJoin \<Rightarrow>
          if es_server s = EchoEnded then Some (s\<lparr>es_client_open := False, es_main := EngBind\<rparr>) else None
      | EngReturned ok \<Rightarrow> None)"

definition run_network_throughput_benchmark :: "nat \<Rightarrow> engine_point echo_state" where
  "run_network_throughput_benchmark iterations =
     \<lparr>es_left = iterations, es_main = EngBind, es_server = EchoNone, es_ready = False,
      es_connected = False, es_to_server = 0, es_to_client = 0, es_client_open = False,
      es_server_open = False, es_sent = 0, es_received = 0\<rparr>"

subsection \<open>What it keeps\<close>

definition in_flight :: "'p echo_state \<Rightarrow> nat" where
  "in_flight s = es_to_server s + in_echo (es_server s) + es_to_client s"

fun engine_ok :: "engine_point \<Rightarrow> nat \<Rightarrow> bool" where
  "engine_ok (EngWrite k) n \<longleftrightarrow> (k + 1) * NET_CHUNK_SIZE + n \<le> NET_DATA_SIZE"
| "engine_ok (EngRead k) n \<longleftrightarrow> 0 < n \<and> k * NET_CHUNK_SIZE + n \<le> NET_DATA_SIZE"
| "engine_ok (EngReturned ok) n \<longleftrightarrow> ok"
| "engine_ok _ n \<longleftrightarrow> n \<le> NET_DATA_SIZE"

text \<open>The program before it connects, with a connection, and after closing it.\<close>

definition engine_inv :: "bool \<Rightarrow> engine_point echo_state \<Rightarrow> bool" where
  "engine_inv now s \<longleftrightarrow>
     (case es_main s of
        EngBind \<Rightarrow> es_server s \<in> {EchoNone, EchoEnded} \<and> (now \<or> 0 < es_left s)
      | EngReturned ok \<Rightarrow> ok \<and> now \<and> es_server s \<in> {EchoNone, EchoEnded}
      | pt \<Rightarrow>
          engine_ok pt (in_flight s) \<and> es_server s \<notin> {EchoNone, EchoWrite 0} \<and>
          (if pt = EngRecv \<or> pt = EngConnect
           then \<not> es_connected s \<and> es_server s \<in> {EchoSignal, EchoAccept} \<and> in_flight s = 0 \<and>
             (es_server s = EchoSignal \<or> es_ready s)
           else es_connected s \<and> (es_client_open s \<longleftrightarrow> pt \<noteq> EngJoin \<or> \<not> now) \<and>
             (es_server_open s \<longleftrightarrow> es_server s \<noteq> EchoEnded) \<and>
             (es_server s = EchoEnded \<longrightarrow> pt = EngJoin \<and> now)))"

fun engine_rank :: "engine_point \<Rightarrow> nat" where
  "engine_rank EngRecv = 6"
| "engine_rank EngConnect = 5"
| "engine_rank (EngWrite k) = 4"
| "engine_rank (EngRead k) = 4"
| "engine_rank EngClose = 3"
| "engine_rank _ = 2"

fun server_rank :: "echo_point \<Rightarrow> nat" where
  "server_rank EchoSignal = 3"
| "server_rank EchoAccept = 2"
| "server_rank EchoRead = 1"
| "server_rank (EchoWrite n) = 1"
| "server_rank _ = 0"

fun unwritten :: "engine_point \<Rightarrow> nat" where
  "unwritten EngRecv = NET_DATA_SIZE"
| "unwritten EngConnect = NET_DATA_SIZE"
| "unwritten (EngWrite k) = (k + 1) * NET_CHUNK_SIZE"
| "unwritten (EngRead k) = k * NET_CHUNK_SIZE"
| "unwritten _ = 0"

definition iteration_left :: "engine_point echo_state \<Rightarrow> nat" where
  "iteration_left s =
     (case es_main s of EngBind \<Rightarrow> 1 | EngReturned ok \<Rightarrow> 0 | pt \<Rightarrow>
        4 * unwritten pt + 3 * es_to_server s + 2 * in_echo (es_server s) + es_to_client s +
        engine_rank pt + server_rank (es_server s))"

definition engine_left :: "engine_point echo_state \<Rightarrow> nat" where
  "engine_left s = (4 * NET_DATA_SIZE + 10) * es_left s + iteration_left s"

text \<open>What an engine with a connection satisfies, whether its server has accepted or not.\<close>

definition linked :: "engine_point echo_state \<Rightarrow> bool" where
  "linked s \<longleftrightarrow> es_connected s \<and> es_server s \<notin> {EchoNone, EchoWrite 0} \<and>
     (es_server_open s \<longleftrightarrow> es_server s \<noteq> EchoEnded)"

lemma engine_inv_simps:
  "es_main s = EngWrite k \<Longrightarrow> engine_inv now s \<longleftrightarrow>
     linked s \<and> es_client_open s \<and> es_server s \<noteq> EchoEnded \<and> (k + 1) * NET_CHUNK_SIZE + in_flight s \<le> NET_DATA_SIZE"
  "es_main s = EngRead k \<Longrightarrow> engine_inv now s \<longleftrightarrow>
     linked s \<and> es_client_open s \<and> es_server s \<noteq> EchoEnded \<and> 0 < in_flight s \<and> k * NET_CHUNK_SIZE + in_flight s \<le> NET_DATA_SIZE"
  "es_main s = EngClose \<Longrightarrow> engine_inv now s \<longleftrightarrow>
     linked s \<and> es_client_open s \<and> es_server s \<noteq> EchoEnded \<and> in_flight s \<le> NET_DATA_SIZE"
  "es_main s = EngJoin \<Longrightarrow> engine_inv now s \<longleftrightarrow>
     linked s \<and> (es_client_open s \<longleftrightarrow> \<not> now) \<and> (es_server s = EchoEnded \<longrightarrow> now) \<and> in_flight s \<le> NET_DATA_SIZE"
  "es_main s = EngRecv \<or> es_main s = EngConnect \<Longrightarrow> engine_inv now s \<longleftrightarrow>
     \<not> es_connected s \<and> in_flight s = 0 \<and> (es_server s = EchoSignal \<or> es_server s = EchoAccept \<and> es_ready s)"
  "es_main s = EngBind \<Longrightarrow> engine_inv now s \<longleftrightarrow> es_server s \<in> {EchoNone, EchoEnded} \<and> (now \<or> 0 < es_left s)"
  "es_main s = EngReturned ok \<Longrightarrow> engine_inv now s \<longleftrightarrow> ok \<and> now \<and> es_server s \<in> {EchoNone, EchoEnded}"
  by (auto simp: engine_inv_def linked_def)

lemma next_write_inv:
  assumes "es_main s = next_write k" "linked s" "es_client_open s" "es_server s \<noteq> EchoEnded"
    "k * NET_CHUNK_SIZE + in_flight s \<le> NET_DATA_SIZE"
  shows "engine_inv now s"
    "iteration_left s \<le> 4 * (k * NET_CHUNK_SIZE) + 3 * es_to_server s + 2 * in_echo (es_server s) +
      es_to_client s + 4 + server_rank (es_server s)"
  using assms by (cases k; simp add: next_write_def engine_inv_simps iteration_left_def)+

lemma engine_step_inv:
  assumes "engine_inv now s" "engine_step now cap buf r s = Some t" "r \<noteq> Fails"
  shows "engine_inv now t \<and> engine_left t < engine_left s"
proof -
  obtain m where r: "r = Moves m" using assms(3) by (cases r) simp_all
  show ?thesis
  proof (cases "es_main s")
    case EngBind
    show ?thesis
    proof (cases "es_left s")
      case 0
      then show ?thesis
        using assms(1,2) EngBind by (auto simp: engine_step_def engine_inv_simps engine_left_def iteration_left_def)
    next
      case (Suc n)
      have t: "t = s\<lparr>es_left := n, es_main := EngRecv, es_server := EchoSignal,
              es_ready := False, es_connected := False, es_to_server := 0, es_to_client := 0,
              es_client_open := False, es_server_open := False, es_sent := 0, es_received := 0\<rparr>"
        using assms(2) by (simp add: engine_step_def EngBind r Suc)
      show ?thesis
        by (simp add: t engine_inv_simps in_flight_def engine_left_def iteration_left_def EngBind Suc)
    qed
  next
    case EngConnect
    let ?t = "s\<lparr>es_main := next_write chunks_to_send, es_connected := True,
               es_client_open := True, es_server_open := True\<rparr>"
    have t: "t = ?t" using assms(2) by (simp add: engine_step_def EngConnect r)
    have s: "in_flight s = 0" "es_server s = EchoSignal \<or> es_server s = EchoAccept"
      using assms(1) by (auto simp: engine_inv_simps EngConnect)
    have l: "linked ?t" "es_client_open ?t" "es_server ?t \<noteq> EchoEnded"
      "chunks_to_send * NET_CHUNK_SIZE + in_flight ?t \<le> NET_DATA_SIZE"
      using s by (auto simp: linked_def in_flight_def net_sizes)
    have "es_main ?t = next_write chunks_to_send" by simp
    from next_write_inv [OF this l] show ?thesis
      using s(1) net_sizes(2) by (simp add: t engine_left_def iteration_left_def [of s] EngConnect in_flight_def)
  next
    case (EngRead k)
    let ?t = "s\<lparr>es_to_client := es_to_client s - m, es_received := es_received s + m, es_main := next_write k\<rparr>"
    have s: "linked s" "es_client_open s" "es_server s \<noteq> EchoEnded" "k * NET_CHUNK_SIZE + in_flight s \<le> NET_DATA_SIZE"
      using assms(1) by (simp_all add: engine_inv_simps EngRead)
    then have m: "0 < m" "m \<le> es_to_client s" and t: "t = ?t"
      using assms(2) by (auto simp: engine_step_def EngRead r can_read_def linked_def split: if_splits)
    have l: "linked ?t" "es_client_open ?t" "es_server ?t \<noteq> EchoEnded"
      "k * NET_CHUNK_SIZE + in_flight ?t \<le> NET_DATA_SIZE"
      using s m by (simp_all add: linked_def in_flight_def)
    have "es_main ?t = next_write k" by simp
    from next_write_inv [OF this l] show ?thesis
      using m by (simp add: t engine_left_def iteration_left_def [of s] EngRead)
  next
    case (EngWrite k)
    have m: "0 < m" "m \<le> NET_CHUNK_SIZE"
      and t: "t = s\<lparr>es_to_server := es_to_server s + m, es_sent := es_sent s + m, es_main := EngRead k\<rparr>"
      using assms(2) by (auto simp: engine_step_def EngWrite r can_write_def split: if_splits)
    show ?thesis
      using assms(1) m
      by (simp add: t engine_inv_simps EngWrite linked_def in_flight_def engine_left_def iteration_left_def)
  next
    case EngJoin
    then have "t = s\<lparr>es_client_open := False, es_main := EngBind\<rparr>" "es_server s = EchoEnded"
      using assms(2) by (simp_all add: engine_step_def split: if_splits)
    then show ?thesis using assms(1) by (simp add: engine_inv_simps engine_left_def iteration_left_def EngJoin)
  next
    case EngRecv
    then have "t = s\<lparr>es_main := EngConnect\<rparr>" using assms(2) by (simp add: engine_step_def split: if_splits)
    then show ?thesis
      using assms(1) EngRecv by (simp add: engine_inv_simps engine_left_def iteration_left_def in_flight_def)
  next
    case EngClose
    then have "t = s\<lparr>es_client_open := \<not> now, es_main := EngJoin\<rparr>" using assms(2) by (simp add: engine_step_def r)
    then show ?thesis
      using assms(1) EngClose
      by (simp add: engine_inv_simps engine_left_def iteration_left_def in_flight_def linked_def)
  qed (use assms(2) in \<open>simp add: engine_step_def\<close>)
qed

text \<open>A step of the server leaves the engine where it is; while it has not ended and no more is under way, the invariant stays.\<close>

lemma server_step_facts:
  assumes "echo_step cap r s = Some t" "r \<noteq> Fails" "es_server s \<noteq> EchoWrite 0"
  shows "es_main t = es_main s" "es_left t = es_left s" "es_connected t = es_connected s"
    "es_client_open t = es_client_open s" "es_server s = EchoSignal \<or> es_ready t = es_ready s"
    "es_server t \<notin> {EchoNone, EchoSignal, EchoWrite 0}" "in_flight t = in_flight s"
    "es_server t = EchoEnded \<longleftrightarrow> es_server s = EchoRead \<and> es_to_server s = 0 \<and> \<not> es_client_open s \<and> r = Moves 0"
    "es_server_open t \<longleftrightarrow> es_server_open s \<and> es_server t \<noteq> EchoEnded"
    "3 * es_to_server t + 2 * in_echo (es_server t) + es_to_client t + server_rank (es_server t) <
     3 * es_to_server s + 2 * in_echo (es_server s) + es_to_client s + server_rank (es_server s)"
    "es_server s = EchoSignal \<Longrightarrow> es_server t = EchoAccept \<and> es_ready t"
    "es_server s = EchoAccept \<Longrightarrow> es_connected s"
    "es_server s \<noteq> EchoEnded"
  using assms
  by (cases "es_server s"; cases r;
      auto simp: echo_step_def can_read_def can_write_def in_flight_def echo_end_def split: if_splits)+

lemma echo_server_inv:
  assumes "engine_inv now s" "echo_step cap r s = Some t" "r \<noteq> Fails"
  shows "engine_inv now t \<and> engine_left t < engine_left s"
proof -
  have "es_server s \<noteq> EchoNone" using assms(2) by (auto simp: echo_step_def)
  moreover have "es_server s \<noteq> EchoWrite 0"
    using assms(1) by (cases "es_main s") (auto simp: engine_inv_simps linked_def)
  note f = server_step_facts [OF assms(2,3) this]
  have running: "es_main s \<noteq> EngBind" "\<nexists>ok. es_main s = EngReturned ok"
    using assms(1) calculation f(13) by (auto simp: engine_inv_simps)
  have "engine_left t < engine_left s"
    using f(1,2,10) running by (cases "es_main s") (simp_all add: engine_left_def iteration_left_def)
  moreover have "engine_inv now t"
  proof (cases "es_main s = EngRecv \<or> es_main s = EngConnect")
    case True
    then show ?thesis
      using assms(1) f(1,3,7,11,12) engine_inv_simps(5) [of s now] engine_inv_simps(5) [of t now] by auto
  next
    case False
    have "linked s" using assms(1) False running by (cases "es_main s") (auto simp: engine_inv_simps)
    moreover have "es_server t \<noteq> EchoEnded \<or> \<not> es_client_open s" using f(8) by blast
    ultimately show ?thesis
      using assms(1) f(1,3,4,6,7,9,13) False running
      by (cases "es_main s") (auto simp: engine_inv_simps linked_def)
  qed
  ultimately show ?thesis by blast
qed

interpretation throughput: draining "engine_step now cap buf" cap "engine_inv now" engine_left for now cap buf
  by unfold_locales (use engine_step_inv echo_server_inv in blast)+

lemma no_engine_deadlock:
  assumes "engine_inv now s" "NET_DATA_SIZE \<le> cap" "0 < buf" "deadlocked (engine_step now cap buf) cap s"
  shows "if now then es_main s = EngReturned True
    else es_main s = EngJoin \<and> es_server s = EchoRead \<and> es_to_server s = 0 \<and> es_client_open s"
proof -
  have m: "engine_step now cap buf (Moves x) s = None" and e: "echo_step cap (Moves x) s = None" for x
    using assms(4) by (auto simp: deadlocked_def dest: spec [of _ TheMain] spec [of _ TheServer])
  have fl: "in_flight s \<le> NET_DATA_SIZE" if "\<not> (es_main s = EngBind \<or> (\<exists>ok. es_main s = EngReturned ok))"
    using assms(1) that by (cases "es_main s") (auto simp: engine_inv_simps)
  have server: "es_server s = EchoNone \<or> es_server s = EchoEnded \<or>
      es_server s = EchoAccept \<and> \<not> es_connected s \<or>
      es_server s = EchoRead \<and> es_to_server s = 0 \<and> es_client_open s \<or>
      (\<exists>n. es_server s = EchoWrite n \<and> (n = 0 \<or> es_client_open s \<and> cap \<le> es_to_client s))"
  proof (cases "es_server s")
    case EchoRead
    then show ?thesis
      using e [of 0] e [of 1] net_sizes(1) by (auto simp: echo_step_def can_read_def split: if_splits)
  next
    case (EchoWrite n)
    then show ?thesis using e [of 1] by (auto simp: echo_step_def can_write_def split: if_splits)
  qed (use e [of 0] in \<open>auto simp: echo_step_def split: if_splits\<close>)
  show ?thesis
  proof (cases "es_main s")
    case (EngWrite k)
    then have "es_to_server s < NET_DATA_SIZE"
      using assms(1) net_sizes(1) by (auto simp: engine_inv_simps in_flight_def)
    then show ?thesis
      using m [of 1] EngWrite net_sizes(1) assms(2) by (auto simp: engine_step_def can_write_def split: if_splits)
  next
    case (EngRead k)
    have z: "es_to_client s = 0"
      using m [of 1] assms(3) by (auto simp: engine_step_def EngRead can_read_def split: if_splits)
    have "linked s" "0 < in_flight s" "es_server s \<noteq> EchoEnded" "in_flight s \<le> NET_DATA_SIZE"
      using assms(1) fl EngRead by (simp_all add: engine_inv_simps)
    then show ?thesis using server z assms(2) by (auto simp: linked_def in_flight_def)
  next
    case EngJoin
    then have "linked s" "es_client_open s \<longleftrightarrow> \<not> now" "in_flight s \<le> NET_DATA_SIZE"
      using assms(1) by (simp_all add: engine_inv_simps)
    moreover have "es_server s \<noteq> EchoEnded" using m [of 0] EngJoin by (auto simp: engine_step_def)
    ultimately show ?thesis using server EngJoin assms(2) by (auto simp: linked_def in_flight_def)
  next
    case (EngReturned ok)
    then show ?thesis using assms(1) by (simp add: engine_inv_simps)
  next
    case EngRecv
    then show ?thesis
      using m [of 0] e [of 0] assms(1)
      by (auto simp: engine_step_def engine_inv_simps echo_step_def split: if_splits)
  qed (use m [of 0] in \<open>auto simp: engine_step_def split: if_splits\<close>)
qed

text \<open>
  C28: Whether the network benchmark of the engine returns depends on when the socket of a
  dropped stream is closed. For any schedule of its two threads and any sizes of their reads
  and writes, as long as no call fails and the buffers of the connection hold the data of an
  iteration, at most so many calls return. If the socket is closed at once, some call can
  return until the benchmark has returned with success. If it is closed in the background,
  the benchmark with at least one iteration never returns: it ends up waiting for a server
  that waits for the end of the stream.
\<close>

theorem throughput_benchmark_needs_the_close:
  assumes "NET_DATA_SIZE \<le> cap" "0 < buf" "\<forall>a\<in>set acts. snd a \<noteq> Fails" "now \<or> 0 < iterations"
    and "conn_run (engine_step now cap buf) cap acts (run_network_throughput_benchmark iterations) = Some s"
  shows "length acts \<le> (4 * NET_DATA_SIZE + 10) * iterations + 1 \<and>
    (now \<and> deadlocked (engine_step now cap buf) cap s \<longrightarrow> es_main s = EngReturned True) \<and>
    (\<not> now \<longrightarrow> (\<forall>ok. es_main s \<noteq> EngReturned ok) \<and>
      (deadlocked (engine_step now cap buf) cap s \<longrightarrow>
        es_main s = EngJoin \<and> es_server s = EchoRead \<and> es_to_server s = 0 \<and> es_client_open s))"
proof -
  have "engine_inv now (run_network_throughput_benchmark iterations)"
    "engine_left (run_network_throughput_benchmark iterations) = (4 * NET_DATA_SIZE + 10) * iterations + 1"
    using assms(4)
    by (simp_all add: run_network_throughput_benchmark_def engine_inv_simps engine_left_def iteration_left_def)
  then have inv: "engine_inv now s" and len: "length acts \<le> (4 * NET_DATA_SIZE + 10) * iterations + 1"
    using throughput.run_inv [OF _ assms(5,3)] by force+
  have "now" if "es_main s = EngReturned ok" for ok using inv that by (simp add: engine_inv_simps)
  then show ?thesis using no_engine_deadlock [OF inv assms(1,2)] len by (cases now) auto
qed

text \<open>One iteration in step: each chunk is sent, echoed and read at once.\<close>

definition engine_in_step :: "engine_point \<Rightarrow> nat \<Rightarrow> engine_point echo_state" where
  "engine_in_step pt n =
     \<lparr>es_left = 0, es_main = pt, es_server = EchoRead, es_ready = True,
      es_connected = True, es_to_server = 0, es_to_client = 0, es_client_open = True,
      es_server_open = True, es_sent = n, es_received = n\<rparr>"

definition engine_start :: "(who \<times> io) list" where
  "engine_start = map (\<lambda>w. (w, Moves 0)) [TheMain, TheServer, TheMain, TheMain, TheServer]"

definition engine_finish :: "(who \<times> io) list" where
  "engine_finish = map (\<lambda>w. (w, Moves 0)) [TheMain, TheServer, TheMain, TheMain]"

lemma engine_start_run:
  "conn_run (engine_step now NET_DATA_SIZE NET_CHUNK_SIZE) NET_DATA_SIZE engine_start
     (run_network_throughput_benchmark 1) = Some (engine_in_step (next_write chunks_to_send) 0)"
  by (simp add: engine_start_def run_network_throughput_benchmark_def engine_step_def echo_step_def
      engine_in_step_def)

lemma engine_round_run:
  "conn_run (engine_step now NET_DATA_SIZE NET_CHUNK_SIZE) NET_DATA_SIZE echo_round
     (engine_in_step (EngWrite k) n) = Some (engine_in_step (next_write k) (n + NET_CHUNK_SIZE))"
proof -
  have "NET_CHUNK_SIZE \<le> NET_DATA_SIZE" by (simp add: NET_CHUNK_SIZE_def NET_DATA_SIZE_def)
  then show ?thesis
    using net_sizes(1)
    by (simp add: echo_round_def engine_in_step_def engine_step_def echo_step_def can_write_def can_read_def)
qed

lemma engine_rounds_run:
  "conn_run (engine_step now NET_DATA_SIZE NET_CHUNK_SIZE) NET_DATA_SIZE (concat (replicate k echo_round))
     (engine_in_step (next_write k) n) = Some (engine_in_step EngClose (n + k * NET_CHUNK_SIZE))"
proof (induction k arbitrary: n)
  case (Suc k)
  have "next_write (Suc k) = EngWrite k" by (simp add: next_write_def)
  then show ?case using Suc [of "n + NET_CHUNK_SIZE"] by (simp add: conn_run_append engine_round_run algebra_simps)
qed (simp add: next_write_def)

text \<open>The whole iteration, to the call that drops the connection.\<close>

definition engine_iteration :: "(who \<times> io) list" where
  "engine_iteration = engine_start @ concat (replicate chunks_to_send echo_round)"

lemma engine_iteration_run:
  "conn_run (engine_step now NET_DATA_SIZE NET_CHUNK_SIZE) NET_DATA_SIZE (engine_iteration @ as)
      (run_network_throughput_benchmark 1) =
    conn_run (engine_step now NET_DATA_SIZE NET_CHUNK_SIZE) NET_DATA_SIZE as (engine_in_step EngClose NET_DATA_SIZE)"
  using engine_rounds_run [of now chunks_to_send 0]
  by (simp add: engine_iteration_def conn_run_append engine_start_run net_sizes(2) del: One_nat_def)

lemma engine_iteration_fine: "\<forall>a\<in>set engine_iteration. snd a \<noteq> Fails"
  by (auto simp: engine_iteration_def engine_start_def echo_round_def)

theorem throughput_benchmark_needs_the_close_demo:
  "(\<exists>s. conn_run (engine_step True NET_DATA_SIZE NET_CHUNK_SIZE) NET_DATA_SIZE (engine_iteration @ engine_finish)
      (run_network_throughput_benchmark 1) = Some s \<and>
    es_received s = NET_DATA_SIZE \<and> es_main s = EngReturned True) \<and>
   (\<exists>s. conn_run (engine_step False NET_DATA_SIZE NET_CHUNK_SIZE) NET_DATA_SIZE (engine_iteration @ [(TheMain, Moves 0)])
      (run_network_throughput_benchmark 1) = Some s \<and> es_received s = NET_DATA_SIZE \<and>
    deadlocked (engine_step False NET_DATA_SIZE NET_CHUNK_SIZE) NET_DATA_SIZE s \<and> es_main s = EngJoin \<and> es_client_open s)"
proof -
  let ?s = "(engine_in_step (EngReturned True) NET_DATA_SIZE)
    \<lparr>es_server := EchoEnded, es_client_open := False, es_server_open := False\<rparr>"
  let ?t = "engine_in_step EngJoin NET_DATA_SIZE"
  have run: "conn_run (engine_step True NET_DATA_SIZE NET_CHUNK_SIZE) NET_DATA_SIZE (engine_iteration @ engine_finish)
      (run_network_throughput_benchmark 1) = Some ?s"
    unfolding engine_iteration_run
    by (simp add: engine_finish_def engine_in_step_def engine_step_def echo_step_def can_read_def echo_end_def)
  have fine: "\<forall>a\<in>set (engine_iteration @ engine_finish). snd a \<noteq> Fails"
    using engine_iteration_fine by (auto simp: engine_finish_def)
  have "conn_act (engine_step True NET_DATA_SIZE NET_CHUNK_SIZE) NET_DATA_SIZE (w, Moves m) ?s = None" for w m
    by (cases w) (simp_all add: engine_in_step_def engine_step_def echo_step_def)
  then have "deadlocked (engine_step True NET_DATA_SIZE NET_CHUNK_SIZE) NET_DATA_SIZE ?s"
    by (simp add: deadlocked_def)
  then have "es_main ?s = EngReturned True"
    using throughput_benchmark_needs_the_close [OF order_refl net_sizes(1) fine _ run] by blast
  moreover have run': "conn_run (engine_step False NET_DATA_SIZE NET_CHUNK_SIZE) NET_DATA_SIZE
      (engine_iteration @ [(TheMain, Moves 0)]) (run_network_throughput_benchmark 1) = Some ?t"
    unfolding engine_iteration_run by (simp add: engine_in_step_def engine_step_def)
  have fine': "\<forall>a\<in>set (engine_iteration @ [(TheMain, Moves 0)]). snd a \<noteq> Fails"
    using engine_iteration_fine by auto
  have "conn_act (engine_step False NET_DATA_SIZE NET_CHUNK_SIZE) NET_DATA_SIZE (w, Moves m) ?t = None" for w m
    by (cases w) (simp_all add: engine_in_step_def engine_step_def echo_step_def can_read_def)
  then have dead: "deadlocked (engine_step False NET_DATA_SIZE NET_CHUNK_SIZE) NET_DATA_SIZE ?t"
    by (simp add: deadlocked_def)
  then have "es_main ?t = EngJoin \<and> es_client_open ?t"
    using throughput_benchmark_needs_the_close [OF order_refl net_sizes(1) fine' _ run'] by simp
  ultimately show ?thesis using run run' dead by (simp add: engine_in_step_def)
qed

end
