(* ===== verification/Runtime_Mode.thy ===== *)
theory Runtime_Mode
  imports Cpu_Info
begin

text \<open>
  The runtime modes (\<open>arch/runtime_mode.rs\<close>) and how one is selected for a topology.
\<close>

datatype RuntimeMode =
    SingleThread
  | PinnedSharded (worker_count_of: nat) (numa_aware_of: bool)
  | ForcedSingle
  | TestStub

definition debug_mode :: "RuntimeMode \<Rightarrow> string" where
  "debug_mode m = (case m of
     SingleThread \<Rightarrow> ''SingleThread''
   | PinnedSharded n aware \<Rightarrow>
       ''PinnedSharded(workers='' @ decimal n @ '', numa='' @ debug_bool aware @ '')''
   | ForcedSingle \<Rightarrow> ''ForcedSingle''
   | TestStub \<Rightarrow> ''TestStub'')"

definition select_for_system :: "CpuInfo \<Rightarrow> RuntimeMode" where
  "select_for_system info =
     (let n = logical_cores info in
      if n \<le> 1 then SingleThread
      else
        let workers = (if n \<le> 4 then n else n - 1)
        in PinnedSharded workers (is_numa_available info))"

definition worker_count :: "RuntimeMode \<Rightarrow> nat" where
  "worker_count m = (case m of
     SingleThread \<Rightarrow> 1 | ForcedSingle \<Rightarrow> 1 | TestStub \<Rightarrow> 1
   | PinnedSharded n aware \<Rightarrow> n)"

definition is_numa_aware :: "RuntimeMode \<Rightarrow> bool" where
  "is_numa_aware m = (case m of PinnedSharded n aware \<Rightarrow> aware | _ \<Rightarrow> False)"

definition supports_pinning :: "RuntimeMode \<Rightarrow> bool" where
  "supports_pinning m = (case m of PinnedSharded n aware \<Rightarrow> True | _ \<Rightarrow> False)"

definition description :: "RuntimeMode \<Rightarrow> string" where
  "description m = (case m of
     SingleThread \<Rightarrow> ''Single-threaded mode''
   | PinnedSharded n aware \<Rightarrow>
       ''Pinned sharded mode with '' @ decimal n @ '' workers (NUMA-aware: '' @
       (if aware then ''yes'' else ''no'') @ '')''
   | ForcedSingle \<Rightarrow> ''Forced single-threaded mode''
   | TestStub \<Rightarrow> ''Test stub mode'')"

lemma worker_count_select:
  "worker_count (select_for_system info) =
     (if logical_cores info \<le> 1 then 1
      else if logical_cores info \<le> 4 then logical_cores info else logical_cores info - 1)"
  by (simp add: worker_count_def select_for_system_def is_numa_available_def Let_def)

lemma supports_pinning_select:
  "supports_pinning (select_for_system info) \<longleftrightarrow> 1 < logical_cores info"
  by (simp add: supports_pinning_def select_for_system_def is_numa_available_def Let_def)

end
