(* ===== verification/Thread_Builder.thy ===== *)
theory Thread_Builder
  imports Runtime_Mode
begin

text \<open>
  The builder of worker threads (\<open>arch/thread_builder.rs\<close>): the core each worker is given,
  what the builder reports about it, and what the new thread does to pin itself. The
  \<open>core_affinity\<close> crate and the success of a spawn are parameters; a worker function is
  any value.
\<close>

subsection \<open>Pinning\<close>

datatype PinningResult = Success | SuccessDifferentCore nat | Unsupported | Failed

text \<open>
  The crate lists the ids of the cores the process may run on, if it can, and pins the
  current thread to the core of an id or fails to.
\<close>

record affinity =
  core_ids :: "nat list option"
  set_for_current :: "nat \<Rightarrow> bool"

text \<open>The result of \<open>pin_thread_to_core\<close>, and the id of the core the thread then runs on.\<close>

definition pin_thread_to_core :: "affinity \<Rightarrow> nat \<Rightarrow> PinningResult \<times> nat option" where
  "pin_thread_to_core A core =
     (case core_ids A of
        Some ids \<Rightarrow>
          (if core < length ids then
             (if set_for_current A (ids ! core) then (Success, Some (ids ! core))
              else (Failed, None))
           else if ids \<noteq> [] then
             (let fallback = core mod length ids in
              if set_for_current A (ids ! fallback)
              then (SuccessDifferentCore fallback, Some (ids ! fallback))
              else (Failed, None))
           else (Failed, None))
      | None \<Rightarrow> (Unsupported, None))"

subsection \<open>Worker threads\<close>

text \<open>
  A join handle stands for the thread that was spawned: its name, the core it pins itself
  to first, and the function it runs.
\<close>

record 'f JoinHandle =
  thread_name :: "string option"
  thread_core :: "nat option"
  thread_function :: 'f

record 'f WorkerThread =
  handle :: "'f JoinHandle"
  core_id :: "nat option"
  pinning_result :: PinningResult

text \<open>What the thread does, in order.\<close>

datatype 'f thread_event = Pinned nat | Logged string | Ran 'f

definition debug_pinning :: "PinningResult \<Rightarrow> string" where
  "debug_pinning r = (case r of
     Success \<Rightarrow> ''Success''
   | SuccessDifferentCore i \<Rightarrow> ''SuccessDifferentCore('' @ decimal i @ '')''
   | Unsupported \<Rightarrow> ''Unsupported''
   | Failed \<Rightarrow> ''Failed'')"

definition pinned_thread :: "affinity \<Rightarrow> 'f JoinHandle \<Rightarrow> 'f thread_event list" where
  "pinned_thread A h =
     (let (r, core) = (case thread_core h of
             Some c \<Rightarrow> pin_thread_to_core A c | None \<Rightarrow> (Unsupported, None))
      in (case core of Some i \<Rightarrow> [Pinned i] | None \<Rightarrow> []) @
         (if r \<noteq> Success
          then [Logged (''Thread pinning to core '' @ debug_usize_option (thread_core h) @ '': '' @ debug_pinning r)]
          else []) @
         [Ran (thread_function h)])"

subsection \<open>The builder\<close>

record ThreadBuilder =
  tb_mode :: RuntimeMode
  tb_cpu_info :: CpuInfo
  tb_worker_idx :: nat

definition new_builder :: "RuntimeMode \<Rightarrow> CpuInfo \<Rightarrow> ThreadBuilder" where
  "new_builder mode info = \<lparr>tb_mode = mode, tb_cpu_info = info, tb_worker_idx = 0\<rparr>"

text \<open>A name with a NUL character and a spawn the system refuses panic.\<close>

definition spawn :: "bool \<Rightarrow> string option \<Rightarrow> nat option \<Rightarrow> 'f \<Rightarrow> (unit, 'f JoinHandle) outcome" where
  "spawn granted name core f =
     (if (case name of Some s \<Rightarrow> CHR 0x00 \<in> set s | None \<Rightarrow> False) then Panic InvalidThreadName
      else if \<not> granted then Panic SpawnFailed
      else Ok \<lparr>thread_name = name, thread_core = core, thread_function = f\<rparr>)"

definition build_test_stub ::
  "bool \<Rightarrow> 'f \<Rightarrow> ThreadBuilder \<Rightarrow> (unit, 'f WorkerThread) outcome \<times> ThreadBuilder" where
  "build_test_stub granted f B =
     and_then (spawn granted None None f, B) (\<lambda>h B.
       (Ok \<lparr>handle = h, core_id = None, pinning_result = Unsupported\<rparr>, B))"

definition build ::
  "profile \<Rightarrow> bool \<Rightarrow> string \<Rightarrow> 'f \<Rightarrow> ThreadBuilder
    \<Rightarrow> (unit, 'f WorkerThread) outcome \<times> ThreadBuilder" where
  "build p granted name f B =
     (if tb_mode B = TestStub then build_test_stub granted f B
      else
        and_then
          (if supports_pinning (tb_mode B)
           then bind_outcome (get_core_for_worker (tb_cpu_info B) (tb_worker_idx B)) (\<lambda>c. Ok (Some c))
           else Ok None, B) (\<lambda>core B.
        and_then (overflowing p (2 ^ 64 \<le> tb_worker_idx B + 1) ((tb_worker_idx B + 1) mod 2 ^ 64), B) (\<lambda>i B.
        let B1 = B\<lparr>tb_worker_idx := i\<rparr> in
        and_then (spawn granted (Some name) core f, B1) (\<lambda>h B1.
        (Ok \<lparr>handle = h, core_id = core,
             pinning_result = (case core of None \<Rightarrow> Unsupported | Some _ \<Rightarrow> Success)\<rparr>, B1)))))"

text \<open>Building several workers in turn.\<close>

primrec build_all ::
  "profile \<Rightarrow> (string \<times> 'f) list \<Rightarrow> ThreadBuilder
    \<Rightarrow> (unit, 'f WorkerThread) outcome list \<times> ThreadBuilder" where
  "build_all p [] B = ([], B)"
| "build_all p (w # ws) B =
     (let (r, B1) = build p True (fst w) (snd w) B; (rs, B2) = build_all p ws B1
      in (r # rs, B2))"

text \<open>\<open>arch/mod.rs\<close> gives these operations their public names.\<close>

definition detect_cpu_topology :: "num_cpus \<Rightarrow> sysfs \<Rightarrow> ('e, CpuInfo) outcome" where
  "detect_cpu_topology cpus fs = detect cpus fs"

definition select_runtime_mode :: "CpuInfo \<Rightarrow> RuntimeMode" where
  "select_runtime_mode info = select_for_system info"

definition create_thread_builder :: "RuntimeMode \<Rightarrow> CpuInfo \<Rightarrow> ThreadBuilder" where
  "create_thread_builder mode info = new_builder mode info"

subsection \<open>What a build returns\<close>

definition valid_name :: "string \<Rightarrow> bool" where
  "valid_name s \<longleftrightarrow> CHR 0x00 \<notin> set s"

definition core_known :: "CpuInfo \<Rightarrow> nat \<Rightarrow> bool" where
  "core_known info w \<longleftrightarrow> numa_available info \<and> w < length (all_cores info) \<or> 0 < logical_cores info"

definition worker_core :: "CpuInfo \<Rightarrow> nat \<Rightarrow> nat" where
  "worker_core info w =
     (if numa_available info \<and> w < length (all_cores info) then all_cores info ! w
      else w mod logical_cores info)"

lemma get_core_for_worker_known:
  "core_known info w \<Longrightarrow> get_core_for_worker info w = Ok (worker_core info w)"
  by (auto simp: get_core_for_worker_eq core_known_def worker_core_def rem_cores_def)

lemma build_pinned:
  assumes "supports_pinning (tb_mode B)" "core_known (tb_cpu_info B) (tb_worker_idx B)"
    and "valid_name name" "tb_worker_idx B + 1 < 2 ^ 64"
  defines "c \<equiv> worker_core (tb_cpu_info B) (tb_worker_idx B)"
  shows "build p True name f B =
    (Ok \<lparr>handle = \<lparr>thread_name = Some name, thread_core = Some c, thread_function = f\<rparr>,
         core_id = Some c, pinning_result = Success\<rparr>,
     B\<lparr>tb_worker_idx := tb_worker_idx B + 1\<rparr>)"
proof -
  have "tb_mode B \<noteq> TestStub" using assms(1) by (auto simp: supports_pinning_def)
  then show ?thesis
    using assms
    by (simp add: build_def get_core_for_worker_known overflowing_def spawn_def valid_name_def)
qed

lemma build_all_pinned:
  assumes "supports_pinning (tb_mode B)" "tb_worker_idx B + length ws < 2 ^ 64"
    and "\<forall>w<tb_worker_idx B + length ws. core_known (tb_cpu_info B) w"
    and "\<forall>w\<in>set ws. valid_name (fst w)"
  shows "map (\<lambda>r. case r of Ok t \<Rightarrow> core_id t | _ \<Rightarrow> None) (fst (build_all p ws B)) =
      map (\<lambda>w. Some (worker_core (tb_cpu_info B) w)) [tb_worker_idx B..<tb_worker_idx B + length ws]"
    and "\<forall>r\<in>set (fst (build_all p ws B)). is_ok r"
proof -
  have "map (\<lambda>r. case r of Ok t \<Rightarrow> core_id t | _ \<Rightarrow> None) (fst (build_all p ws B)) =
      map (\<lambda>w. Some (worker_core (tb_cpu_info B) w)) [tb_worker_idx B..<tb_worker_idx B + length ws] \<and>
    (\<forall>r\<in>set (fst (build_all p ws B)). is_ok r)"
    using assms
  proof (induction ws arbitrary: B)
    case (Cons w ws)
    let ?B = "B\<lparr>tb_worker_idx := tb_worker_idx B + 1\<rparr>"
    have b: "build p True (fst w) (snd w) B =
      (Ok \<lparr>handle = \<lparr>thread_name = Some (fst w),
             thread_core = Some (worker_core (tb_cpu_info B) (tb_worker_idx B)),
             thread_function = snd w\<rparr>,
           core_id = Some (worker_core (tb_cpu_info B) (tb_worker_idx B)),
           pinning_result = Success\<rparr>, ?B)"
      by (rule build_pinned) (use Cons.prems in simp_all)
    have "[tb_worker_idx B..<tb_worker_idx B + length (w # ws)] =
        tb_worker_idx B # [tb_worker_idx ?B..<tb_worker_idx ?B + length ws]"
      by (simp add: upt_rec)
    then show ?case
      using Cons.IH [of ?B] Cons.prems by (simp add: b split_beta)
  qed simp
  then show "map (\<lambda>r. case r of Ok t \<Rightarrow> core_id t | _ \<Rightarrow> None) (fst (build_all p ws B)) =
      map (\<lambda>w. Some (worker_core (tb_cpu_info B) w)) [tb_worker_idx B..<tb_worker_idx B + length ws]"
    and "\<forall>r\<in>set (fst (build_all p ws B)). is_ok r" by simp_all
qed

text \<open>A topology whose nodes list every core once.\<close>

definition topology_ok :: "CpuInfo \<Rightarrow> bool" where
  "topology_ok info \<longleftrightarrow>
     (numa_available info \<longrightarrow> distinct (all_cores info) \<and> logical_cores info = length (all_cores info))"

lemma worker_core_inj:
  assumes "topology_ok info"
  shows "inj_on (worker_core info) {0..<logical_cores info}"
  using assms by (auto simp: inj_on_def worker_core_def topology_ok_def nth_eq_iff_index_eq)

end
