(* ===== verification/Arch_Correctness.thy ===== *)
theory Arch_Correctness
  imports Thread_Builder
begin

text \<open>
  The properties of the topology, the runtime modes and the thread builder.
\<close>

subsection \<open>Reading the topology\<close>

text \<open>
  A CPU list as the kernel prints it, single cores and ranges separated by commas
  with white space at the end, is parsed to the cores it lists, in order.
\<close>

theorem cpu_list_round_trip:
  assumes "rs \<noteq> []" "\<forall>(a, b)\<in>set rs. a < 2 ^ 64 \<and> b < 2 ^ 64" "\<forall>c\<in>set w. is_white c"
    and "length (range_cores rs) < 2 ^ 60"
  shows "parse_cpu_list (render_ranges rs @ w) = Ok (range_cores rs)"
  using parse_parts_render [OF assms(2,3,1), of "[]"] assms(4) by (simp add: parse_cpu_list_def)

theorem cpu_list_round_trip_demo:
  "parse_cpu_list (render_ranges [(0, 2), (4, 4), (6, 8)] @ [CHR 0x0A]) =
     (Ok [0, 1, 2, 4, 6, 7, 8] :: (io_error, nat list) outcome)"
proof -
  have "range_cores [(0, 2), (4, 4), (6, 8)] = [0, 1, 2, 4, 6, 7, 8]"
    by (simp add: range_cores_def upt_rec)
  then show ?thesis
    using cpu_list_round_trip [of "[(0, 2), (4, 4), (6, 8)]" "[CHR 0x0A]"]
    by (simp add: is_white_def)
qed

text \<open>
  A directory as the kernel has it: entries of nodes, each with a CPU list that describes
  the cores of the node, among entries of other names.
\<close>

type_synonym described_entry = "string \<times> cpulist_file + NumaNode \<times> (nat \<times> nat) list"

definition dir_entry :: "described_entry \<Rightarrow> (string \<times> cpulist_file) option" where
  "dir_entry e = (case e of
     Inl other \<Rightarrow> Some other
   | Inr (n, rs) \<Rightarrow>
       Some (''node'' @ decimal (node_id n), Contents (render_ranges rs @ [CHR 0x0A])))"

definition describes :: "NumaNode \<Rightarrow> (nat \<times> nat) list \<Rightarrow> bool" where
  "describes n rs \<longleftrightarrow> rs \<noteq> [] \<and> (\<forall>(a, b)\<in>set rs. a < 2 ^ 64 \<and> b < 2 ^ 64) \<and>
     length (range_cores rs) < 2 ^ 60 \<and> node_cores n = range_cores rs \<and> node_id n < 2 ^ 64"

definition entry_ok :: "described_entry \<Rightarrow> bool" where
  "entry_ok e = (case e of
     Inl (name, _) \<Rightarrow> \<not> starts_with ''node'' name | Inr (n, rs) \<Rightarrow> describes n rs)"

definition entry_nodes :: "described_entry list \<Rightarrow> NumaNode list" where
  "entry_nodes es = concat (map (\<lambda>e. case e of Inl _ \<Rightarrow> [] | Inr (n, rs) \<Rightarrow> [n]) es)"

lemma trim_start_node: "trim_start_matches ''node'' (''node'' @ decimal i) = decimal i"
proof -
  obtain c t where d: "decimal i = c # t" using decimal_nonempty [of i] by (cases "decimal i") auto
  have "c \<noteq> CHR ''n''" using decimal_digits [of i] by (auto simp: d is_digit_def)
  then have "trim_start_matches ''node'' (decimal i) = decimal i"
    by (subst trim_start_matches.simps) (auto simp: d starts_with_def)
  then show ?thesis by (subst trim_start_matches.simps) (simp add: starts_with_def)
qed

lemma parse_describes:
  "describes n rs \<Longrightarrow>
   parse_cpu_list (render_ranges rs @ [CHR 0x0A]) = (Ok (node_cores n) :: (io_error, nat list) outcome)"
  using parse_parts_render [of rs "[CHR 0x0A]" "[]"]
  by (simp add: describes_def parse_cpu_list_def is_white_def)

lemma numa_entry_node:
  assumes "describes n rs"
  shows "numa_entries (dir_entry (Inr (n, rs)) # es) nodes = numa_entries es (nodes @ [n])"
proof -
  have i: "parse_usize (decimal (node_id n)) = Some (node_id n)"
    using assms by (intro parse_usize_decimal) (simp add: describes_def)
  have n: "\<lparr>node_id = node_id n, node_cores = node_cores n\<rparr> = n" by (cases n) simp
  show ?thesis
    using trim_start_node [of "node_id n"] parse_describes [OF assms]
    by (simp add: dir_entry_def starts_with_def i n)
qed

lemma numa_entries_render:
  "\<forall>e\<in>set es. entry_ok e \<Longrightarrow>
   numa_entries (map dir_entry es) nodes = Ok (nodes @ entry_nodes es)"
proof (induction es arbitrary: nodes)
  case (Cons e es)
  show ?case
  proof (cases e)
    case (Inl other)
    then show ?thesis
      using Cons by (cases other) (simp add: dir_entry_def entry_ok_def entry_nodes_def)
  next
    case (Inr x)
    obtain n rs where x: "x = (n, rs)" by (cases x)
    have "describes n rs" using Cons.prems by (simp add: Inr x entry_ok_def)
    then show ?thesis
      using Cons numa_entry_node [of n rs "map dir_entry es" nodes]
      by (simp add: Inr x entry_nodes_def)
  qed
qed (simp add: entry_nodes_def)

text \<open>
  C36: On a system whose directory has an entry of at least one node, among any entries of
  other names, detection finds exactly these nodes with their cores, in the order of the
  directory, and the topology is available.
\<close>

theorem detect_finds_the_nodes:
  assumes "entry_nodes es \<noteq> []" "\<forall>e\<in>set es. entry_ok e"
  shows "detect cpus \<lparr>node_dir_exists = True, node_dir = Some (map dir_entry es)\<rparr> =
    Ok \<lparr>logical_cores = cpus_logical cpus,
        physical_cores = (if 0 < cpus_physical cpus then Some (cpus_physical cpus) else None),
        numa_nodes = entry_nodes es, numa_available = True\<rparr>"
  using assms(1) numa_entries_render [OF assms(2), of "[]"]
  by (simp add: detect_def detect_numa_nodes_def detect_numa_linux_def Let_def)

theorem detect_finds_the_nodes_demo:
  "detect \<lparr>cpus_logical = 4, cpus_physical = 0\<rparr> \<lparr>node_dir_exists = True, node_dir = Some
      [dir_entry (Inr (\<lparr>node_id = 0, node_cores = [0, 1]\<rparr>, [(0, 1)])),
       dir_entry (Inl (''online'', Contents ''0-1'')),
       dir_entry (Inr (\<lparr>node_id = 1, node_cores = [2, 3]\<rparr>, [(2, 3)]))]\<rparr> =
    Ok \<lparr>logical_cores = 4, physical_cores = None,
        numa_nodes = [\<lparr>node_id = 0, node_cores = [0, 1]\<rparr>, \<lparr>node_id = 1, node_cores = [2, 3]\<rparr>],
        numa_available = True\<rparr>"
  using detect_finds_the_nodes [of "[Inr (\<lparr>node_id = 0, node_cores = [0, 1]\<rparr>, [(0, 1)]),
      Inl (''online'', Contents ''0-1''), Inr (\<lparr>node_id = 1, node_cores = [2, 3]\<rparr>, [(2, 3)])]"
      "\<lparr>cpus_logical = 4, cpus_physical = 0\<rparr>"]
  by (simp add: entry_ok_def entry_nodes_def describes_def range_cores_def upt_rec starts_with_def)

text \<open>
  Without a readable directory of nodes, detection does not fail: it gives one node
  with all logical cores, not available for NUMA, and worker \<open>w\<close> gets core \<open>w\<close> modulo
  the number of cores.
\<close>

theorem detect_falls_back:
  assumes "\<not> node_dir_exists fs \<or> node_dir fs = None \<or> node_dir fs = Some (None # es)"
    and "0 < cpus_logical cpus"
  shows "\<exists>info. detect cpus fs = Ok info \<and>
    numa_nodes info = [\<lparr>node_id = 0, node_cores = [0..<cpus_logical cpus]\<rparr>] \<and>
    \<not> numa_available info \<and>
    (\<forall>w. get_core_for_worker info w = (Ok (w mod cpus_logical cpus) :: (io_error, nat) outcome))"
  using assms
  by (auto simp: detect_def detect_numa_nodes_def detect_numa_linux_def Let_def
      get_core_for_worker_def rem_cores_def)

theorem detect_falls_back_demo:
  "\<exists>info. detect \<lparr>cpus_logical = 4, cpus_physical = 2\<rparr> \<lparr>node_dir_exists = False, node_dir = None\<rparr> = Ok info \<and>
    (\<forall>w. get_core_for_worker info w = (Ok (w mod 4) :: (io_error, nat) outcome))"
  using detect_falls_back [of "\<lparr>node_dir_exists = False, node_dir = None\<rparr>" "[]"
      "\<lparr>cpus_logical = 4, cpus_physical = 2\<rparr>"]
  by auto

subsection \<open>Assigning cores\<close>

text \<open>
  C24: On a system with more than one core, whose NUMA nodes, if it has any, together list
  each logical core once, the mode that is selected starts at least two
  and at most as many workers as there are cores, and the builder gives these workers
  pairwise different cores of the topology, without a panic, in both build profiles.
\<close>

theorem workers_get_distinct_cores:
  assumes "topology_ok info" "1 < logical_cores info" "logical_cores info < 2 ^ 64"
    and "length ws = worker_count (select_for_system info)" "\<forall>w\<in>set ws. valid_name (fst w)"
  shows "2 \<le> length ws \<and> length ws \<le> logical_cores info \<and>
    (\<exists>cs. map (\<lambda>r. case r of Ok t \<Rightarrow> core_id t | _ \<Rightarrow> None)
        (fst (build_all p ws (create_thread_builder (select_runtime_mode info) info))) = map Some cs \<and>
      distinct cs \<and>
      (\<forall>c\<in>set cs. if numa_available info then c \<in> set (all_cores info) else c < logical_cores info))"
proof -
  let ?B = "create_thread_builder (select_runtime_mode info) info"
  let ?cs = "map (worker_core info) [0..<length ws]"
  have b: "tb_mode ?B = select_for_system info" "tb_cpu_info ?B = info" "tb_worker_idx ?B = 0"
    by (simp_all add: create_thread_builder_def new_builder_def select_runtime_mode_def)
  have n: "2 \<le> length ws" "length ws \<le> logical_cores info"
    using assms(2,4) by (auto simp: worker_count_select)
  have r: "map (\<lambda>r. case r of Ok t \<Rightarrow> core_id t | _ \<Rightarrow> None) (fst (build_all p ws ?B)) = map Some ?cs"
    using build_all_pinned(1) [of ?B ws p] assms(2,3,5) n(2)
    by (simp add: b supports_pinning_select core_known_def)
  have "distinct ?cs"
    using inj_on_subset [OF worker_core_inj [OF assms(1)]] n(2) by (auto simp: distinct_map)
  moreover have "if numa_available info then c \<in> set (all_cores info) else c < logical_cores info"
    if "c \<in> set ?cs" for c
    using that n(2) assms(1,2) by (auto simp: worker_core_def topology_ok_def)
  ultimately show ?thesis using n r by blast
qed

theorem workers_get_distinct_cores_demo:
  "\<exists>cs. map (\<lambda>r. case r of Ok t \<Rightarrow> core_id t | _ \<Rightarrow> None)
      (fst (build_all Debug [(''a'', 1), (''b'', 2), (''c'', 3 :: nat)]
        (create_thread_builder (select_runtime_mode (mock 3 2)) (mock 3 2)))) = map Some cs \<and> distinct cs"
proof -
  have "topology_ok (mock 3 2)" "logical_cores (mock 3 2) = 3"
    by (simp_all add: topology_ok_def mock_def all_cores_def mock_nodes_cores)
  then show ?thesis
    using workers_get_distinct_cores [of "mock 3 2" "[(''a'', 1), (''b'', 2), (''c'', 3 :: nat)]" Debug]
    by (auto simp: worker_count_select valid_name_def)
qed

text \<open>
  In an available topology the worker of an index gets the core at this place in the
  concatenation of the nodes; beyond the last core it gets its index modulo the number of
  logical cores, whichever node that core belongs to.
\<close>

theorem core_of_worker:
  assumes "numa_available info" "0 < logical_cores info"
  shows "get_core_for_worker info w =
    (Ok (if w < length (all_cores info) then all_cores info ! w else w mod logical_cores info) ::
      (io_error, nat) outcome)"
  using assms by (simp add: get_core_for_worker_eq rem_cores_def)

theorem core_of_worker_demo:
  "get_core_for_worker (mock 8 2) 5 = (Ok 5 :: (io_error, nat) outcome) \<and>
   get_core_for_worker (mock 8 2) 13 = (Ok 5 :: (io_error, nat) outcome)"
proof -
  have "numa_available (mock 8 2)" "logical_cores (mock 8 2) = 8" "all_cores (mock 8 2) = [0..<8]"
    by (simp_all add: mock_def all_cores_def mock_nodes_cores)
  then show ?thesis using core_of_worker [of "mock 8 2" 5] core_of_worker [of "mock 8 2" 13] by simp
qed

text \<open>
  The builder reports a pinned worker as successful whatever the thread will find:
  where the system lists no cores the thread runs unpinned and only logs it, and the
  NUMA flag of the mode makes no difference to the core.
\<close>

theorem builder_reports_success_unseen:
  assumes "core_known info w" "valid_name name" "w + 1 < 2 ^ 64" "core_ids A = None"
  shows "\<exists>t. fst (build p True name f \<lparr>tb_mode = PinnedSharded n aware, tb_cpu_info = info, tb_worker_idx = w\<rparr>) = Ok t \<and>
    pinning_result t = Success \<and> core_id t = Some (worker_core info w) \<and>
    (\<exists>text. pinned_thread A (handle t) = [Logged text, Ran f])"
proof -
  let ?B = "\<lparr>tb_mode = PinnedSharded n aware, tb_cpu_info = info, tb_worker_idx = w\<rparr>"
  have "build p True name f ?B =
      (Ok \<lparr>handle = \<lparr>thread_name = Some name, thread_core = Some (worker_core info w), thread_function = f\<rparr>,
         core_id = Some (worker_core info w), pinning_result = Success\<rparr>,
       ?B\<lparr>tb_worker_idx := w + 1\<rparr>)"
    using build_pinned [of ?B name p f] assms(1-3) by (simp add: supports_pinning_def)
  then show ?thesis using assms(4) by (simp add: pinned_thread_def pin_thread_to_core_def)
qed

theorem builder_reports_success_unseen_demo:
  "\<exists>t. fst (build Release True ''w'' (0 :: nat) \<lparr>tb_mode = PinnedSharded 2 False,
       tb_cpu_info = mock 4 1, tb_worker_idx = 3\<rparr>) = Ok t \<and> pinning_result t = Success \<and>
     (\<exists>text. pinned_thread \<lparr>core_ids = None, set_for_current = (\<lambda>_. False)\<rparr> (handle t) =
        [Logged text, Ran 0])"
proof -
  have "core_known (mock 4 1) 3" "valid_name ''w''"
    by (simp_all add: core_known_def mock_def valid_name_def)
  from builder_reports_success_unseen [OF this, of "\<lparr>core_ids = None, set_for_current = (\<lambda>_. False)\<rparr>" Release 0 2 False]
  show ?thesis by auto
qed

text \<open>
  A thread that reports success runs on the core at the requested place of the list
  of usable cores, one that reports a different core runs on the core at the reported
  place, and in the other cases no core was set. The report never names a place outside
  the list.
\<close>

theorem pinning_result_is_true:
  "case pin_thread_to_core A core of (r, on) \<Rightarrow>
     (case r of
        Success \<Rightarrow> (\<exists>ids. core_ids A = Some ids \<and> core < length ids \<and> on = Some (ids ! core))
      | SuccessDifferentCore i \<Rightarrow> (\<exists>ids. core_ids A = Some ids \<and> length ids \<le> core \<and>
          i < length ids \<and> on = Some (ids ! i))
      | Unsupported \<Rightarrow> core_ids A = None \<and> on = None
      | Failed \<Rightarrow> core_ids A \<noteq> None \<and> on = None)"
  by (auto simp: pin_thread_to_core_def Let_def split: option.splits)

text \<open>
  The mode selected for a system is single-threaded exactly on one core, follows the
  availability of the topology, and keeps one core free for the system from five cores on.
\<close>

theorem mode_selection:
  "(supports_pinning (select_for_system info) \<longleftrightarrow> 1 < logical_cores info) \<and>
   (is_numa_aware (select_for_system info) \<longleftrightarrow> numa_available info \<and> 1 < logical_cores info) \<and>
   0 < worker_count (select_for_system info) \<and>
   (4 < logical_cores info \<longrightarrow> worker_count (select_for_system info) + 1 = logical_cores info) \<and>
   (0 < logical_cores info \<longrightarrow> worker_count (select_for_system info) \<le> logical_cores info)"
proof -
  have "is_numa_aware (select_for_system info) \<longleftrightarrow> numa_available info \<and> 1 < logical_cores info"
    by (auto simp: is_numa_aware_def select_for_system_def is_numa_available_def Let_def)
  then show ?thesis by (auto simp: supports_pinning_select worker_count_select)
qed

theorem mode_selection_demo:
  "worker_count (select_for_system (mock 8 2)) = 7"
  using mode_selection [of "mock 8 2"] by (simp add: mock_def)

end
