(* ===== verification/Numa_Correctness.thy ===== *)
theory Numa_Correctness
  imports Ring_Numa Ring_Demo Arch_Correctness
begin

text \<open>The property of the rings bound to a NUMA node.\<close>

text \<open>
  C38: On a system whose topology has the node, and a node number below 64, creating a
  NUMA-aware ring gives the same empty well-formed ring as creating an ordinary one, with
  the node in its header and the memory bound by a mask with that node's bit, whatever the
  system call says. Without the node it is an ordinary creation. From node 64 on a debug
  build panics, after the mapping was made.
\<close>

theorem numa_ring_or_ordinary_ring:
  assumes "valid_options opts" "os_ok W opts" "detect cpus fs = (Ok info :: (ring_error, _) outcome)"
  shows "(numa_available info \<and> node < length (numa_nodes info) \<and> node < 64 \<longrightarrow>
      (\<exists>m. create_numa_aware p W mbind cpus fs U now opts node =
        (Ok (created opts, m), [bind_memory mbind (opt_size opts) (push_bit node 1) node]) \<and>
        ring_wf (created opts) m \<and> ring_queue (created opts) m = [] \<and> validate m \<and>
        active_producers m = 1 \<and> numa_node m = of_nat node)) \<and>
    (\<not> numa_available info \<or> length (numa_nodes info) \<le> node \<longrightarrow>
      create_numa_aware p W mbind cpus fs U now opts node = (ring_create p W U now opts, [])) \<and>
    (numa_available info \<and> node < length (numa_nodes info) \<and> 64 \<le> node \<longrightarrow>
      create_numa_aware Debug W mbind cpus fs U now opts node = (Panic ArithmeticOverflow, []))"
proof (intro conjI impI)
  assume a: "numa_available info \<and> node < length (numa_nodes info) \<and> node < 64"
  then show "\<exists>m. create_numa_aware p W mbind cpus fs U now opts node =
      (Ok (created opts, m), [bind_memory mbind (opt_size opts) (push_bit node 1) node]) \<and>
      ring_wf (created opts) m \<and> ring_queue (created opts) m = [] \<and> validate m \<and>
      active_producers m = 1 \<and> numa_node m = of_nat node"
    using create_numa_valid [OF assms, of node p mbind U now] by metis
next
  assume "\<not> numa_available info \<or> length (numa_nodes info) \<le> node"
  then show "create_numa_aware p W mbind cpus fs U now opts node = (ring_create p W U now opts, [])"
    by (rule create_numa_fallback [OF assms(3)])
next
  assume "numa_available info \<and> node < length (numa_nodes info) \<and> 64 \<le> node"
  then show "create_numa_aware Debug W mbind cpus fs U now opts node = (Panic ArithmeticOverflow, [])"
    using assms(2,3)
    by (simp add: create_numa_aware_def is_numa_available_def os_ok_def Let_def node_mask_def overflowing_def)
qed

text \<open>A machine with one node of four cores.\<close>

definition demo_sysfs :: sysfs where
  "demo_sysfs = \<lparr>node_dir_exists = True,
     node_dir = Some [dir_entry (Inr (\<lparr>node_id = 0, node_cores = [0, 1, 2, 3]\<rparr>, [(0, 3)]))]\<rparr>"

lemma demo_detect:
  "(detect \<lparr>cpus_logical = 4, cpus_physical = 4\<rparr> demo_sysfs :: (ring_error, _) outcome) =
     Ok \<lparr>logical_cores = 4, physical_cores = Some 4,
        numa_nodes = [\<lparr>node_id = 0, node_cores = [0, 1, 2, 3]\<rparr>], numa_available = True\<rparr>"
proof -
  let ?e = "Inr (\<lparr>node_id = 0, node_cores = [0, 1, 2, 3]\<rparr>, [(0, 3)]) :: _ + NumaNode \<times> _"
  have "\<forall>e\<in>set [?e]. entry_ok e"
    by (simp add: entry_ok_def describes_def range_cores_def upt_rec)
  from numa_entries_render [OF this, of "[]"] show ?thesis
    by (simp add: demo_sysfs_def detect_def detect_numa_nodes_def detect_numa_linux_def Let_def entry_nodes_def)
qed

theorem numa_ring_or_ordinary_ring_demo:
  "\<exists>m. create_numa_aware Debug demo_os (\<lambda>_ _ _ _ _. 0) \<lparr>cpus_logical = 4, cpus_physical = 4\<rparr>
      demo_sysfs demo_uuid (Some 3) demo_options 0 = (Ok (created demo_options, m), [MemoryBound 0]) \<and>
    ring_queue (created demo_options) m = [] \<and> numa_node m = 0"
  using numa_ring_or_ordinary_ring [OF demo_valid(1,2) demo_detect, of 0 Debug "\<lambda>_ _ _ _ _. 0" demo_uuid "Some 3"]
  by (auto simp: bind_memory_def)

end
