(* ===== verification/Engine_Notify.thy ===== *)
theory Engine_Notify
  imports Ring_Fifo Ring_Safety
begin

text \<open>
  How the I/O engines use the ring: each finished operation is announced by a write whose
  result is thrown away (\<open>let _ = ring_buffer.write(..)\<close>). A panic is not a result.
\<close>

definition notify ::
  "profile \<Rightarrow> 'u uuid_crate \<Rightarrow> 'u write_ctx \<Rightarrow> ring_buffer \<Rightarrow> operation_kind \<Rightarrow> u8 list \<Rightarrow> mem
    \<Rightarrow> ('e, unit) outcome \<times> mem" where
  "notify p U c rb kind data m =
     (case ring_write p U (wc_env c) (wc_uuid c) (wc_now c) rb kind data m of
        (Ok _, m') \<Rightarrow> (Ok (), m')
      | (Err _, m') \<Rightarrow> (Ok (), m')
      | (Panic e, m') \<Rightarrow> (Panic e, m')
      | (UB, m') \<Rightarrow> (UB, m'))"

text \<open>On a safe ring the announcement never stops the caller.\<close>

lemma notify_safe:
  assumes "ring_safe rb m" "safe_env fixed_fields rb (wc_env c)"
  obtains m' where "notify p U c rb kind data m = (Ok (), m')" "ring_safe rb m'"
    "fixed_fields m' = fixed_fields m"
  using geometry.ring_write_outcome [OF assms, of p U "wc_uuid c" "wc_now c" kind data] assms(1) that
  by (auto simp: notify_def)

text \<open>With room in the ring the announcement is the new last entry.\<close>

lemma notify_appends:
  assumes "ring_wf rb m" "pending m + 1 < slots m" "length data \<le> max_payload rb"
  obtains m' where "notify p U c rb kind data m = (Ok (), m')" "ring_wf rb m'"
    "ring_queue rb m' = ring_queue rb m @ [(kind, data)]" "slots m' = slots m"
proof -
  obtain m' where "ring_write p U (wc_env c) (wc_uuid c) (wc_now c) rb kind data m =
      (Ok (producer_idx m), m')" "ring_wf rb m'"
    "ring_queue rb m' = ring_queue rb m @ [(kind, data)]" "slot_count m' = slot_count m"
    by (rule ring_write_appends [OF assms]) (rule that)
  then show ?thesis using that by (simp add: notify_def)
qed

text \<open>A text that does not fit in a slot is not announced at all.\<close>

lemma notify_too_long:
  assumes "ring_geometry rb m" "max_payload rb < length data"
  shows "notify p U c rb kind data m = (Ok (), m)"
proof -
  obtain mx where "max_payload_size p rb = Ok mx" "unat mx = max_payload rb"
    by (rule max_payload_size_eq [OF assms(1), of p]) blast
  then show ?thesis using assms(2) by (simp add: notify_def ring_write_def)
qed

text \<open>
  What an announcement leaves: with room in the ring it is the last entry, and a text that
  does not fit leaves the ring as it was.
\<close>

definition announced :: "ring_buffer \<Rightarrow> operation_kind \<times> u8 list \<Rightarrow> mem \<Rightarrow> mem \<Rightarrow> bool" where
  "announced rb x m m' \<longleftrightarrow> (ring_wf rb m \<and> pending m + 1 < slots m \<and> length (snd x) \<le> max_payload rb \<longrightarrow>
      ring_wf rb m' \<and> ring_queue rb m' = ring_queue rb m @ [x]) \<and>
     (ring_geometry rb m \<and> max_payload rb < length (snd x) \<longrightarrow> m' = m)"

lemma notify_announced:
  assumes "notify p U c rb kind q m = (Ok (), m')"
  shows "announced rb (kind, q) m m'"
proof -
  have "ring_wf rb m' \<and> ring_queue rb m' = ring_queue rb m @ [(kind, q)]"
    if "ring_wf rb m" "pending m + 1 < slots m" "length q \<le> max_payload rb"
    using notify_appends [OF that, of p U c kind] assms by (metis Pair_inject)
  moreover have "m' = m" if "ring_geometry rb m" "max_payload rb < length q"
    using notify_too_long [OF that, of p U c kind] assms
    by (auto simp: notify_def split: prod.splits outcome.splits)
  ultimately show ?thesis by (simp add: announced_def)
qed

end
