(* ===== verification/Disk_Uring.thy ===== *)
theory Disk_Uring
  imports Engine_Notify
begin

text \<open>
  The disk engine (\<open>disk/io_uring.rs\<close>). The \<open>tokio_uring\<close> crate and the files behind it are
  parameters; what the engine relies on of them is stated in \<open>file_laws\<close>. Each operation
  is one task that runs to its end; paths are their bytes, valid as UTF-8.
\<close>

type_synonym path = "u8 list"

record DiskConfig =
  queue_depth :: u32
  buffer_size :: u64

definition default_disk_config :: DiskConfig where
  "default_disk_config = \<lparr>queue_depth = 256, buffer_size = 128 * 1024\<rparr>"

datatype disk_error = FileOpenFailed | FileReadFailed | FileWriteFailed | FileSyncFailed

datatype DiskOperationType = DiskOpRead | DiskOpWrite | DiskOpSync | DiskOpClose

text \<open>An operation as a value; the engine exports it and does not use it.\<close>

record 'c DiskOperation =
  dop_type :: DiskOperationType
  dop_path :: path
  dop_offset :: u64
  dop_data :: "u8 list option"
  dop_callback :: "'c option"

subsection \<open>The crate\<close>

record open_flags =
  flag_read :: bool
  flag_write :: bool
  flag_create :: bool
  flag_truncate :: bool

text \<open>
  Opening a file for reading, opening with options, a read at an offset into a buffer, a
  write at an offset, a sync, and dropping a handle. \<open>None\<close> stands for an error.
\<close>

record ('h, 'w) uring_files =
  uf_open :: "path \<Rightarrow> 'w \<Rightarrow> 'h option \<times> 'w"
  uf_open_with :: "open_flags \<Rightarrow> path \<Rightarrow> 'w \<Rightarrow> 'h option \<times> 'w"
  uf_read_at :: "'h \<Rightarrow> u8 list \<Rightarrow> u64 \<Rightarrow> 'w \<Rightarrow> (nat option \<times> u8 list) \<times> 'w"
  uf_write_at :: "'h \<Rightarrow> u8 list \<Rightarrow> u64 \<Rightarrow> 'w \<Rightarrow> nat option \<times> 'w"
  uf_sync_all :: "'h \<Rightarrow> 'w \<Rightarrow> bool \<times> 'w"
  uf_drop :: "'h \<Rightarrow> 'w \<Rightarrow> 'w"

subsection \<open>The engine\<close>

record DiskEngine =
  de_config :: DiskConfig
  de_ring :: ring_buffer

text \<open>
  What an operation works on: the cache of handles behind its mutex, whether the mutex is
  poisoned, the mapping of the ring, and the files.
\<close>

record ('h, 'w) disk_state =
  ds_handles :: "path \<Rightarrow> 'h option"
  ds_poisoned :: bool
  ds_mem :: mem
  ds_files :: 'w

definition disk_new :: "DiskConfig \<Rightarrow> ring_buffer \<Rightarrow> mem \<Rightarrow> 'w \<Rightarrow> DiskEngine \<times> ('h, 'w) disk_state" where
  "disk_new cfg rb m w =
     (\<lparr>de_config = cfg, de_ring = rb\<rparr>,
      \<lparr>ds_handles = (\<lambda>_. None), ds_poisoned = False, ds_mem = m, ds_files = w\<rparr>)"

definition disk_notify ::
  "profile \<Rightarrow> 'u uuid_crate \<Rightarrow> 'u write_ctx \<Rightarrow> DiskEngine \<Rightarrow> operation_kind \<Rightarrow> path
    \<Rightarrow> ('h, 'w) disk_state \<Rightarrow> (disk_error, unit) outcome \<times> ('h, 'w) disk_state" where
  "disk_notify p U c e kind path s =
     (case notify p U c (de_ring e) kind path (ds_mem s) of (r, m) \<Rightarrow> (r, s\<lparr>ds_mem := m\<rparr>))"

text \<open>Opening a file, running a body on it, and dropping it at the end of the scope.\<close>

definition with_file ::
  "('h, 'w) uring_files \<Rightarrow> ('h option \<times> 'w) \<Rightarrow> ('h, 'w) disk_state
    \<Rightarrow> ('h \<Rightarrow> ('h, 'w) disk_state \<Rightarrow> (disk_error, 'a) outcome \<times> ('h, 'w) disk_state)
    \<Rightarrow> (disk_error, 'a) outcome \<times> ('h, 'w) disk_state" where
  "with_file F res s body =
     (case res of
        (None, w) \<Rightarrow> (Err FileOpenFailed, s\<lparr>ds_files := w\<rparr>)
      | (Some h, w) \<Rightarrow>
          (case body h (s\<lparr>ds_files := w\<rparr>) of
             (r, s1) \<Rightarrow> (r, s1\<lparr>ds_files := uf_drop F h (ds_files s1)\<rparr>)))"

definition read_file ::
  "profile \<Rightarrow> 'u uuid_crate \<Rightarrow> 'u write_ctx \<Rightarrow> ('h, 'w) uring_files \<Rightarrow> DiskEngine \<Rightarrow> path \<Rightarrow> u64
    \<Rightarrow> ('h, 'w) disk_state \<Rightarrow> (disk_error, u8 list) outcome \<times> ('h, 'w) disk_state" where
  "read_file p U c F e path offset s =
     with_file F (uf_open F path (ds_files s)) s (\<lambda>h s1.
       let size = unat (buffer_size (de_config e)) in
       if 2 ^ 63 \<le> size then (Panic CapacityOverflow, s1)
       else
         (case uf_read_at F h (replicate size 0) offset (ds_files s1) of
            ((None, buf), w) \<Rightarrow> (Err FileReadFailed, s1\<lparr>ds_files := w\<rparr>)
          | ((Some n, buf), w) \<Rightarrow>
              and_then (disk_notify p U c e DiskRead path (s1\<lparr>ds_files := w\<rparr>)) (\<lambda>_ s2.
                if length buf < n then (Panic IndexOutOfBounds, s2) else (Ok (take n buf), s2))))"

definition write_flags :: open_flags where
  "write_flags = \<lparr>flag_read = True, flag_write = True, flag_create = True, flag_truncate = False\<rparr>"

definition write_file ::
  "profile \<Rightarrow> 'u uuid_crate \<Rightarrow> 'u write_ctx \<Rightarrow> ('h, 'w) uring_files \<Rightarrow> DiskEngine \<Rightarrow> path \<Rightarrow> u64
    \<Rightarrow> u8 list \<Rightarrow> ('h, 'w) disk_state \<Rightarrow> (disk_error, unit) outcome \<times> ('h, 'w) disk_state" where
  "write_file p U c F e path offset data s =
     with_file F (uf_open_with F write_flags path (ds_files s)) s (\<lambda>h s1.
       (case uf_write_at F h data offset (ds_files s1) of
          (None, w) \<Rightarrow> (Err FileWriteFailed, s1\<lparr>ds_files := w\<rparr>)
        | (Some n, w) \<Rightarrow> disk_notify p U c e DiskWrite path (s1\<lparr>ds_files := w\<rparr>)))"

definition sync_flags :: open_flags where
  "sync_flags = \<lparr>flag_read = True, flag_write = True, flag_create = False, flag_truncate = False\<rparr>"

definition sync_file ::
  "profile \<Rightarrow> 'u uuid_crate \<Rightarrow> 'u write_ctx \<Rightarrow> ('h, 'w) uring_files \<Rightarrow> DiskEngine \<Rightarrow> path
    \<Rightarrow> ('h, 'w) disk_state \<Rightarrow> (disk_error, unit) outcome \<times> ('h, 'w) disk_state" where
  "sync_file p U c F e path s =
     with_file F (uf_open_with F sync_flags path (ds_files s)) s (\<lambda>h s1.
       (case uf_sync_all F h (ds_files s1) of
          (False, w) \<Rightarrow> (Err FileSyncFailed, s1\<lparr>ds_files := w\<rparr>)
        | (True, w) \<Rightarrow> disk_notify p U c e Custom path (s1\<lparr>ds_files := w\<rparr>)))"

text \<open>
  \<open>close_file\<close> only forgets a cached handle; the lock is held while it announces itself, so
  a panic of the announcement poisons the lock.
\<close>

definition drop_cached :: "('h, 'w) uring_files \<Rightarrow> 'h option \<Rightarrow> 'w \<Rightarrow> 'w" where
  "drop_cached F ho w = (case ho of None \<Rightarrow> w | Some h \<Rightarrow> uf_drop F h w)"

definition close_file ::
  "profile \<Rightarrow> 'u uuid_crate \<Rightarrow> 'u write_ctx \<Rightarrow> ('h, 'w) uring_files \<Rightarrow> DiskEngine \<Rightarrow> path
    \<Rightarrow> ('h, 'w) disk_state \<Rightarrow> (disk_error, unit) outcome \<times> ('h, 'w) disk_state" where
  "close_file p U c F e path s =
     (if ds_poisoned s then (Panic PoisonedLock, s)
      else
        let s1 = s\<lparr>ds_files := drop_cached F (ds_handles s path) (ds_files s),
                  ds_handles := (ds_handles s)(path := None)\<rparr>
        in (case disk_notify p U c e Custom path s1 of
              (Panic x, s2) \<Rightarrow> (Panic x, s2\<lparr>ds_poisoned := True\<rparr>)
            | (r, s2) \<Rightarrow> (r, s2)))"

definition get_or_open_file :: "('h, 'w) uring_files \<Rightarrow> path \<Rightarrow> 'w \<Rightarrow> 'h option \<times> 'w" where
  "get_or_open_file F path w = uf_open F path w"

definition get_or_create_file :: "('h, 'w) uring_files \<Rightarrow> path \<Rightarrow> 'w \<Rightarrow> 'h option \<times> 'w" where
  "get_or_create_file F path w = uf_open_with F write_flags path w"

text \<open>Dropping the engine clears the cache; no operation ever puts a handle into it.\<close>

definition disk_drop :: "('h, 'w) disk_state \<Rightarrow> (disk_error, unit) outcome \<times> ('h, 'w) disk_state" where
  "disk_drop s =
     (if ds_poisoned s then (Panic PoisonedLock, s) else (Ok (), s\<lparr>ds_handles := (\<lambda>_. None)\<rparr>))"

subsection \<open>What the engine relies on\<close>

text \<open>The bytes of a file after \<open>data\<close> was written at an offset; a gap is filled with zeros.\<close>

definition splice_at :: "nat \<Rightarrow> u8 list \<Rightarrow> u8 list \<Rightarrow> u8 list" where
  "splice_at off data c =
     (if data = [] then c
      else take off c @ replicate (off - length c) 0 @ data @ drop (off + length data) c)"

text \<open>What a file holds once it is open: a new file is empty, and so is a truncated one.\<close>

definition opened_contents :: "open_flags \<Rightarrow> u8 list option \<Rightarrow> u8 list" where
  "opened_contents fl old =
     (if flag_truncate fl then [] else case old of None \<Rightarrow> [] | Some c \<Rightarrow> c)"

text \<open>
  The documented behaviour of files, whatever flags they are opened with: the contents by
  path, and the path of an open handle. Reads and writes may be short.
\<close>

definition file_laws ::
  "('h, 'w) uring_files \<Rightarrow> ('w \<Rightarrow> path \<Rightarrow> u8 list option) \<Rightarrow> ('h \<Rightarrow> path) \<Rightarrow> bool" where
  "file_laws F contents path_of \<longleftrightarrow>
     (\<forall>q w h w'. uf_open F q w = (Some h, w') \<longrightarrow> path_of h = q \<and> contents w q \<noteq> None) \<and>
     (\<forall>q w. contents (snd (uf_open F q w)) = contents w) \<and>
     (\<forall>fl q w h w'. uf_open_with F fl q w = (Some h, w') \<longrightarrow> path_of h = q \<and>
        (contents w q = None \<longrightarrow> flag_create fl) \<and>
        contents w' = (contents w)(q := Some (opened_contents fl (contents w q)))) \<and>
     (\<forall>h buf off w n buf' w'. uf_read_at F h buf off w = ((Some n, buf'), w') \<longrightarrow>
        length buf' = length buf \<and> n \<le> length buf \<and>
        (\<forall>c. contents w (path_of h) = Some c \<longrightarrow>
           unat off + n \<le> max (length c) (unat off) \<and> take n buf' = take n (drop (unat off) c))) \<and>
     (\<forall>h buf off w. contents (snd (uf_read_at F h buf off w)) = contents w) \<and>
     (\<forall>h data off w n w'. uf_write_at F h data off w = (Some n, w') \<longrightarrow> n \<le> length data \<and>
        (\<forall>c. contents w (path_of h) = Some c \<longrightarrow>
           contents w' = (contents w)(path_of h := Some (splice_at (unat off) (take n data) c)))) \<and>
     (\<forall>h w. contents (uf_drop F h w) = contents w)"

lemma file_lawsD:
  assumes "file_laws F contents path_of"
  shows "uf_open F q w = (Some h, w') \<Longrightarrow> path_of h = q \<and> contents w q \<noteq> None"
    and "uf_open F q w = (ho, w') \<Longrightarrow> contents w' = contents w"
    and "uf_open_with F fl q w = (Some h, w') \<Longrightarrow> path_of h = q \<and>
      contents w' = (contents w)(q := Some (opened_contents fl (contents w q)))"
    and "uf_read_at F h buf off w = ((Some n, buf'), w') \<Longrightarrow>
      length buf' = length buf \<and> n \<le> length buf"
    and "uf_read_at F h buf off w = ((Some n, buf'), w') \<Longrightarrow> contents w (path_of h) = Some c \<Longrightarrow>
      take n buf' = take n (drop (unat off) c) \<and> unat off + n \<le> max (length c) (unat off)"
    and "uf_read_at F h buf off w = (r, w') \<Longrightarrow> contents w' = contents w"
    and "uf_write_at F h data off w = (Some n, w') \<Longrightarrow> n \<le> length data"
    and "uf_write_at F h data off w = (Some n, w') \<Longrightarrow> contents w (path_of h) = Some c \<Longrightarrow>
      contents w' = (contents w)(path_of h := Some (splice_at (unat off) (take n data) c))"
    and "contents (uf_drop F h w) = contents w"
  using assms unfolding file_laws_def by (blast | metis snd_conv)+

subsection \<open>Notifications of the operations\<close>

text \<open>What an operation leaves of the ring: it is safe, its geometry is the same.\<close>

definition disk_safe :: "'u write_ctx \<Rightarrow> DiskEngine \<Rightarrow> ('h, 'w) disk_state \<Rightarrow> bool" where
  "disk_safe c e s \<longleftrightarrow> ring_safe (de_ring e) (ds_mem s) \<and> safe_env fixed_fields (de_ring e) (wc_env c)"

lemma disk_notify_safe:
  assumes "disk_safe c e s"
  obtains m where "disk_notify p U c e kind q s = (Ok (), s\<lparr>ds_mem := m\<rparr>)" "ring_safe (de_ring e) m"
proof -
  have a: "ring_safe (de_ring e) (ds_mem s)" "safe_env fixed_fields (de_ring e) (wc_env c)"
    using assms by (simp_all add: disk_safe_def)
  obtain m where "notify p U c (de_ring e) kind q (ds_mem s) = (Ok () :: (disk_error, unit) outcome, m)"
    "ring_safe (de_ring e) m"
    by (rule notify_safe [OF a]) (rule that)
  then show ?thesis using that by (simp add: disk_notify_def)
qed

text \<open>
  The operations that work on a file, by what they do with the open file: every one of
  them announces itself exactly when it has succeeded.
\<close>

definition settled ::
  "DiskEngine \<Rightarrow> operation_kind \<times> path \<Rightarrow> ('h, 'w) disk_state
    \<Rightarrow> (disk_error, 'a) outcome \<times> ('h, 'w) disk_state \<Rightarrow> bool" where
  "settled e x s rs \<longleftrightarrow> (case rs of
     (Ok _, s') \<Rightarrow> announced (de_ring e) x (ds_mem s) (ds_mem s') \<and> ring_safe (de_ring e) (ds_mem s')
   | (Err _, s') \<Rightarrow> ds_mem s' = ds_mem s
   | _ \<Rightarrow> False)"

lemma disk_notify_settled:
  assumes "disk_safe c e s" "ds_mem s = ds_mem s0"
  obtains s' where "disk_notify p U c e kind q s = (Ok (), s')"
    "announced (de_ring e) (kind, q) (ds_mem s0) (ds_mem s')" "ring_safe (de_ring e) (ds_mem s')"
    "ds_files s' = ds_files s" "ds_poisoned s' = ds_poisoned s"
proof -
  obtain m where m: "disk_notify p U c e kind q s = (Ok (), s\<lparr>ds_mem := m\<rparr>)" "ring_safe (de_ring e) m"
    by (rule disk_notify_safe [OF assms(1)]) (rule that)
  obtain r m1 where n: "notify p U c (de_ring e) kind q (ds_mem s) = (r :: (disk_error, unit) outcome, m1)"
    by fastforce
  then have "r = Ok ()" "s\<lparr>ds_mem := m1\<rparr> = s\<lparr>ds_mem := m\<rparr>"
    using m(1) by (simp_all add: disk_notify_def)
  moreover from this(2) have "m1 = m" by (metis disk_state.select_convs(3) disk_state.update_convs(3) disk_state.surjective)
  ultimately have "notify p U c (de_ring e) kind q (ds_mem s) = (Ok () :: (disk_error, unit) outcome, m)"
    using n by simp
  from notify_announced [OF this] show ?thesis using that m assms(2) by simp
qed

lemma with_file_settled:
  assumes "\<And>h w. settled e x s (body h (s\<lparr>ds_files := w\<rparr>))"
  shows "settled e x s (with_file F res s body)"
proof -
  obtain ho w where res: "res = (ho, w)" by (cases res)
  show ?thesis
  proof (cases ho)
    case None
    then show ?thesis by (simp add: with_file_def res settled_def)
  next
    case (Some h)
    obtain r s1 where b: "body h (s\<lparr>ds_files := w\<rparr>) = (r, s1)" by fastforce
    then show ?thesis
      using assms [of h w] by (cases r) (simp_all add: with_file_def res Some b settled_def)
  qed
qed

end
