(* ===== verification/Disk_Correctness.thy ===== *)
theory Disk_Correctness
  imports Disk_Uring Ring_Demo
begin

text \<open>
  The properties of the disk engine, and a small file system that keeps the laws the
  engine relies on, with short reads and writes.
\<close>

subsection \<open>A file system\<close>

type_synonym demo_disk = "path \<Rightarrow> u8 list option"

text \<open>A call moves at most \<open>k\<close> bytes; a handle is the path it was opened with.\<close>

definition demo_files :: "nat \<Rightarrow> (path, demo_disk) uring_files" where
  "demo_files k =
     \<lparr>uf_open = (\<lambda>q w. (if w q = None then None else Some q, w)),
      uf_open_with = (\<lambda>fl q w.
        if w q = None \<and> \<not> flag_create fl then (None, w)
        else (Some q, w(q := Some (opened_contents fl (w q))))),
      uf_read_at = (\<lambda>h buf off w. (case w h of
          None \<Rightarrow> ((None, buf), w)
        | Some c \<Rightarrow>
            let d = take (min k (length buf)) (drop (unat off) c)
            in ((Some (length d), d @ drop (length d) buf), w))),
      uf_write_at = (\<lambda>h data off w. (case w h of
          None \<Rightarrow> (None, w)
        | Some c \<Rightarrow> (Some (length (take k data)), w(h := Some (splice_at (unat off) (take k data) c))))),
      uf_sync_all = (\<lambda>h w. (True, w)),
      uf_drop = (\<lambda>h w. w)\<rparr>"

lemma demo_files_laws: "file_laws (demo_files k) (\<lambda>w. w) (\<lambda>h. h)"
  unfolding file_laws_def demo_files_def
  by (auto simp: min_def take_all split: if_splits option.splits)

subsection \<open>Reading and writing\<close>

lemma disk_safe_files: "disk_safe c e (s\<lparr>ds_files := w\<rparr>) = disk_safe c e s"
  by (simp add: disk_safe_def)

lemma read_file_settled:
  assumes "disk_safe c e s" "file_laws F contents path_of"
    and "unat (buffer_size (de_config e)) < 2 ^ 63"
  shows "settled e (DiskRead, q) s (read_file p U c F e q off s)"
  unfolding read_file_def
proof (rule with_file_settled)
  fix h w
  let ?s1 = "s\<lparr>ds_files := w\<rparr>" and ?buf = "replicate (unat (buffer_size (de_config e))) 0"
  obtain no buf w1 where r: "uf_read_at F h ?buf off w = ((no, buf), w1)" by (metis prod.exhaust)
  obtain s' where n: "disk_notify p U c e DiskRead q (s\<lparr>ds_files := w1\<rparr>) = (Ok (), s')"
    "announced (de_ring e) (DiskRead, q) (ds_mem s) (ds_mem s')" "ring_safe (de_ring e) (ds_mem s')"
    by (rule disk_notify_settled [of c e "s\<lparr>ds_files := w1\<rparr>" s])
      (use assms(1) in \<open>simp_all add: disk_safe_files\<close>)
  show "settled e (DiskRead, q) s
      (let size = unat (buffer_size (de_config e)) in
       if 2 ^ 63 \<le> size then (Panic CapacityOverflow, ?s1)
       else
         (case uf_read_at F h (replicate size 0) off (ds_files ?s1) of
            ((None, buf), w) \<Rightarrow> (Err FileReadFailed, ?s1\<lparr>ds_files := w\<rparr>)
          | ((Some n, buf), w) \<Rightarrow>
              and_then (disk_notify p U c e DiskRead q (?s1\<lparr>ds_files := w\<rparr>)) (\<lambda>_ s2.
                if length buf < n then (Panic IndexOutOfBounds, s2) else (Ok (take n buf), s2))))"
  proof (cases no)
    case None
    then show ?thesis using assms(3) by (simp add: r settled_def)
  next
    case (Some k)
    have "k \<le> length buf" using file_lawsD(4) [OF assms(2) r [unfolded Some]] by simp
    then show ?thesis using assms(3) n by (simp add: r Some settled_def)
  qed
qed

lemma write_file_settled:
  assumes "disk_safe c e s"
  shows "settled e (DiskWrite, q) s (write_file p U c F e q off data s)"
  unfolding write_file_def
proof (rule with_file_settled)
  fix h w
  obtain no w1 where r: "uf_write_at F h data off w = (no, w1)" by (metis prod.exhaust)
  obtain s' where n: "disk_notify p U c e DiskWrite q (s\<lparr>ds_files := w1\<rparr>) = (Ok (), s')"
    "announced (de_ring e) (DiskWrite, q) (ds_mem s) (ds_mem s')" "ring_safe (de_ring e) (ds_mem s')"
    by (rule disk_notify_settled [of c e "s\<lparr>ds_files := w1\<rparr>" s])
      (use assms in \<open>simp_all add: disk_safe_files\<close>)
  show "settled e (DiskWrite, q) s
      (case uf_write_at F h data off (ds_files (s\<lparr>ds_files := w\<rparr>)) of
         (None, w1) \<Rightarrow> (Err FileWriteFailed, s\<lparr>ds_files := w, ds_files := w1\<rparr>)
       | (Some n, w1) \<Rightarrow> disk_notify p U c e DiskWrite q (s\<lparr>ds_files := w, ds_files := w1\<rparr>))"
    using n by (cases no) (simp_all add: r settled_def)
qed

lemma sync_file_settled:
  assumes "disk_safe c e s"
  shows "settled e (Custom, q) s (sync_file p U c F e q s)"
  unfolding sync_file_def
proof (rule with_file_settled)
  fix h w
  obtain b w1 where r: "uf_sync_all F h w = (b, w1)" by (metis prod.exhaust)
  obtain s' where n: "disk_notify p U c e Custom q (s\<lparr>ds_files := w1\<rparr>) = (Ok (), s')"
    "announced (de_ring e) (Custom, q) (ds_mem s) (ds_mem s')" "ring_safe (de_ring e) (ds_mem s')"
    by (rule disk_notify_settled [of c e "s\<lparr>ds_files := w1\<rparr>" s])
      (use assms in \<open>simp_all add: disk_safe_files\<close>)
  show "settled e (Custom, q) s
      (case uf_sync_all F h (ds_files (s\<lparr>ds_files := w\<rparr>)) of
         (False, w1) \<Rightarrow> (Err FileSyncFailed, s\<lparr>ds_files := w, ds_files := w1\<rparr>)
       | (True, w1) \<Rightarrow> disk_notify p U c e Custom q (s\<lparr>ds_files := w, ds_files := w1\<rparr>))"
    using n by (cases b) (simp_all add: r settled_def)
qed

subsection \<open>What a successful operation did to the files\<close>

lemma disk_notify_files:
  "disk_notify p U c e kind q s = (r, s') \<Longrightarrow> ds_files s' = ds_files s"
  by (auto simp: disk_notify_def split: prod.splits)

lemma write_file_Ok:
  assumes "file_laws F contents path_of" "write_file p U c F e q off data s = (Ok (), s1)"
  obtains n where "n \<le> length data"
    "contents (ds_files s1) = (contents (ds_files s))(q := Some (splice_at (unat off) (take n data)
       (case contents (ds_files s) q of None \<Rightarrow> [] | Some c \<Rightarrow> c)))"
proof -
  note L = file_lawsD [OF assms(1)]
  let ?old = "case contents (ds_files s) q of None \<Rightarrow> [] | Some c \<Rightarrow> c"
  obtain ho w where o: "uf_open_with F write_flags q (ds_files s) = (ho, w)" by fastforce
  then obtain h where h: "ho = Some h"
    using assms(2) by (cases ho) (simp_all add: write_file_def with_file_def)
  obtain no w1 where r: "uf_write_at F h data off w = (no, w1)" by fastforce
  then obtain n where n: "no = Some n"
    using assms(2) by (cases no) (simp_all add: write_file_def with_file_def o h)
  obtain r1 s2 where d: "disk_notify p U c e DiskWrite q (s\<lparr>ds_files := w1\<rparr>) = (r1, s2)" by fastforce
  have s1: "ds_files s1 = uf_drop F h w1"
    using assms(2) disk_notify_files [OF d] by (auto simp: write_file_def with_file_def o h r n d)
  have w: "path_of h = q" "contents w = (contents (ds_files s))(q := Some ?old)"
    using L(3) [OF o [unfolded h]] by (simp_all add: opened_contents_def write_flags_def)
  have "contents w1 = (contents w)(q := Some (splice_at (unat off) (take n data) ?old))"
    using L(8) [OF r [unfolded n], of ?old] w by simp
  then show ?thesis using that L(7) [OF r [unfolded n]] L(9) by (simp add: s1 w(2))
qed

lemma read_file_Ok:
  assumes "file_laws F contents path_of" "read_file p U c F e q off s = (Ok bytes, s1)"
    and "contents (ds_files s) q = Some content"
  shows "contents (ds_files s1) = contents (ds_files s)"
    and "bytes = take (length bytes) (drop (unat off) content)"
    and "length bytes \<le> unat (buffer_size (de_config e))"
proof -
  note L = file_lawsD [OF assms(1)]
  let ?buf = "replicate (unat (buffer_size (de_config e))) (0 :: u8)"
  obtain ho w where o: "uf_open F q (ds_files s) = (ho, w)" by fastforce
  then obtain h where h: "ho = Some h"
    using assms(2) by (cases ho) (simp_all add: read_file_def with_file_def)
  obtain no buf w1 where r: "uf_read_at F h ?buf off w = ((no, buf), w1)" by (metis prod.exhaust)
  have size: "unat (buffer_size (de_config e)) < 2 ^ 63"
    using assms(2) by (auto simp: read_file_def with_file_def o h Let_def split: if_splits)
  obtain n where n: "no = Some n"
    using assms(2) size by (cases no) (simp_all add: read_file_def with_file_def o h r)
  obtain r1 s2 where d: "disk_notify p U c e DiskRead q (s\<lparr>ds_files := w1\<rparr>) = (r1, s2)" by fastforce
  then have "r1 = Ok () \<and> bytes = take n buf \<and> ds_files s1 = uf_drop F h (ds_files s2)"
    using assms(2) size L(4) [OF r [unfolded n]]
    by (cases r1) (auto simp: read_file_def with_file_def o h r n)
  then have b: "bytes = take n buf" "ds_files s1 = uf_drop F h w1"
    using disk_notify_files [OF d] by simp_all
  have w: "path_of h = q" "contents w = contents (ds_files s)"
    using L(1) [OF o [unfolded h]] L(2) [OF o] by simp_all
  show "contents (ds_files s1) = contents (ds_files s)"
    using L(6) [OF r] L(9) by (simp add: b(2) w(2))
  have len: "n \<le> length buf" "length buf = unat (buffer_size (de_config e))"
    using L(4) [OF r [unfolded n]] by simp_all
  then show "length bytes \<le> unat (buffer_size (de_config e))" by (simp add: b(1))
  have "bytes = take n (drop (unat off) content)"
    using L(5) [OF r [unfolded n], of content] assms(3) by (simp add: w b(1))
  then show "bytes = take (length bytes) (drop (unat off) content)"
    by (metis append_take_drop_id append_eq_conv_conj)
qed

text \<open>
  C16: A write that reports success has put some number of the bytes into the file, from
  the first on, and left everything else of every file alone; the engine does not say how
  many. A read of the same place afterwards returns a piece of that file, no longer than
  the buffer, and changes no file.
\<close>

theorem disk_write_then_read:
  assumes "file_laws F contents path_of"
    and "write_file p U c F e q off data s = (Ok (), s1)"
    and "read_file p U d F e q off s1 = (Ok bytes, s2)"
  shows "\<exists>n\<le>length data. \<exists>file.
    contents (ds_files s1) = (contents (ds_files s))(q := Some file) \<and>
    file = splice_at (unat off) (take n data)
      (case contents (ds_files s) q of None \<Rightarrow> [] | Some old \<Rightarrow> old) \<and>
    bytes = take (length bytes) (drop (unat off) file) \<and>
    length bytes \<le> unat (buffer_size (de_config e)) \<and>
    contents (ds_files s2) = contents (ds_files s1)"
proof -
  let ?old = "case contents (ds_files s) q of None \<Rightarrow> [] | Some old \<Rightarrow> old"
  obtain n where n: "n \<le> length data"
    "contents (ds_files s1) = (contents (ds_files s))(q := Some (splice_at (unat off) (take n data) ?old))"
    by (rule write_file_Ok [OF assms(1,2)]) (rule that)
  note r = read_file_Ok [OF assms(1,3), of "splice_at (unat off) (take n data) ?old"]
  show ?thesis
    using n r by (intro exI [of _ n] exI [of _ "splice_at (unat off) (take n data) ?old"]) simp
qed

text \<open>An engine on the ring of \<open>Ring_Demo\<close> with an empty disk.\<close>

definition demo_engine :: DiskEngine where
  "demo_engine = \<lparr>de_config = \<lparr>queue_depth = 256, buffer_size = 8\<rparr>, de_ring = demo_ring\<rparr>"

definition demo_state :: "(path, demo_disk) disk_state" where
  "demo_state = snd (disk_new (de_config demo_engine) demo_ring demo_mem (\<lambda>_. None))"

lemma demo_disk_safe: "disk_safe demo_ctx demo_engine demo_state"
proof -
  have "ring_safe demo_ring demo_mem"
    using ring_wfD(1,4) [OF demo_created(2)] by (simp add: ring_safe_def)
  then show ?thesis
    by (simp add: disk_safe_def demo_engine_def demo_state_def disk_new_def safe_env_def
        demo_ctx_def demo_env_def)
qed

lemma demo_write_Ok:
  "\<exists>s1. write_file Debug demo_uuid demo_ctx (demo_files 2) demo_engine [97] 0 [1, 2, 3] demo_state = (Ok (), s1)"
proof -
  obtain r s1 where w: "write_file Debug demo_uuid demo_ctx (demo_files 2) demo_engine [97] 0 [1, 2, 3] demo_state = (r, s1)"
    by fastforce
  have safe: "disk_safe demo_ctx demo_engine
      (demo_state\<lparr>ds_files := (\<lambda>_. None)([97] := Some (splice_at 0 [1, 2] []))\<rparr>)"
    by (simp add: disk_safe_files demo_disk_safe)
  obtain s' where "disk_notify Debug demo_uuid demo_ctx demo_engine DiskWrite [97]
      (demo_state\<lparr>ds_files := (\<lambda>_. None)([97] := Some (splice_at 0 [1, 2] []))\<rparr>) = (Ok (), s')"
    by (rule disk_notify_settled [OF safe refl]) (rule that)
  then have "r = Ok ()"
    using w by (auto simp: write_file_def with_file_def demo_files_def opened_contents_def write_flags_def demo_state_def
        disk_new_def)
  then show ?thesis using w by blast
qed

theorem disk_write_then_read_demo:
  "\<exists>s1. write_file Debug demo_uuid demo_ctx (demo_files 2) demo_engine [97] 0 [1, 2, 3] demo_state = (Ok (), s1) \<and>
    ds_files s1 [97] = Some [1, 2] \<and>
    (\<exists>bytes s2. read_file Debug demo_uuid demo_ctx (demo_files 2) demo_engine [97] 0 s1 = (Ok bytes, s2) \<and>
      bytes = take (length bytes) [1, 2] \<and> ds_files s2 = ds_files s1)"
proof -
  obtain s1 where w: "write_file Debug demo_uuid demo_ctx (demo_files 2) demo_engine [97] 0 [1, 2, 3] demo_state = (Ok (), s1)"
    using demo_write_Ok by blast
  have f: "ds_files s1 = (\<lambda>_. None)([97] := Some [1, 2])"
    using w by (auto simp: write_file_def with_file_def demo_files_def opened_contents_def write_flags_def demo_state_def
        disk_new_def splice_at_def dest: disk_notify_files)
  have e: "ds_mem s1 = ds_mem s1" "settled demo_engine (DiskWrite, [97]) demo_state (Ok (), s1)"
    using write_file_settled [OF demo_disk_safe, of "[97]" Debug demo_uuid "demo_files 2" 0 "[1, 2, 3]"]
    by (simp_all add: w)
  then have "disk_safe demo_ctx demo_engine s1"
    using demo_disk_safe by (simp add: disk_safe_def settled_def)
  from read_file_settled [OF this demo_files_laws, of "[97]" Debug demo_uuid 2 0]
  have "settled demo_engine (DiskRead, [97]) s1
      (read_file Debug demo_uuid demo_ctx (demo_files 2) demo_engine [97] 0 s1)"
    by (simp add: demo_engine_def)
  moreover have "fst (read_file Debug demo_uuid demo_ctx (demo_files 2) demo_engine [97] 0 s1) \<noteq> Err x" for x
    by (auto simp: read_file_def with_file_def demo_files_def f demo_engine_def disk_notify_def notify_def
        split: prod.splits outcome.splits)
  ultimately obtain bytes s2 where r: "read_file Debug demo_uuid demo_ctx (demo_files 2) demo_engine [97] 0 s1 = (Ok bytes, s2)"
    by (auto simp: settled_def split: prod.splits outcome.splits)
  obtain new where x: "ds_files s1 = (ds_files demo_state)([97] := Some new)"
    "bytes = take (length bytes) (drop (unat (0 :: u64)) new)" "ds_files s2 = ds_files s1"
    using disk_write_then_read [OF demo_files_laws w r] by blast
  then have "new = [1, 2]" using f by (metis fun_upd_same option.inject)
  then show ?thesis using w r f x by auto
qed

text \<open>
  C15: On a safe ring none of reading, writing and syncing panics, and the ring stays safe.
  An operation that fails announces nothing: the ring is as it was. One that succeeds on a
  well-formed ring with two free slots, for a path that fits in a slot, is announced with
  its kind and path as the new last entry of the ring. A success whose path does not fit
  leaves the ring as it was, and is still reported as a success.
\<close>

theorem disk_announces_successes:
  assumes "disk_safe c e s" "file_laws F contents path_of"
    and "unat (buffer_size (de_config e)) < 2 ^ 63"
  shows "settled e (DiskRead, q) s (read_file p U c F e q off s) \<and>
    settled e (DiskWrite, q) s (write_file p U c F e q off data s) \<and>
    settled e (Custom, q) s (sync_file p U c F e q s)"
  using read_file_settled [OF assms] write_file_settled [OF assms(1)] sync_file_settled [OF assms(1)]
  by blast

theorem disk_announces_successes_demo:
  "settled demo_engine (Custom, [97]) demo_state
     (sync_file Debug demo_uuid demo_ctx (demo_files 2) demo_engine [97] demo_state)"
  using disk_announces_successes [OF demo_disk_safe demo_files_laws, of "[97]" Debug demo_uuid 2 0 "[]"]
  by (simp add: demo_engine_def)

text \<open>
  Closing a path never fails on a safe ring with an intact lock: it forgets the
  cached handle of the path and no other, announces the path, and leaves the lock intact.
  An engine that was only used by its own operations has no cached handle to forget.
\<close>

theorem disk_close_forgets_the_handle:
  assumes "disk_safe c e s" "\<not> ds_poisoned s"
  shows "\<exists>s'. close_file p U c F e q s = (Ok (), s') \<and> ds_handles s' = (ds_handles s)(q := None) \<and>
    \<not> ds_poisoned s' \<and> announced (de_ring e) (Custom, q) (ds_mem s) (ds_mem s') \<and>
    (ds_handles s q = None \<longrightarrow> ds_files s' = ds_files s)"
proof -
  let ?s = "s\<lparr>ds_files := drop_cached F (ds_handles s q) (ds_files s),
    ds_handles := (ds_handles s)(q := None)\<rparr>"
  have safe: "disk_safe c e ?s" "ds_mem ?s = ds_mem s" using assms(1) by (simp_all add: disk_safe_def)
  obtain m where m: "disk_notify p U c e Custom q ?s = (Ok (), ?s\<lparr>ds_mem := m\<rparr>)"
    by (rule disk_notify_safe [OF safe(1)]) (rule that)
  obtain s' where s': "disk_notify p U c e Custom q ?s = (Ok (), s')"
    "announced (de_ring e) (Custom, q) (ds_mem s) (ds_mem s')"
    by (rule disk_notify_settled [OF safe]) (rule that)
  then have "s' = ?s\<lparr>ds_mem := m\<rparr>" using m by simp
  then show ?thesis
    using s' assms(2) by (simp add: close_file_def Let_def drop_cached_def)
qed

theorem disk_close_forgets_the_handle_demo:
  "\<exists>s'. close_file Debug demo_uuid demo_ctx (demo_files 2) demo_engine [97] demo_state = (Ok (), s') \<and>
    ds_files s' = (\<lambda>_. None)"
proof -
  have "\<not> ds_poisoned demo_state" "ds_handles demo_state [97] = None" "ds_files demo_state = (\<lambda>_. None)"
    by (simp_all add: demo_state_def disk_new_def)
  then show ?thesis
    using disk_close_forgets_the_handle [OF demo_disk_safe, of Debug demo_uuid "demo_files 2" "[97]"]
    by auto
qed

end
