(* ===== verification/Simple_Disk.thy ===== *)
theory Simple_Disk
  imports Disk_Correctness
begin

text \<open>
  The simple disk engine of the examples (\<open>examples/simple_disk_engine.rs\<close>), which uses the
  files of \<open>tokio_uring\<close> without a ring, compared with the disk engine of the library. An
  error is named after the call that failed.
\<close>

definition simple_read_file ::
  "('h, 'w) uring_files \<Rightarrow> path \<Rightarrow> u64 \<Rightarrow> 'w \<Rightarrow> (disk_error, u8 list) outcome \<times> 'w" where
  "simple_read_file F q off w =
     (case uf_open F q w of
        (None, w1) \<Rightarrow> (Err FileOpenFailed, w1)
      | (Some h, w1) \<Rightarrow>
          (case uf_read_at F h (replicate 1 0) off w1 of
             ((None, _), w2) \<Rightarrow> (Err FileReadFailed, uf_drop F h w2)
           | ((Some _, _), w2) \<Rightarrow>
               (case uf_read_at F h (replicate 4096 0) off w2 of
                  ((None, _), w3) \<Rightarrow> (Err FileReadFailed, uf_drop F h w3)
                | ((Some n, buf), w3) \<Rightarrow>
                    (if length buf < n then Panic IndexOutOfBounds else Ok (take n buf), uf_drop F h w3))))"

text \<open>The options that the simple engine opens its files with.\<close>

definition simple_write_flags :: open_flags where
  "simple_write_flags = \<lparr>flag_read = True, flag_write = True, flag_create = True, flag_truncate = False\<rparr>"

definition simple_sync_flags :: open_flags where
  "simple_sync_flags = \<lparr>flag_read = True, flag_write = True, flag_create = False, flag_truncate = False\<rparr>"

definition simple_write_file ::
  "('h, 'w) uring_files \<Rightarrow> path \<Rightarrow> u64 \<Rightarrow> u8 list \<Rightarrow> 'w \<Rightarrow> (disk_error, unit) outcome \<times> 'w" where
  "simple_write_file F q off data w =
     (case uf_open_with F simple_write_flags q w of
        (None, w1) \<Rightarrow> (Err FileOpenFailed, w1)
      | (Some h, w1) \<Rightarrow>
          (case uf_write_at F h data off w1 of
             (None, w2) \<Rightarrow> (Err FileWriteFailed, uf_drop F h w2)
           | (Some _, w2) \<Rightarrow> (Ok (), uf_drop F h w2)))"

definition simple_sync_file ::
  "('h, 'w) uring_files \<Rightarrow> path \<Rightarrow> 'w \<Rightarrow> (disk_error, unit) outcome \<times> 'w" where
  "simple_sync_file F q w =
     (case uf_open_with F simple_sync_flags q w of
        (None, w1) \<Rightarrow> (Err FileOpenFailed, w1)
      | (Some h, w1) \<Rightarrow>
          (case uf_sync_all F h w1 of
             (False, w2) \<Rightarrow> (Err FileSyncFailed, uf_drop F h w2)
           | (True, w2) \<Rightarrow> (Ok (), uf_drop F h w2)))"

definition simple_close_file :: "path \<Rightarrow> 'w \<Rightarrow> (disk_error, unit) outcome \<times> 'w" where
  "simple_close_file q w = (Ok (), w)"

subsection \<open>Agreement with the disk engine\<close>

lemma same_flags: "simple_write_flags = write_flags" "simple_sync_flags = sync_flags"
  by (simp_all add: simple_write_flags_def write_flags_def simple_sync_flags_def sync_flags_def)

lemma disk_notify_result:
  assumes "disk_safe c e s"
  obtains s' where "disk_notify p U c e kind q s = (Ok (), s')" "ds_files s' = ds_files s"
  by (rule disk_notify_settled [OF assms refl]) (rule that)

lemma simple_write_agrees:
  assumes "disk_safe c e s"
  shows "simple_write_file F q off data (ds_files s) =
    (fst (write_file p U c F e q off data s), ds_files (snd (write_file p U c F e q off data s)))"
proof -
  obtain ho w where o: "uf_open_with F write_flags q (ds_files s) = (ho, w)" by fastforce
  show ?thesis
  proof (cases ho)
    case (Some h)
    obtain no w1 where r: "uf_write_at F h data off w = (no, w1)" by fastforce
    have s: "disk_safe c e (s\<lparr>ds_files := w1\<rparr>)" using assms by (simp add: disk_safe_files)
    obtain s' where "disk_notify p U c e DiskWrite q (s\<lparr>ds_files := w1\<rparr>) = (Ok (), s')" "ds_files s' = w1"
      by (rule disk_notify_result [OF s]) (rule that, simp_all)
    then show ?thesis
      by (cases no) (simp_all add: simple_write_file_def write_file_def with_file_def same_flags o Some r)
  qed (simp add: simple_write_file_def write_file_def with_file_def same_flags o)
qed

lemma simple_sync_agrees:
  assumes "disk_safe c e s"
  shows "simple_sync_file F q (ds_files s) =
    (fst (sync_file p U c F e q s), ds_files (snd (sync_file p U c F e q s)))"
proof -
  obtain ho w where o: "uf_open_with F sync_flags q (ds_files s) = (ho, w)" by fastforce
  show ?thesis
  proof (cases ho)
    case (Some h)
    obtain b w1 where r: "uf_sync_all F h w = (b, w1)" by fastforce
    have s: "disk_safe c e (s\<lparr>ds_files := w1\<rparr>)" using assms by (simp add: disk_safe_files)
    obtain s' where "disk_notify p U c e Custom q (s\<lparr>ds_files := w1\<rparr>) = (Ok (), s')" "ds_files s' = w1"
      by (rule disk_notify_result [OF s]) (rule that, simp_all)
    then show ?thesis
      by (cases b) (simp_all add: simple_sync_file_def sync_file_def with_file_def same_flags o Some r)
  qed (simp add: simple_sync_file_def sync_file_def with_file_def same_flags o)
qed

lemma simple_read_effect:
  assumes "file_laws F contents path_of" "simple_read_file F q off w = (Ok bytes, w')"
  shows "\<exists>c. contents w q = Some c \<and> contents w' = contents w \<and>
    bytes = take (length bytes) (drop (unat off) c) \<and> length bytes \<le> 4096"
proof -
  note L = file_lawsD [OF assms(1)]
  obtain ho w1 where o: "uf_open F q w = (ho, w1)" by fastforce
  then obtain h where h: "ho = Some h" using assms(2) by (cases ho) (simp_all add: simple_read_file_def)
  obtain n1 b1 w2 where r1: "uf_read_at F h (replicate 1 0) off w1 = ((n1, b1), w2)" by (metis prod.exhaust)
  then obtain k1 where k1: "n1 = Some k1"
    using assms(2) by (cases n1) (simp_all add: simple_read_file_def o h)
  obtain n buf w3 where r: "uf_read_at F h (replicate 4096 0) off w2 = ((n, buf), w3)" by (metis prod.exhaust)
  then obtain k where k: "n = Some k"
    using assms(2) r1 k1 by (cases n) (simp_all add: simple_read_file_def o h)
  have len: "k \<le> length buf" "length buf = 4096" using L(4) [OF r [unfolded k]] by simp_all
  have w': "bytes = take k buf" "w' = uf_drop F h w3"
    using assms(2) len r1 k1 r k by (simp_all add: simple_read_file_def o h)
  have p: "path_of h = q" "contents w q \<noteq> None" using L(1) [OF o [unfolded h]] by simp_all
  then obtain c where c: "contents w q = Some c" by blast
  have same: "contents w1 = contents w" "contents w2 = contents w" "contents w3 = contents w"
    using L(2) [OF o] L(6) [OF r1] L(6) [OF r] by simp_all
  have "take k buf = take k (drop (unat off) c)"
    using L(5) [OF r [unfolded k], of c] p(1) c same by simp
  then have "bytes = take (length bytes) (drop (unat off) c)"
    using w'(1) by (metis append_take_drop_id append_eq_conv_conj)
  moreover have "length bytes \<le> 4096" using w'(1) len by simp
  moreover have "contents w' = contents w" by (simp add: w'(2) L(9) same(3))
  ultimately show ?thesis using c by blast
qed

text \<open>
  C39: On a safe ring the disk engine writes and syncs exactly as the simple engine of the
  examples does: the same result and the same files, call for call; it only announces in
  addition. What the simple engine reads is a piece of the file of at most 4096 bytes, and
  reading changes no file.
\<close>

theorem simple_engine_agrees:
  assumes "disk_safe c e s" "file_laws F contents path_of"
  shows "simple_write_file F q off data (ds_files s) =
      (fst (write_file p U c F e q off data s), ds_files (snd (write_file p U c F e q off data s))) \<and>
    simple_sync_file F q (ds_files s) =
      (fst (sync_file p U c F e q s), ds_files (snd (sync_file p U c F e q s))) \<and>
    (case simple_read_file F q off w of
       (Ok bytes, w') \<Rightarrow> contents w' = contents w \<and> length bytes \<le> 4096 \<and>
         bytes = take (length bytes) (drop (unat off) (the (contents w q)))
     | (r, _) \<Rightarrow> returned r)"
proof -
  have "case simple_read_file F q off w of
       (Ok bytes, w') \<Rightarrow> contents w' = contents w \<and> length bytes \<le> 4096 \<and>
         bytes = take (length bytes) (drop (unat off) (the (contents w q)))
     | (r, _) \<Rightarrow> returned r"
  proof (cases "simple_read_file F q off w")
    case (Pair r w')
    show ?thesis
    proof (cases r)
      case (Ok bytes)
      then show ?thesis using simple_read_effect [OF assms(2), of q off w bytes w'] Pair by auto
    next
      case (Panic x)
      then show ?thesis
        using Pair file_lawsD(4) [OF assms(2)]
        by (fastforce simp: simple_read_file_def not_less split: prod.splits option.splits if_splits)
    next
      case UB
      then show ?thesis
        using Pair by (auto simp: simple_read_file_def split: prod.splits option.splits if_splits)
    qed (simp add: Pair)
  qed
  then show ?thesis using simple_write_agrees [OF assms(1)] simple_sync_agrees [OF assms(1)] by metis
qed

theorem simple_engine_agrees_demo:
  "simple_write_file (demo_files 2) [97] 0 [1, 2, 3] (ds_files demo_state) =
     (fst (write_file Debug demo_uuid demo_ctx (demo_files 2) demo_engine [97] 0 [1, 2, 3] demo_state),
      ds_files (snd (write_file Debug demo_uuid demo_ctx (demo_files 2) demo_engine [97] 0 [1, 2, 3] demo_state)))"
  using simple_engine_agrees [OF demo_disk_safe demo_files_laws] by blast

end
