(* ===== verification/Worker_Channel.thy ===== *)
theory Worker_Channel
  imports Elgate_Prelude
begin

text \<open>
  The part the two fallback engines share (\<open>disk/fallback.rs\<close>, \<open>net/fallback.rs\<close>): a
  bounded channel of operations, one worker task that serves them in a loop, and callbacks
  that send each result back to the caller that waits for it. The channel of \<open>tokio\<close> is a
  parameter; \<open>mpsc_laws\<close> is its documented behaviour. A callback is the number of the
  one-shot channel it sends to; what the closure does with the result is applied to what
  arrives there.
\<close>

subsection \<open>The channel\<close>

text \<open>
  A channel for a number of operations (\<open>None\<close>: the call panics), sending (\<open>None\<close>: there is
  no room, the sender waits) and receiving (\<open>None\<close>: nothing is there, the receiver waits).
\<close>

record ('ch, 'op) mpsc =
  mp_channel :: "u64 \<Rightarrow> 'ch option"
  mp_send :: "'op \<Rightarrow> 'ch \<Rightarrow> 'ch option"
  mp_recv :: "'ch \<Rightarrow> ('op \<times> 'ch) option"

definition mpsc_laws :: "('ch, 'op) mpsc \<Rightarrow> ('ch \<Rightarrow> 'op list) \<Rightarrow> ('ch \<Rightarrow> nat) \<Rightarrow> bool" where
  "mpsc_laws C items room \<longleftrightarrow>
     mp_channel C 0 = None \<and>
     (\<forall>n ch. mp_channel C n = Some ch \<longrightarrow> items ch = [] \<and> room ch = unat n) \<and>
     (\<forall>x ch. mp_send C x ch = None \<longrightarrow> room ch \<le> length (items ch)) \<and>
     (\<forall>x ch ch'. mp_send C x ch = Some ch' \<longrightarrow>
        length (items ch) < room ch \<and> items ch' = items ch @ [x] \<and> room ch' = room ch) \<and>
     (\<forall>ch. mp_recv C ch = None \<longrightarrow> items ch = []) \<and>
     (\<forall>x ch ch'. mp_recv C ch = Some (x, ch') \<longrightarrow> items ch = x # items ch' \<and> room ch' = room ch)"

lemma mpsc_lawsD:
  assumes "mpsc_laws C items room"
  shows "mp_channel C 0 = None"
    and "mp_channel C n = Some ch \<Longrightarrow> items ch = [] \<and> room ch = unat n"
    and "mp_send C x ch = None \<Longrightarrow> room ch \<le> length (items ch)"
    and "mp_send C x ch = Some ch' \<Longrightarrow>
      length (items ch) < room ch \<and> items ch' = items ch @ [x] \<and> room ch' = room ch"
    and "mp_recv C ch = None \<Longrightarrow> items ch = []"
    and "mp_recv C ch = Some (x, ch') \<Longrightarrow> items ch = x # items ch' \<and> room ch' = room ch"
  using assms unfolding mpsc_laws_def by meson+

text \<open>A channel as a list with its capacity.\<close>

definition list_channel :: "(nat \<times> 'op list, 'op) mpsc" where
  "list_channel =
     \<lparr>mp_channel = (\<lambda>n. if n = 0 then None else Some (unat n, [])),
      mp_send = (\<lambda>x (n, xs). if length xs < n then Some (n, xs @ [x]) else None),
      mp_recv = (\<lambda>(n, xs). case xs of [] \<Rightarrow> None | x # ys \<Rightarrow> Some (x, (n, ys)))\<rparr>"

lemma list_channel_laws: "mpsc_laws list_channel snd fst"
  by (auto simp: mpsc_laws_def list_channel_def split: if_splits list.splits)

subsection \<open>The worker\<close>

text \<open>
  The channel, whether the worker task still runs, what the callbacks have sent, the number
  of the next one-shot channel, and the system the operations work on.
\<close>

record ('ch, 'e, 'r, 'w) worker_state =
  wk_chan :: 'ch
  wk_alive :: bool
  wk_replies :: "(nat \<times> ('e, 'r) outcome) list"
  wk_next :: nat
  wk_sys :: 'w

text \<open>
  Serving one operation: the result goes to its callback if there is one; a panic ends the
  task.
\<close>

definition worker_serve ::
  "('op \<Rightarrow> 'w \<Rightarrow> ('e, 'r) outcome \<times> 'w) \<Rightarrow> ('op \<Rightarrow> nat option) \<Rightarrow> 'op
    \<Rightarrow> ('ch, 'e, 'r, 'w) worker_state \<Rightarrow> ('ch, 'e, 'r, 'w) worker_state" where
  "worker_serve serve callback op s =
     (case serve op (wk_sys s) of
        (r, w) \<Rightarrow>
          if returned r then
            s\<lparr>wk_sys := w,
              wk_replies := wk_replies s @ (case callback op of None \<Rightarrow> [] | Some t \<Rightarrow> [(t, r)])\<rparr>
          else s\<lparr>wk_sys := w, wk_alive := False\<rparr>)"

definition worker_step ::
  "('ch, 'op) mpsc \<Rightarrow> ('op \<Rightarrow> 'w \<Rightarrow> ('e, 'r) outcome \<times> 'w) \<Rightarrow> ('op \<Rightarrow> nat option)
    \<Rightarrow> ('ch, 'e, 'r, 'w) worker_state \<Rightarrow> ('ch, 'e, 'r, 'w) worker_state option" where
  "worker_step C serve callback s =
     (if \<not> wk_alive s then None
      else
        (case mp_recv C (wk_chan s) of
           None \<Rightarrow> None
         | Some (op, ch) \<Rightarrow> Some (worker_serve serve callback op (s\<lparr>wk_chan := ch\<rparr>))))"

text \<open>The loop of the worker, until it waits for the next operation or has ended.\<close>

partial_function (option) worker_loop ::
  "('ch, 'op) mpsc \<Rightarrow> ('op \<Rightarrow> 'w \<Rightarrow> ('e, 'r) outcome \<times> 'w) \<Rightarrow> ('op \<Rightarrow> nat option)
    \<Rightarrow> ('ch, 'e, 'r, 'w) worker_state \<Rightarrow> ('ch, 'e, 'r, 'w) worker_state option" where
  "worker_loop C serve callback s =
     (case worker_step C serve callback s of
        None \<Rightarrow> Some s
      | Some s1 \<Rightarrow> worker_loop C serve callback s1)"

text \<open>
  A new engine: the capacity of the channel is thirty-two operations for each configured
  worker thread.
\<close>

definition worker_new ::
  "profile \<Rightarrow> ('ch, 'op) mpsc \<Rightarrow> u64 \<Rightarrow> 'w \<Rightarrow> ('x, ('ch, 'e, 'r, 'w) worker_state) outcome" where
  "worker_new p C worker_threads w =
     bind_outcome (usize_mul p worker_threads 32) (\<lambda>n.
       case mp_channel C n of
         None \<Rightarrow> Panic ZeroChannelBuffer
       | Some ch \<Rightarrow> Ok \<lparr>wk_chan = ch, wk_alive = True, wk_replies = [], wk_next = 0, wk_sys = w\<rparr>)"

text \<open>
  A call: make a one-shot channel, send the operation (waiting for the worker where there
  is no room), wait for the reply. \<open>None\<close> as an answer of a wait is an error: the worker
  has ended.
\<close>

definition send_op ::
  "('ch, 'op) mpsc \<Rightarrow> ('op \<Rightarrow> 'w \<Rightarrow> ('e, 'r) outcome \<times> 'w) \<Rightarrow> ('op \<Rightarrow> nat option) \<Rightarrow> 'op
    \<Rightarrow> ('ch, 'e, 'r, 'w) worker_state \<Rightarrow> bool \<times> ('ch, 'e, 'r, 'w) worker_state" where
  "send_op C serve callback op s =
     (if \<not> wk_alive s then (False, s)
      else
        (case mp_send C op (wk_chan s) of
           Some ch \<Rightarrow> (True, s\<lparr>wk_chan := ch\<rparr>)
         | None \<Rightarrow>
             (case worker_step C serve callback s of
                None \<Rightarrow> (False, s)
              | Some s1 \<Rightarrow>
                  if \<not> wk_alive s1 then (False, s1)
                  else
                    (case mp_send C op (wk_chan s1) of
                       Some ch \<Rightarrow> (True, s1\<lparr>wk_chan := ch\<rparr>)
                     | None \<Rightarrow> (False, s1)))))"

definition worker_call ::
  "('ch, 'op) mpsc \<Rightarrow> ('op \<Rightarrow> 'w \<Rightarrow> ('e, 'r) outcome \<times> 'w) \<Rightarrow> ('op \<Rightarrow> nat option)
    \<Rightarrow> 'e \<Rightarrow> 'e \<Rightarrow> (nat \<Rightarrow> 'op) \<Rightarrow> ('ch, 'e, 'r, 'w) worker_state
    \<Rightarrow> (('e, 'r) outcome \<times> ('ch, 'e, 'r, 'w) worker_state) option" where
  "worker_call C serve callback send_failed receive_failed mk s =
     (let t = wk_next s in
      case send_op C serve callback (mk t) (s\<lparr>wk_next := t + 1\<rparr>) of
        (False, s1) \<Rightarrow> Some (Err send_failed, s1)
      | (True, s1) \<Rightarrow>
          (case worker_loop C serve callback s1 of
             None \<Rightarrow> None
           | Some s2 \<Rightarrow>
               Some (case map_of (wk_replies s2) t of None \<Rightarrow> Err receive_failed | Some r \<Rightarrow> r, s2)))"

text \<open>Dropping the engine aborts the worker.\<close>

definition worker_drop :: "('ch, 'e, 'r, 'w) worker_state \<Rightarrow> ('ch, 'e, 'r, 'w) worker_state" where
  "worker_drop s = s\<lparr>wk_alive := False\<rparr>"

end
