(* ===== verification/Worker_Laws.thy ===== *)
theory Worker_Laws
  imports Worker_Channel
begin

text \<open>
  What the worker of a fallback engine guarantees: its loop ends at an empty channel and
  does what serving the waiting operations one after the other does; the callbacks of the
  submitted operations are called in their order, each at most once. A service that never
  panics is the locale \<open>total_service\<close>; with one, every submitted operation is answered.
\<close>

subsection \<open>A sequential reference\<close>

definition reply_to :: "('op \<Rightarrow> nat option) \<Rightarrow> 'op \<Rightarrow> 'r \<Rightarrow> (nat \<times> 'r) list" where
  "reply_to callback op r = (case callback op of None \<Rightarrow> [] | Some t \<Rightarrow> [(t, r)])"

primrec serve_all ::
  "('op \<Rightarrow> 'w \<Rightarrow> ('e, 'r) outcome \<times> 'w) \<Rightarrow> ('op \<Rightarrow> nat option) \<Rightarrow> 'op list \<Rightarrow> 'w
    \<Rightarrow> (nat \<times> ('e, 'r) outcome) list \<times> bool \<times> 'w" where
  "serve_all serve callback [] w = ([], True, w)"
| "serve_all serve callback (op # ops) w =
     (case serve op w of
        (r, w1) \<Rightarrow>
          if returned r then
            (case serve_all serve callback ops w1 of
               (rs, alive, w2) \<Rightarrow> (reply_to callback op r @ rs, alive, w2))
          else ([], False, w1))"

lemma worker_serve_eq:
  "worker_serve serve callback op s =
     (if returned (fst (serve op (wk_sys s)))
      then s\<lparr>wk_sys := snd (serve op (wk_sys s)),
             wk_replies := wk_replies s @ reply_to callback op (fst (serve op (wk_sys s)))\<rparr>
      else s\<lparr>wk_sys := snd (serve op (wk_sys s)), wk_alive := False\<rparr>)"
  by (simp add: worker_serve_def reply_to_def case_prod_beta)

lemma worker_serve_other [simp]:
  "wk_chan (worker_serve serve callback op s) = wk_chan s"
  "wk_next (worker_serve serve callback op s) = wk_next s"
  by (simp_all add: worker_serve_eq)

lemma worker_step_Some:
  assumes "mpsc_laws C items room" "worker_step C serve callback s = Some s1"
  obtains op ch where "wk_alive s" "items (wk_chan s) = op # items ch" "room ch = room (wk_chan s)"
    "s1 = worker_serve serve callback op (s\<lparr>wk_chan := ch\<rparr>)"
  using assms(2) mpsc_lawsD(6) [OF assms(1)] that
  by (fastforce simp: worker_step_def split: if_splits option.splits)

lemma worker_step_None:
  "mpsc_laws C items room \<Longrightarrow> worker_step C serve callback s = None \<Longrightarrow> wk_alive s \<Longrightarrow>
     items (wk_chan s) = []"
  by (auto simp: worker_step_def mpsc_lawsD(5) split: option.splits)

text \<open>The loop ends, and does what the reference does with the waiting operations.\<close>

lemma worker_loop_dead: "\<not> wk_alive s \<Longrightarrow> worker_loop C serve callback s = Some s"
  by (subst worker_loop.simps) (simp add: worker_step_def)

lemma worker_loop_eq:
  assumes "mpsc_laws C items room" "wk_alive s"
    and "serve_all serve callback (items (wk_chan s)) (wk_sys s) = (rs, alive, w)"
  shows "\<exists>ch. worker_loop C serve callback s =
      Some (s\<lparr>wk_chan := ch, wk_alive := alive, wk_replies := wk_replies s @ rs, wk_sys := w\<rparr>) \<and>
    room ch = room (wk_chan s) \<and> (alive \<longrightarrow> items ch = [])"
  using assms(2,3)
proof (induction "items (wk_chan s)" arbitrary: s rs)
  case Nil
  then have "worker_step C serve callback s = None"
    using mpsc_lawsD(6) [OF assms(1)] by (fastforce simp: worker_step_def split: option.split)
  moreover have "rs = []" "alive" "w = wk_sys s" using Nil by (simp_all flip: Nil.hyps)
  ultimately show ?case
    using Nil by (intro exI [of _ "wk_chan s"]) (subst worker_loop.simps, simp)
next
  case (Cons op ops)
  obtain ch where ch: "mp_recv C (wk_chan s) = Some (op, ch)" "items ch = ops" "room ch = room (wk_chan s)"
    using Cons.hyps(2) mpsc_lawsD(5,6) [OF assms(1)]
    by (cases "mp_recv C (wk_chan s)") fastforce+
  obtain r w1 where sv: "serve op (wk_sys s) = (r, w1)" by fastforce
  let ?s1 = "worker_serve serve callback op (s\<lparr>wk_chan := ch\<rparr>)"
  have step: "worker_loop C serve callback s = worker_loop C serve callback ?s1"
    using Cons.prems(1) ch(1) by (subst worker_loop.simps) (simp add: worker_step_def)
  show ?case
  proof (cases "returned r")
    case True
    obtain rs1 where rs1: "serve_all serve callback ops w1 = (rs1, alive, w)"
      "rs = reply_to callback op r @ rs1"
      using Cons.prems(2) True by (auto simp: sv split: prod.splits simp flip: Cons.hyps(2))
    have s1: "?s1 = s\<lparr>wk_chan := ch, wk_sys := w1, wk_replies := wk_replies s @ reply_to callback op r\<rparr>"
      using True by (simp add: worker_serve_eq sv)
    show ?thesis
      using Cons.hyps(1) [of ?s1 rs1] Cons.prems(1) rs1 ch(2,3) step by (simp add: s1)
  next
    case False
    then have "rs = []" "\<not> alive" "w = w1"
      using Cons.prems(2) by (auto simp: sv simp flip: Cons.hyps(2))
    moreover have "?s1 = s\<lparr>wk_chan := ch, wk_sys := w1, wk_alive := False\<rparr>"
      using False by (simp add: worker_serve_eq sv)
    ultimately show ?thesis
      using step ch(3) by (intro exI [of _ ch]) (simp add: worker_loop_dead)
  qed
qed

subsection \<open>Services that never panic\<close>

locale total_service =
  fixes serve :: "'op \<Rightarrow> 'w \<Rightarrow> ('e, 'r) outcome \<times> 'w"
    and callback :: "'op \<Rightarrow> nat option"
    and good :: "'op \<Rightarrow> bool"
  assumes serve_returns: "good op \<Longrightarrow> returned (fst (serve op w))"
begin

lemma serve_all_total:
  assumes "list_all good ops" "map callback ops = map Some ts"
  obtains rs w' where "serve_all serve callback ops w = (rs, True, w')" "map fst rs = ts"
    "list_all (\<lambda>x. returned (snd x)) rs"
proof -
  have "\<exists>rs w'. serve_all serve callback ops w = (rs, True, w') \<and> map fst rs = ts \<and>
      list_all (\<lambda>x. returned (snd x)) rs"
    using assms
  proof (induction ops arbitrary: ts w)
    case (Cons op ops)
    obtain t ts1 where ts: "ts = t # ts1" "callback op = Some t" "map callback ops = map Some ts1"
      using Cons.prems(2) by (cases ts) auto
    obtain r w1 where sv: "serve op w = (r, w1)" by fastforce
    then have "returned r" using serve_returns [of op w] Cons.prems(1) by simp
    moreover obtain rs w' where "serve_all serve callback ops w1 = (rs, True, w')"
      "map fst rs = ts1" "list_all (\<lambda>x. returned (snd x)) rs"
      using Cons.IH [OF _ ts(3), of w1] Cons.prems(1) by auto
    ultimately show ?case by (simp add: sv ts(1,2) reply_to_def)
  qed simp
  then show ?thesis using that by blast
qed

text \<open>The loop answers every waiting operation, in order, and goes on waiting.\<close>

lemma loop_answers_all:
  assumes "mpsc_laws C items room" "wk_alive s" "list_all good (items (wk_chan s))"
    and "map callback (items (wk_chan s)) = map Some ts"
  obtains s' rs where "worker_loop C serve callback s = Some s'" "wk_alive s'"
    "items (wk_chan s') = []" "wk_replies s' = wk_replies s @ rs" "map fst rs = ts"
    "wk_next s' = wk_next s" "room (wk_chan s') = room (wk_chan s)"
    "list_all (\<lambda>x. returned (snd x)) rs"
proof -
  obtain rs w' where rs: "serve_all serve callback (items (wk_chan s)) (wk_sys s) = (rs, True, w')"
    "map fst rs = ts" "list_all (\<lambda>x. returned (snd x)) rs"
    by (rule serve_all_total [OF assms(3,4)])
  from worker_loop_eq [OF assms(1,2) rs(1)] show ?thesis
    using that rs(2,3) by auto
qed

end

subsection \<open>Submitting and serving in any order\<close>

inductive worker_reach ::
  "('ch, 'op) mpsc \<Rightarrow> ('op \<Rightarrow> 'w \<Rightarrow> ('e, 'r) outcome \<times> 'w) \<Rightarrow> ('op \<Rightarrow> nat option) \<Rightarrow> ('op \<Rightarrow> bool)
    \<Rightarrow> ('ch, 'e, 'r, 'w) worker_state \<Rightarrow> ('ch, 'e, 'r, 'w) worker_state \<Rightarrow> bool"
  for C serve callback good s0 where
  start: "worker_reach C serve callback good s0 s0"
| submit: "worker_reach C serve callback good s0 s \<Longrightarrow> good op \<Longrightarrow> callback op = Some (wk_next s) \<Longrightarrow>
    mp_send C op (wk_chan s) = Some ch \<Longrightarrow>
    worker_reach C serve callback good s0 (s\<lparr>wk_chan := ch, wk_next := wk_next s + 1\<rparr>)"
| serve: "worker_reach C serve callback good s0 s \<Longrightarrow> worker_step C serve callback s = Some s' \<Longrightarrow>
    worker_reach C serve callback good s0 s'"
| system: "worker_reach C serve callback good s0 s \<Longrightarrow>
    worker_reach C serve callback good s0 (s\<lparr>wk_sys := w\<rparr>)"

definition in_order ::
  "('ch \<Rightarrow> 'op list) \<Rightarrow> ('ch \<Rightarrow> nat) \<Rightarrow> ('op \<Rightarrow> nat option) \<Rightarrow> ('op \<Rightarrow> bool) \<Rightarrow> ('ch, 'e, 'r, 'w) worker_state \<Rightarrow> bool" where
  "in_order items room callback good s \<longleftrightarrow>
     length (items (wk_chan s)) \<le> room (wk_chan s) \<and> list_all good (items (wk_chan s)) \<and>
     list_all (\<lambda>x. returned (snd x)) (wk_replies s) \<and>
     (\<exists>k\<le>wk_next s. map fst (wk_replies s) = [0..<k] \<and>
        (wk_alive s \<longrightarrow> map callback (items (wk_chan s)) = map Some [k..<wk_next s]))"

lemma in_order_step:
  assumes "mpsc_laws C items room" "in_order items room callback good s"
    and "worker_step C serve callback s = Some s'"
  shows "in_order items room callback good s'"
proof -
  obtain op ch where st: "wk_alive s" "items (wk_chan s) = op # items ch" "room ch = room (wk_chan s)"
    "s' = worker_serve serve callback op (s\<lparr>wk_chan := ch\<rparr>)"
    by (rule worker_step_Some [OF assms(1,3)]) (rule that)
  obtain k where k: "k \<le> wk_next s" "map fst (wk_replies s) = [0..<k]"
    "map callback (items (wk_chan s)) = map Some [k..<wk_next s]"
    using assms(2) st(1) by (auto simp: in_order_def)
  have less: "k < wk_next s" using k(3) st(2) by (cases "k < wk_next s") simp_all
  then have cb: "callback op = Some k" "map callback (items ch) = map Some [Suc k..<wk_next s]"
    using k(3) by (simp_all add: st(2) upt_conv_Cons)
  obtain r w where sv: "serve op (wk_sys s) = (r, w)" by fastforce
  have c: "length (items ch) \<le> room ch" "list_all good (items ch)"
    "list_all (\<lambda>x. returned (snd x)) (wk_replies s)"
    using assms(2) st(2,3) by (simp_all add: in_order_def)
  show ?thesis
  proof (cases "returned r")
    case True
    then show ?thesis
      using k(2) less cb c
      by (auto simp: in_order_def st(4) worker_serve_eq sv reply_to_def intro!: exI [of _ "Suc k"])
  next
    case False
    then show ?thesis
      using k c by (auto simp: in_order_def st(4) worker_serve_eq sv intro!: exI [of _ k])
  qed
qed

lemma in_order_submit:
  assumes "mpsc_laws C items room" "in_order items room callback good s"
    and "callback op = Some (wk_next s)" "mp_send C op (wk_chan s) = Some ch" "good op"
  shows "in_order items room callback good (s\<lparr>wk_chan := ch, wk_next := wk_next s + 1\<rparr>)"
proof -
  note L = mpsc_lawsD(4) [OF assms(1,4)]
  obtain k where k: "k \<le> wk_next s" "map fst (wk_replies s) = [0..<k]"
    "wk_alive s \<Longrightarrow> map callback (items (wk_chan s)) = map Some [k..<wk_next s]"
    using assms(2) by (auto simp: in_order_def)
  have "map callback (items ch) = map Some [k..<wk_next s + 1]" if "wk_alive s"
    using k(1,3) that assms(3) L by simp
  then show ?thesis
    using L k(1,2) assms(2,5) by (auto simp: in_order_def intro!: exI [of _ k])
qed

lemma worker_reach_in_order:
  assumes "worker_reach C serve callback good s0 s" "mpsc_laws C items room" "in_order items room callback good s0"
  shows "in_order items room callback good s"
  using assms(1)
proof induction
  case start
  then show ?case by (rule assms(3))
next
  case (submit s op ch)
  show ?case by (rule in_order_submit [OF assms(2) submit.IH submit.hyps(3,4,2)])
next
  case (serve s s')
  show ?case by (rule in_order_step [OF assms(2) serve.IH serve.hyps(2)])
next
  case (system s w)
  then show ?case by (simp add: in_order_def)
qed

lemma worker_new_in_order:
  assumes "mpsc_laws C items room" "worker_new p C n w = (Ok s :: ('x, _) outcome)"
  shows "in_order items room callback good s" "wk_alive s" "0 < room (wk_chan s)" "wk_sys s = w"
proof -
  obtain k ch where k: "usize_mul p n 32 = (Ok k :: ('x, _) outcome)" "mp_channel C k = Some ch"
    "s = \<lparr>wk_chan = ch, wk_alive = True, wk_replies = [], wk_next = 0, wk_sys = w\<rparr>"
    using assms(2) by (auto simp: worker_new_def bind_outcome_Ok_iff split: option.splits)
  note new = mpsc_lawsD(2) [OF assms(1) k(2)]
  have "k \<noteq> 0" using mpsc_lawsD(1) [OF assms(1)] k(2) by auto
  then show "in_order items room callback good s" "wk_alive s" "0 < room (wk_chan s)" "wk_sys s = w"
    using new k(3) by (simp_all add: in_order_def unat_gt_0)
qed

subsection \<open>One call\<close>

lemma serve_all_append:
  "serve_all serve callback xs w = (rs, True, w1) \<Longrightarrow>
     serve_all serve callback (xs @ ys) w =
       (case serve_all serve callback ys w1 of (rs2, alive, w2) \<Rightarrow> (rs @ rs2, alive, w2))"
  by (induction xs arbitrary: w rs) (auto split: prod.splits if_splits)

lemma upt_join: "k \<le> t \<Longrightarrow> [0..<k] @ [k..<t] = [0..<t]"
  using upt_add_eq_append [of 0 k "t - k"] by simp

context total_service
begin

lemma send_succeeds:
  assumes "mpsc_laws C items room" "in_order items room callback good s" "wk_alive s" "0 < room (wk_chan s)"
    and "good op" "callback op = Some (wk_next s)"
  obtains s2 ops where "send_op C serve callback op (s\<lparr>wk_next := wk_next s + 1\<rparr>) = (True, s2)"
    "in_order items room callback good s2" "wk_alive s2" "items (wk_chan s2) = ops @ [op]"
    "wk_next s2 = wk_next s + 1" "room (wk_chan s2) = room (wk_chan s)"
    "snd (snd (serve_all serve callback ops (wk_sys s2))) =
     snd (snd (serve_all serve callback (items (wk_chan s)) (wk_sys s)))"
proof (cases "mp_send C op (wk_chan s)")
  case (Some ch)
  have "in_order items room callback good (s\<lparr>wk_chan := ch, wk_next := wk_next s + 1\<rparr>)"
    by (rule in_order_submit [OF assms(1,2,6) Some assms(5)])
  then show ?thesis
    using that [of "s\<lparr>wk_chan := ch, wk_next := wk_next s + 1\<rparr>" "items (wk_chan s)"]
      mpsc_lawsD(4) [OF assms(1) Some] assms(3) Some by (simp add: send_op_def)
next
  case None
  have "items (wk_chan s) \<noteq> []"
    using mpsc_lawsD(3) [OF assms(1) None] assms(4) by auto
  then obtain s1 where st: "worker_step C serve callback s = Some s1"
    using worker_step_None [OF assms(1) _ assms(3)] by fastforce
  then obtain op1 ch where s1: "items (wk_chan s) = op1 # items ch" "room ch = room (wk_chan s)"
    "s1 = worker_serve serve callback op1 (s\<lparr>wk_chan := ch\<rparr>)"
    using worker_step_Some [OF assms(1) st] by metis
  have g: "good op1" using assms(2) s1(1) by (simp add: in_order_def)
  then have ret: "returned (fst (serve op1 (wk_sys s)))" by (rule serve_returns)
  have full: "length (items (wk_chan s)) \<le> room (wk_chan s)" using assms(2) by (simp add: in_order_def)
  have ord: "in_order items room callback good s1" by (rule in_order_step [OF assms(1,2) st])
  have al: "wk_alive s1" "wk_chan s1 = ch" "wk_next s1 = wk_next s"
    using ret assms(3) by (simp_all add: s1(3) worker_serve_eq)
  have "mp_send C op ch \<noteq> None"
    using mpsc_lawsD(3) [OF assms(1), of op ch] full s1(1,2) by fastforce
  then obtain ch2 where ch2: "mp_send C op ch = Some ch2" by blast
  let ?s2 = "s1\<lparr>wk_chan := ch2, wk_next := wk_next s1 + 1\<rparr>"
  have "in_order items room callback good ?s2"
    by (rule in_order_submit [OF assms(1) ord]) (use assms(5,6) al ch2 in simp_all)
  moreover have "worker_step C serve callback (s\<lparr>wk_next := wk_next s + 1\<rparr>) =
      Some (s1\<lparr>wk_next := wk_next s + 1\<rparr>)"
    using st by (auto simp: worker_step_def worker_serve_eq split: if_splits option.splits)
  moreover have "wk_sys s1 = snd (serve op1 (wk_sys s))" using ret by (simp add: s1(3) worker_serve_eq)
  ultimately show ?thesis
    using that [of ?s2 "items ch"] mpsc_lawsD(4) [OF assms(1) ch2] al ch2 None assms(3) s1(1,2) ret
    by (simp add: send_op_def case_prod_beta)
qed

text \<open>
  A call answers with the result of serving its own operation, whatever waits before it.
\<close>

lemma call_served:
  assumes "mpsc_laws C items room" "in_order items room callback good s" "wk_alive s" "0 < room (wk_chan s)"
    and "good (mk (wk_next s))" "callback (mk (wk_next s)) = Some (wk_next s)"
  obtains s' w where
    "worker_call C serve callback e1 e2 mk s = Some (fst (serve (mk (wk_next s)) w), s')"
    "w = snd (snd (serve_all serve callback (items (wk_chan s)) (wk_sys s)))"
    "wk_sys s' = snd (serve (mk (wk_next s)) w)"
    "in_order items room callback good s'" "wk_alive s'" "items (wk_chan s') = []"
    "room (wk_chan s') = room (wk_chan s)" "wk_next s' = wk_next s + 1"
proof -
  let ?t = "wk_next s" and ?op = "mk (wk_next s)"
  obtain s2 ops where s2: "send_op C serve callback ?op (s\<lparr>wk_next := ?t + 1\<rparr>) = (True, s2)"
    "in_order items room callback good s2" "wk_alive s2" "items (wk_chan s2) = ops @ [?op]"
    "wk_next s2 = ?t + 1" "room (wk_chan s2) = room (wk_chan s)"
    "snd (snd (serve_all serve callback ops (wk_sys s2))) =
     snd (snd (serve_all serve callback (items (wk_chan s)) (wk_sys s)))"
    by (rule send_succeeds [OF assms]) (rule that)
  obtain k where k: "k \<le> ?t + 1" "map fst (wk_replies s2) = [0..<k]"
    "map callback (ops @ [?op]) = map Some [k..<?t + 1]"
    using s2(2,3,4,5) by (auto simp: in_order_def)
  have "k \<noteq> ?t + 1" using k(3) by (intro notI) simp
  then have kt: "k \<le> ?t" using k(1) by simp
  then have ops: "map callback ops = map Some [k..<?t]" "list_all good ops"
    using k(3) s2(2,4) by (simp_all add: in_order_def)
  obtain rs w where rs: "serve_all serve callback ops (wk_sys s2) = (rs, True, w)" "map fst rs = [k..<?t]"
    "list_all (\<lambda>x. returned (snd x)) rs"
    by (rule serve_all_total [OF ops(2,1)])
  obtain r w2 where sv: "serve ?op w = (r, w2)" by fastforce
  have r: "returned r" using serve_returns [OF assms(5), of w] sv by simp
  have all: "serve_all serve callback (items (wk_chan s2)) (wk_sys s2) = (rs @ [(?t, r)], True, w2)"
    using serve_all_append [OF rs(1), of "[?op]"] sv r assms(6) by (simp add: s2(4) reply_to_def)
  obtain ch where lp: "worker_loop C serve callback s2 = Some (s2\<lparr>wk_chan := ch, wk_alive := True,
      wk_replies := wk_replies s2 @ rs @ [(?t, r)], wk_sys := w2\<rparr>)"
    "room ch = room (wk_chan s2)" "items ch = []"
    using worker_loop_eq [OF assms(1) s2(3) all] by auto
  let ?s' = "s2\<lparr>wk_chan := ch, wk_alive := True, wk_replies := wk_replies s2 @ rs @ [(?t, r)], wk_sys := w2\<rparr>"
  have "?t \<notin> fst ` set (wk_replies s2 @ rs)"
  proof -
    have "map fst (wk_replies s2 @ rs) = [0..<?t]"
      using k(2) rs(2) upt_join [OF kt] by simp
    from arg_cong [OF this, of set] have "fst ` set (wk_replies s2 @ rs) = {0..<?t}" by (simp add: image_Un)
    then show ?thesis by simp
  qed
  then have "map_of (wk_replies s2 @ rs) ?t = None" by (simp only: map_of_eq_None_iff not_False_eq_True)
  then have "map_of (wk_replies ?s') ?t = Some r"
    by (simp add: map_add_def split: option.splits)
  then have call: "worker_call C serve callback e1 e2 mk s = Some (r, ?s')"
    using s2(1) lp(1) by (simp add: worker_call_def Let_def del: map_of_append)
  have w: "w = snd (snd (serve_all serve callback (items (wk_chan s)) (wk_sys s)))"
    using s2(7) rs(1) by simp
  have res: "fst (serve ?op w) = r" "snd (serve ?op w) = w2" by (simp_all add: sv)
  have ord: "in_order items room callback good ?s'"
    using s2(2,5) k(2) rs(2,3) upt_join [OF kt] r lp(3)
    by (auto simp: in_order_def intro!: exI [of _ "?t + 1"])
  show ?thesis
  proof (rule that [of w ?s'])
    show "worker_call C serve callback e1 e2 mk s = Some (fst (serve ?op w), ?s')"
      by (simp only: call res)
    show "wk_sys ?s' = snd (serve ?op w)" by (simp add: res)
    show "wk_alive ?s'" "items (wk_chan ?s') = []" "room (wk_chan ?s') = room (wk_chan s)"
      "wk_next ?s' = wk_next s + 1"
      using s2(5,6) lp(2,3) by simp_all
  qed (rule w, rule ord)
qed

lemma reach_alive:
  assumes "worker_reach C serve callback good s0 s" "mpsc_laws C items room"
    and "in_order items room callback good s0" "wk_alive s0"
  shows "wk_alive s" "room (wk_chan s) = room (wk_chan s0)"
  using assms(1)
proof induction
  case (serve s s')
  have ord: "in_order items room callback good s"
    by (rule worker_reach_in_order [OF serve.hyps(1) assms(2,3)])
  {
    case 1
    obtain op ch where st: "wk_alive s" "items (wk_chan s) = op # items ch"
      "s' = worker_serve serve callback op (s\<lparr>wk_chan := ch\<rparr>)"
      using worker_step_Some [OF assms(2) serve.hyps(2)] by metis
    have "good op" using ord st(2) by (simp add: in_order_def)
    then show ?case using serve_returns [of op "wk_sys s"] st(1) by (simp add: st(3) worker_serve_eq)
  next
    case 2
    show ?case
      using worker_step_Some [OF assms(2) serve.hyps(2)] serve.IH(2) by (metis worker_serve_other(1)
        worker_state.select_convs(1) worker_state.surjective worker_state.update_convs(1))
  }
next
  case (submit s op ch)
  {
    case 2
    show ?case using mpsc_lawsD(4) [OF assms(2) submit.hyps(4)] submit.IH(2) by simp
  }
qed (use assms(4) in simp_all)

end

subsection \<open>Workers that have ended\<close>

lemma worker_loop_total:
  assumes "mpsc_laws C items room"
  shows "\<exists>s'. worker_loop C serve callback s = Some s'"
proof (cases "wk_alive s")
  case True
  obtain rs alive w where "serve_all serve callback (items (wk_chan s)) (wk_sys s) = (rs, alive, w)"
    using prod_cases3 by blast
  from worker_loop_eq [OF assms True this] show ?thesis by blast
qed (simp add: worker_loop_dead)

lemma worker_call_total:
  assumes "mpsc_laws C items room"
  shows "worker_call C serve callback e1 e2 mk s \<noteq> None"
proof -
  obtain sent s1 where "send_op C serve callback (mk (wk_next s)) (s\<lparr>wk_next := wk_next s + 1\<rparr>) = (sent, s1)"
    by fastforce
  moreover obtain s2 where "worker_loop C serve callback s1 = Some s2"
    using worker_loop_total [OF assms] by blast
  ultimately show ?thesis by (cases sent) (simp_all add: worker_call_def Let_def)
qed

lemma worker_call_dead:
  "\<not> wk_alive s \<Longrightarrow>
     worker_call C serve callback e1 e2 mk s = Some (Err e1, s\<lparr>wk_next := wk_next s + 1\<rparr>)"
  by (simp add: worker_call_def send_op_def Let_def)

text \<open>An operation that panics ends the worker; its caller gets an error and no reply.\<close>

lemma worker_call_panics:
  assumes "mpsc_laws C items room" "in_order items room callback good s" "wk_alive s" "0 < room (wk_chan s)"
    and "items (wk_chan s) = []" "\<not> returned (fst (serve (mk (wk_next s)) (wk_sys s)))"
  obtains s' where "worker_call C serve callback e1 e2 mk s = Some (Err e2, s')" "\<not> wk_alive s'"
    "wk_replies s' = wk_replies s" "wk_sys s' = snd (serve (mk (wk_next s)) (wk_sys s))"
proof -
  let ?t = "wk_next s" and ?op = "mk (wk_next s)"
  obtain ch where ch: "mp_send C ?op (wk_chan s) = Some ch"
    using mpsc_lawsD(3) [OF assms(1), of ?op "wk_chan s"] assms(4,5) by fastforce
  let ?s1 = "s\<lparr>wk_next := ?t + 1, wk_chan := ch\<rparr>"
  have sd: "send_op C serve callback ?op (s\<lparr>wk_next := ?t + 1\<rparr>) = (True, ?s1)"
    using assms(3) ch by (simp add: send_op_def)
  obtain r w where sv: "serve ?op (wk_sys s) = (r, w)" by fastforce
  have al: "wk_alive ?s1" using assms(3) by simp
  have all: "serve_all serve callback (items (wk_chan ?s1)) (wk_sys ?s1) = ([], False, w)"
    using mpsc_lawsD(4) [OF assms(1) ch] assms(5,6) by (simp add: sv)
  from worker_loop_eq [OF assms(1) al all] obtain ch2 where
    lp: "worker_loop C serve callback ?s1 =
      Some (?s1\<lparr>wk_chan := ch2, wk_alive := False, wk_replies := wk_replies ?s1 @ [], wk_sys := w\<rparr>)"
    by blast
  obtain k where "k \<le> ?t" "map fst (wk_replies s) = [0..<k]" using assms(2) by (auto simp: in_order_def)
  then have "?t \<notin> set (map fst (wk_replies s))" by simp
  then have "map_of (wk_replies s) ?t = None" by (simp add: map_of_eq_None_iff)
  then show ?thesis
    using that sd lp by (simp add: worker_call_def Let_def sv)
qed

end
