(* ===== verification/Disk_Fallback.thy ===== *)
theory Disk_Fallback
  imports Disk_Uring Worker_Laws
begin

text \<open>
  The fallback disk engine (\<open>disk/fallback.rs\<close>): one worker task serves reads, writes,
  syncs and closes with the files of the standard library. A file is its path and its
  position; what the kernel decides on the n-th call, to refuse it or how many bytes it
  moves at most, is an oracle of the file system's state. An interrupted write is repeated by
  \<open>write_all\<close> and has no verdict of its own.
\<close>

record StdDiskConfig =
  sdc_worker_threads :: u64
  sdc_pin_threads :: bool
  sdc_buffer_size :: u64
  sdc_numa_node :: "nat option"

definition default_std_disk_config :: StdDiskConfig where
  "default_std_disk_config =
     \<lparr>sdc_worker_threads = 2, sdc_pin_threads = True, sdc_buffer_size = 128 * 1024, sdc_numa_node = None\<rparr>"

datatype StdDiskOperationType = StdRead | StdWrite | StdSync | StdClose

record StdDiskOperation =
  sdo_type :: StdDiskOperationType
  sdo_path :: path
  sdo_offset :: u64
  sdo_data :: "u8 list option"
  sdo_callback :: "nat option"

datatype std_disk_error = StdOpenFailed | StdSeekFailed | StdReadFailed | StdWriteFailed
  | StdNoData | StdSyncFailed | StdSendFailed | StdReceiveFailed

subsection \<open>Files of the standard library\<close>

datatype verdict = Refuse | Allow nat

record file_system =
  fs_files :: "path \<Rightarrow> u8 list option"
  fs_verdict :: "nat \<Rightarrow> verdict"
  fs_calls :: nat

record std_file =
  sf_path :: path
  sf_pos :: nat

definition syscall :: "file_system \<Rightarrow> verdict \<times> file_system" where
  "syscall fs = (fs_verdict fs (fs_calls fs), fs\<lparr>fs_calls := fs_calls fs + 1\<rparr>)"

definition std_open :: "path \<Rightarrow> file_system \<Rightarrow> std_file option \<times> file_system" where
  "std_open q fs =
     (case syscall fs of
        (Refuse, fs1) \<Rightarrow> (None, fs1)
      | (Allow _, fs1) \<Rightarrow>
          (if fs_files fs1 q = None then None else Some \<lparr>sf_path = q, sf_pos = 0\<rparr>, fs1))"

text \<open>For writing, created where it does not exist.\<close>

definition std_open_create :: "path \<Rightarrow> file_system \<Rightarrow> std_file option \<times> file_system" where
  "std_open_create q fs =
     (case syscall fs of
        (Refuse, fs1) \<Rightarrow> (None, fs1)
      | (Allow _, fs1) \<Rightarrow>
          (Some \<lparr>sf_path = q, sf_pos = 0\<rparr>,
           fs1\<lparr>fs_files := (fs_files fs1)(q := Some (case fs_files fs1 q of None \<Rightarrow> [] | Some c \<Rightarrow> c))\<rparr>))"

text \<open>Seeking from the start; the kernel takes a signed offset.\<close>

definition std_seek :: "u64 \<Rightarrow> std_file \<Rightarrow> file_system \<Rightarrow> std_file option \<times> file_system" where
  "std_seek off f fs =
     (case syscall fs of
        (Refuse, fs1) \<Rightarrow> (None, fs1)
      | (Allow _, fs1) \<Rightarrow> (if 2 ^ 63 \<le> unat off then None else Some (f\<lparr>sf_pos := unat off\<rparr>), fs1))"

definition std_contents :: "std_file \<Rightarrow> file_system \<Rightarrow> u8 list" where
  "std_contents f fs = (case fs_files fs (sf_path f) of None \<Rightarrow> [] | Some c \<Rightarrow> c)"

text \<open>A read returns no bytes only at the end of the file.\<close>

definition std_read :: "u8 list \<Rightarrow> std_file \<Rightarrow> file_system \<Rightarrow> (nat option \<times> u8 list) \<times> file_system" where
  "std_read buf f fs =
     (case syscall fs of
        (Refuse, fs1) \<Rightarrow> ((None, buf), fs1)
      | (Allow k, fs1) \<Rightarrow>
          let d = take (min (max 1 k) (length buf)) (drop (sf_pos f) (std_contents f fs1))
          in ((Some (length d), d @ drop (length d) buf), fs1))"

text \<open>Writing until all bytes are written; a write that moves no byte is an error.\<close>

function std_write_all :: "u8 list \<Rightarrow> std_file \<Rightarrow> file_system \<Rightarrow> bool \<times> file_system" where
  "std_write_all data f fs =
     (if data = [] then (True, fs)
      else
        (case syscall fs of
           (Refuse, fs1) \<Rightarrow> (False, fs1)
         | (Allow k, fs1) \<Rightarrow>
             if k = 0 then (False, fs1)
             else std_write_all (drop k data) (f\<lparr>sf_pos := sf_pos f + length (take k data)\<rparr>)
               (fs1\<lparr>fs_files := (fs_files fs1)(sf_path f :=
                  Some (splice_at (sf_pos f) (take k data) (std_contents f fs1)))\<rparr>)))"
  by pat_completeness auto
termination
  by (relation "measure (\<lambda>(data, _, _). length data)") auto

declare std_write_all.simps [simp del]

definition std_sync_all :: "std_file \<Rightarrow> file_system \<Rightarrow> bool \<times> file_system" where
  "std_sync_all f fs =
     (case syscall fs of (Refuse, fs1) \<Rightarrow> (False, fs1) | (Allow _, fs1) \<Rightarrow> (True, fs1))"

subsection \<open>The worker\<close>

definition serve_read :: "path \<Rightarrow> u64 \<Rightarrow> file_system \<Rightarrow> (std_disk_error, u8 list) outcome \<times> file_system" where
  "serve_read q off fs =
     (case std_open q fs of
        (None, fs1) \<Rightarrow> (Err StdOpenFailed, fs1)
      | (Some f, fs1) \<Rightarrow>
          (case std_seek off f fs1 of
             (None, fs2) \<Rightarrow> (Err StdSeekFailed, fs2)
           | (Some f1, fs2) \<Rightarrow>
               (case std_read (replicate 4096 0) f1 fs2 of
                  ((None, buffer), fs3) \<Rightarrow> (Err StdReadFailed, fs3)
                | ((Some n, buffer), fs3) \<Rightarrow> (Ok (take n buffer), fs3))))"

definition serve_write ::
  "path \<Rightarrow> u64 \<Rightarrow> u8 list option \<Rightarrow> file_system \<Rightarrow> (std_disk_error, u8 list) outcome \<times> file_system" where
  "serve_write q off data fs =
     (case std_open_create q fs of
        (None, fs1) \<Rightarrow> (Err StdOpenFailed, fs1)
      | (Some f, fs1) \<Rightarrow>
          (case std_seek off f fs1 of
             (None, fs2) \<Rightarrow> (Err StdSeekFailed, fs2)
           | (Some f1, fs2) \<Rightarrow>
               (case data of
                  None \<Rightarrow> (Err StdNoData, fs2)
                | Some bytes \<Rightarrow>
                    (case std_write_all bytes f1 fs2 of
                       (True, fs3) \<Rightarrow> (Ok [], fs3)
                     | (False, fs3) \<Rightarrow> (Err StdWriteFailed, fs3)))))"

definition serve_sync :: "path \<Rightarrow> file_system \<Rightarrow> (std_disk_error, u8 list) outcome \<times> file_system" where
  "serve_sync q fs =
     (case std_open q fs of
        (None, fs1) \<Rightarrow> (Err StdOpenFailed, fs1)
      | (Some f, fs1) \<Rightarrow>
          (case std_sync_all f fs1 of
             (True, fs2) \<Rightarrow> (Ok [], fs2)
           | (False, fs2) \<Rightarrow> (Err StdSyncFailed, fs2)))"

definition serve_disk ::
  "StdDiskOperation \<Rightarrow> file_system \<Rightarrow> (std_disk_error, u8 list) outcome \<times> file_system" where
  "serve_disk op fs =
     (case sdo_type op of
        StdRead \<Rightarrow> serve_read (sdo_path op) (sdo_offset op) fs
      | StdWrite \<Rightarrow> serve_write (sdo_path op) (sdo_offset op) (sdo_data op) fs
      | StdSync \<Rightarrow> serve_sync (sdo_path op) fs
      | StdClose \<Rightarrow> (Ok [], fs))"

subsection \<open>The engine\<close>

record StdDiskEngine =
  sde_config :: StdDiskConfig
  sde_ring :: ring_buffer

type_synonym 'ch std_disk_state = "('ch, std_disk_error, u8 list, file_system) worker_state"

definition std_disk_new ::
  "profile \<Rightarrow> ('ch, StdDiskOperation) mpsc \<Rightarrow> StdDiskConfig \<Rightarrow> ring_buffer \<Rightarrow> file_system
    \<Rightarrow> (std_disk_error, StdDiskEngine \<times> 'ch std_disk_state) outcome" where
  "std_disk_new p C cfg rb fs =
     bind_outcome (worker_new p C (sdc_worker_threads cfg) fs)
       (\<lambda>s. Ok (\<lparr>sde_config = cfg, sde_ring = rb\<rparr>, s))"

text \<open>What the closures of all methods but \<open>read_file\<close> make of a result.\<close>

definition unit_result :: "('e, 'r) outcome \<Rightarrow> ('e, unit) outcome" where
  "unit_result r = bind_outcome r (\<lambda>_. Ok ())"

definition disk_call ::
  "('ch, StdDiskOperation) mpsc \<Rightarrow> (nat \<Rightarrow> StdDiskOperation) \<Rightarrow> 'ch std_disk_state
    \<Rightarrow> ((std_disk_error, u8 list) outcome \<times> 'ch std_disk_state) option" where
  "disk_call C = worker_call C serve_disk sdo_callback StdSendFailed StdReceiveFailed"

definition std_read_file ::
  "('ch, StdDiskOperation) mpsc \<Rightarrow> path \<Rightarrow> u64 \<Rightarrow> 'ch std_disk_state
    \<Rightarrow> ((std_disk_error, u8 list) outcome \<times> 'ch std_disk_state) option" where
  "std_read_file C q off = disk_call C (\<lambda>t.
     \<lparr>sdo_type = StdRead, sdo_path = q, sdo_offset = off, sdo_data = None, sdo_callback = Some t\<rparr>)"

definition std_write_file ::
  "('ch, StdDiskOperation) mpsc \<Rightarrow> path \<Rightarrow> u64 \<Rightarrow> u8 list \<Rightarrow> 'ch std_disk_state
    \<Rightarrow> ((std_disk_error, unit) outcome \<times> 'ch std_disk_state) option" where
  "std_write_file C q off data s = map_option (map_prod unit_result id) (disk_call C (\<lambda>t.
     \<lparr>sdo_type = StdWrite, sdo_path = q, sdo_offset = off, sdo_data = Some data, sdo_callback = Some t\<rparr>) s)"

definition std_sync_file ::
  "('ch, StdDiskOperation) mpsc \<Rightarrow> path \<Rightarrow> 'ch std_disk_state
    \<Rightarrow> ((std_disk_error, unit) outcome \<times> 'ch std_disk_state) option" where
  "std_sync_file C q s = map_option (map_prod unit_result id) (disk_call C (\<lambda>t.
     \<lparr>sdo_type = StdSync, sdo_path = q, sdo_offset = 0, sdo_data = None, sdo_callback = Some t\<rparr>) s)"

definition std_close_file ::
  "('ch, StdDiskOperation) mpsc \<Rightarrow> path \<Rightarrow> 'ch std_disk_state
    \<Rightarrow> ((std_disk_error, unit) outcome \<times> 'ch std_disk_state) option" where
  "std_close_file C q s = map_option (map_prod unit_result id) (disk_call C (\<lambda>t.
     \<lparr>sdo_type = StdClose, sdo_path = q, sdo_offset = 0, sdo_data = None, sdo_callback = Some t\<rparr>) s)"

text \<open>Dropping the engine aborts its worker.\<close>

definition std_disk_drop :: "'ch std_disk_state \<Rightarrow> 'ch std_disk_state" where
  "std_disk_drop s = worker_drop s"

subsection \<open>The service never panics\<close>

lemma serve_disk_returns: "returned (fst (serve_disk op fs))"
  by (simp add: serve_disk_def serve_read_def serve_write_def serve_sync_def
      split: StdDiskOperationType.split option.split prod.split bool.split)

interpretation disk_service: total_service serve_disk sdo_callback "\<lambda>_. True"
  by unfold_locales (rule serve_disk_returns)

subsection \<open>What the service does to the files\<close>

text \<open>Writing the rest after a first part is writing both.\<close>

lemma splice_at_append: "splice_at (off + length a) b (splice_at off a c) = splice_at off (a @ b) c"
proof (cases "a = [] \<or> b = []")
  case False
  have "length (take off c @ replicate (off - length c) 0) = off" by simp
  then show ?thesis using False by (simp add: splice_at_def take_append drop_append ac_simps)
qed (auto simp: splice_at_def)

lemma splice_at_back: "take (length d) (drop off (splice_at off d c)) = d"
  by (simp add: splice_at_def)

lemma std_write_all_Nil [simp]: "std_write_all [] f fs = (True, fs)"
  by (simp add: std_write_all.simps)

lemma take_min_drop: "take (min (length c - off) k) (drop off c) = take k (drop off c)"
  by (simp add: min_def)

lemma std_write_all_effect:
  assumes "std_write_all data f fs = (ok, fs')" "fs_files fs (sf_path f) = Some c"
  shows "\<exists>n\<le>length data. (ok \<longleftrightarrow> n = length data) \<and>
    fs_files fs' = (fs_files fs)(sf_path f := Some (splice_at (sf_pos f) (take n data) c))"
  using assms
proof (induction data f fs arbitrary: c rule: std_write_all.induct)
  case (1 data f fs)
  show ?case
  proof (cases "data = []")
    case True
    then show ?thesis
      using 1(2,3) by (auto simp: splice_at_def fun_upd_idem)
  next
    case ne: False
    obtain v fs1 where sc: "syscall fs = (v, fs1)" by fastforce
    then have same: "fs_files fs1 = fs_files fs" by (auto simp: syscall_def)
    show ?thesis
    proof (cases "v = Refuse \<or> v = Allow 0")
      case True
      then have "ok = False" "fs' = fs1"
        using 1(2) ne sc by (auto simp: std_write_all.simps [of data])
      then show ?thesis
        using ne 1(3) same by (intro exI [of _ 0]) (simp add: splice_at_def fun_upd_idem)
    next
      case False
      then obtain k where k: "v = Allow k" "k \<noteq> 0" by (cases v) auto
      let ?f = "f\<lparr>sf_pos := sf_pos f + length (take k data)\<rparr>"
      let ?c = "splice_at (sf_pos f) (take k data) c"
      let ?fs = "fs1\<lparr>fs_files := (fs_files fs1)(sf_path f := Some ?c)\<rparr>"
      have w: "std_write_all (drop k data) ?f ?fs = (ok, fs')"
        using 1(2,3) ne sc k same by (simp add: std_write_all.simps [of data] std_contents_def)
      have c: "fs_files ?fs (sf_path ?f) = Some ?c" by simp
      obtain n where n: "n \<le> length (drop k data)" "ok \<longleftrightarrow> n = length (drop k data)"
        "fs_files fs' = (fs_files ?fs)(sf_path ?f := Some (splice_at (sf_pos ?f) (take n (drop k data)) ?c))"
        using 1(1) [OF ne sc [symmetric] k(1) k(2)] w c 1(3) same
        by (fastforce simp: std_contents_def)
      have "splice_at (sf_pos ?f) (take n (drop k data)) ?c =
          splice_at (sf_pos f) (take k data @ take n (drop k data)) c"
        using splice_at_append [of "sf_pos f" "take k data" "take n (drop k data)" c] by simp
      also have "take k data @ take n (drop k data) = take (k + n) data" by (simp add: take_add)
      also have "take (k + n) data = take (min (k + n) (length data)) data" by (simp add: min_def)
      finally show ?thesis
        using n same by (intro exI [of _ "min (k + n) (length data)"]) auto
    qed
  qed
qed

definition content_or_empty :: "path \<Rightarrow> file_system \<Rightarrow> u8 list" where
  "content_or_empty q fs = (case fs_files fs q of None \<Rightarrow> [] | Some c \<Rightarrow> c)"

lemma std_open_create_Some:
  "std_open_create q fs = (Some f, fs1) \<Longrightarrow> f = \<lparr>sf_path = q, sf_pos = 0\<rparr> \<and>
     fs_files fs1 = (fs_files fs)(q := Some (content_or_empty q fs))"
  by (auto simp: std_open_create_def syscall_def content_or_empty_def split: verdict.splits)

lemma std_seek_Some:
  "std_seek off f fs = (Some f1, fs1) \<Longrightarrow> f1 = f\<lparr>sf_pos := unat off\<rparr> \<and> fs_files fs1 = fs_files fs"
  by (auto simp: std_seek_def syscall_def split: verdict.splits if_splits)

lemma std_seek_files: "std_seek off f fs = (r, fs1) \<Longrightarrow> fs_files fs1 = fs_files fs"
  by (auto simp: std_seek_def syscall_def split: verdict.splits)

lemma serve_write_effect:
  assumes "serve_write q off (Some data) fs = (r, fs')"
  shows "(r = Ok [] \<and>
      fs_files fs' = (fs_files fs)(q := Some (splice_at (unat off) data (content_or_empty q fs)))) \<or>
    (\<exists>e. r = Err e \<and> (fs_files fs' = fs_files fs \<or>
      (\<exists>n. (n = 0 \<or> n < length data) \<and> fs_files fs' = (fs_files fs)(q := Some
         (splice_at (unat off) (take n data) (content_or_empty q fs))))))"
proof -
  obtain fo fs1 where o: "std_open_create q fs = (fo, fs1)" by fastforce
  show ?thesis
  proof (cases fo)
    case None
    then show ?thesis
      using o assms by (auto simp: serve_write_def std_open_create_def syscall_def split: verdict.splits)
  next
    case (Some f)
    note f = std_open_create_Some [OF o [unfolded Some]]
    obtain go fs2 where sk: "std_seek off f fs1 = (go, fs2)" by fastforce
    show ?thesis
    proof (cases go)
      case None
      then show ?thesis
        using o Some sk f assms std_seek_files [OF sk]
        by (intro disjI2) (auto simp: serve_write_def splice_at_def intro!: exI [of _ 0])
    next
      case g: (Some g)
      note g1 = std_seek_Some [OF sk [unfolded g]]
      obtain ok fs3 where w: "std_write_all data g fs2 = (ok, fs3)" by fastforce
      have "fs_files fs2 (sf_path g) = Some (content_or_empty q fs)" using f g1 by simp
      from std_write_all_effect [OF w this] obtain n where
        n: "n \<le> length data" "ok \<longleftrightarrow> n = length data"
        "fs_files fs3 = (fs_files fs)(q := Some (splice_at (unat off) (take n data) (content_or_empty q fs)))"
        using f g1 by auto
      have r: "r = (if ok then Ok [] else Err StdWriteFailed)" "fs' = fs3"
        using o Some sk g w assms by (cases ok, simp_all add: serve_write_def)+
      show ?thesis
      proof (cases ok)
        case True
        then show ?thesis using r n by simp
      next
        case False
        then have "n < length data" using n by simp
        then show ?thesis using False r n(3) by auto
      qed
    qed
  qed
qed

lemma serve_read_effect:
  assumes "serve_read q off fs = (Ok bytes, fs')"
  shows "\<exists>c. fs_files fs q = Some c \<and> fs_files fs' = fs_files fs \<and> length bytes \<le> 4096 \<and>
    bytes = take (length bytes) (drop (unat off) c) \<and> (bytes = [] \<longrightarrow> length c \<le> unat off)"
proof -
  obtain f fs1 where o: "std_open q fs = (Some f, fs1)"
    using assms by (cases "std_open q fs"; cases "fst (std_open q fs)") (auto simp: serve_read_def)
  then have f: "f = \<lparr>sf_path = q, sf_pos = 0\<rparr>" "fs_files fs1 = fs_files fs" "fs_files fs q \<noteq> None"
    by (auto simp: std_open_def syscall_def split: verdict.splits if_splits)
  obtain g fs2 where sk: "std_seek off f fs1 = (Some g, fs2)"
    using assms o by (cases "std_seek off f fs1"; cases "fst (std_seek off f fs1)") (auto simp: serve_read_def)
  note g = std_seek_Some [OF sk]
  obtain c where c: "fs_files fs q = Some c" using f(3) by blast
  obtain no buf fs3 where r: "std_read (replicate 4096 0) g fs2 = ((no, buf), fs3)" by (metis prod.exhaust)
  obtain k where k: "fs_verdict fs2 (fs_calls fs2) = Allow k"
    using assms o sk r by (cases "fs_verdict fs2 (fs_calls fs2)") (auto simp: serve_read_def std_read_def syscall_def)
  have cont: "std_contents g (fs2\<lparr>fs_calls := fs_calls fs2 + 1\<rparr>) = c"
    using f g c by (simp add: std_contents_def)
  let ?d = "take (min (max 1 k) 4096) (drop (unat off) c)"
  have "bytes = ?d \<and> fs' = fs2\<lparr>fs_calls := fs_calls fs2 + 1\<rparr>"
    using assms o sk cont g f
    by (simp add: serve_read_def std_read_def syscall_def k Let_def take_min_drop del: One_nat_def)
  then show ?thesis
    using c f g by (auto simp: min_def max_def not_less_eq_eq split: if_splits)
qed

end
