(* ===== verification/Std_Tools.thy ===== *)
theory Std_Tools
  imports Disk_Fallback
begin

text \<open>
  What the examples use of \<open>std::fs\<close> beside the fallback engine: creating a file anew,
  removing one, its length, and reading to the end, on the file system of \<open>Disk_Fallback\<close>.
\<close>

definition std_create :: "path \<Rightarrow> file_system \<Rightarrow> std_file option \<times> file_system" where
  "std_create q fs =
     (case syscall fs of
        (Refuse, fs1) \<Rightarrow> (None, fs1)
      | (Allow _, fs1) \<Rightarrow>
          (Some \<lparr>sf_path = q, sf_pos = 0\<rparr>, fs1\<lparr>fs_files := (fs_files fs1)(q := Some [])\<rparr>))"

definition std_remove :: "path \<Rightarrow> file_system \<Rightarrow> file_system" where
  "std_remove q fs =
     (case syscall fs of
        (Refuse, fs1) \<Rightarrow> fs1
      | (Allow _, fs1) \<Rightarrow> fs1\<lparr>fs_files := (fs_files fs1)(q := None)\<rparr>)"

definition std_len :: "path \<Rightarrow> file_system \<Rightarrow> nat option \<times> file_system" where
  "std_len q fs =
     (case syscall fs of
        (Refuse, fs1) \<Rightarrow> (None, fs1)
      | (Allow _, fs1) \<Rightarrow> (map_option length (fs_files fs1 q), fs1))"

lemma std_read_Some:
  assumes "std_read buf f fs = ((Some n, buf'), fs1)"
  shows "fs_files fs1 = fs_files fs" "length buf' = length buf" "n \<le> length buf"
    "take n buf' = take n (drop (sf_pos f) (std_contents f fs))"
    "n \<le> length (drop (sf_pos f) (std_contents f fs))"
    "n = 0 \<Longrightarrow> buf \<noteq> [] \<Longrightarrow> drop (sf_pos f) (std_contents f fs) = []"
proof -
  let ?c = "std_contents f fs" and ?p = "sf_pos f"
  obtain k where k: "fs_verdict fs (fs_calls fs) = Allow k"
    using assms by (auto simp: std_read_def syscall_def split: verdict.splits)
  let ?d = "take (min (max 1 k) (length buf)) (drop ?p ?c)"
  have r: "n = length ?d" "buf' = ?d @ drop (length ?d) buf" "fs1 = fs\<lparr>fs_calls := fs_calls fs + 1\<rparr>"
    using assms by (auto simp: std_read_def syscall_def k std_contents_def Let_def)
  show "fs_files fs1 = fs_files fs" by (simp add: r(3))
  show "n \<le> length buf" by (simp add: r(1))
  then show "length buf' = length buf" by (simp add: r(1,2))
  show "take n buf' = take n (drop ?p ?c)" by (simp add: r(1,2) min_def)
  show "n \<le> length (drop ?p ?c)" by (simp add: r(1))
  assume "n = 0" "buf \<noteq> []"
  then show "drop ?p ?c = []" using r(1) by (auto simp: min_def max_def split: if_splits)
qed

text \<open>
  The standard library chooses the sizes of the reads; they do not show. A read that is
  refused ends it with an error.
\<close>

function std_read_to_end :: "std_file \<Rightarrow> file_system \<Rightarrow> u8 list option \<times> file_system" where
  "std_read_to_end f fs =
     (case std_read (replicate 32 0) f fs of
        ((None, buf), fs1) \<Rightarrow> (None, fs1)
      | ((Some n, buf), fs1) \<Rightarrow>
          if n = 0 then (Some [], fs1)
          else
            (case std_read_to_end (f\<lparr>sf_pos := sf_pos f + n\<rparr>) fs1 of
               (None, fs2) \<Rightarrow> (None, fs2)
             | (Some later, fs2) \<Rightarrow> (Some (take n buf @ later), fs2)))"
  by pat_completeness auto
termination
proof (relation "measure (\<lambda>(f, fs). length (std_contents f fs) - sf_pos f)", goal_cases)
  case (2 f fs res fs1 no buf n)
  then have "std_read (replicate 32 0) f fs = ((Some n, buf), fs1)" by auto
  from std_read_Some [OF this] 2 show ?case by (simp add: std_contents_def)
qed simp

declare std_read_to_end.simps [simp del]

lemma std_read_to_end_files:
  "std_read_to_end f fs = (r, fs') \<Longrightarrow> fs_files fs' = fs_files fs \<and>
     (\<forall>d. r = Some d \<longrightarrow> d = drop (sf_pos f) (std_contents f fs))"
proof (induction f fs arbitrary: r fs' rule: std_read_to_end.induct)
  case (1 f fs)
  obtain no buf fs1 where rd: "std_read (replicate 32 0) f fs = ((no, buf), fs1)" by (metis prod.exhaust)
  show ?case
  proof (cases no)
    case None
    then show ?thesis
      using 1(2) rd
      by (subst (asm) std_read_to_end.simps) (auto simp: std_read_def syscall_def Let_def split: verdict.splits)
  next
    case (Some n)
    note sr = std_read_Some [OF rd [unfolded Some]]
    show ?thesis
    proof (cases "n = 0")
      case True
      then show ?thesis using 1(2) sr by (subst (asm) std_read_to_end.simps) (auto simp: rd Some)
    next
      case False
      let ?f = "f\<lparr>sf_pos := sf_pos f + n\<rparr>"
      obtain q fs2 where q: "std_read_to_end ?f fs1 = (q, fs2)" by fastforce
      have IH: "fs_files fs2 = fs_files fs1 \<and> (\<forall>d. q = Some d \<longrightarrow> d = drop (sf_pos ?f) (std_contents ?f fs1))"
        by (rule "1.IH" [OF rd [symmetric] refl Some False q])
      have c: "std_contents ?f fs1 = std_contents f fs" using sr(1) by (simp add: std_contents_def)
      have res: "(r, fs') = (map_option ((@) (take n buf)) q, fs2)"
        using 1(2) False by (subst (asm) std_read_to_end.simps) (auto simp: rd Some q split: option.splits)
      have "take n buf @ drop (sf_pos f + n) (std_contents f fs) = drop (sf_pos f) (std_contents f fs)"
        using sr(4) by (metis append_take_drop_id drop_drop add.commute)
      then show ?thesis using IH sr(1) res by (auto simp: c)
    qed
  qed
qed

lemma std_create_Some:
  "std_create q fs = (Some f, fs1) \<Longrightarrow> f = \<lparr>sf_path = q, sf_pos = 0\<rparr> \<and>
     fs_files fs1 = (fs_files fs)(q := Some [])"
  by (auto simp: std_create_def syscall_def split: verdict.splits)

lemma std_remove_files:
  "fs_files (std_remove q fs) = fs_files fs \<or> fs_files (std_remove q fs) = (fs_files fs)(q := None)"
  by (auto simp: std_remove_def syscall_def split: verdict.splits)

lemma std_len_Some:
  "std_len q fs = (r, fs1) \<Longrightarrow> fs_files fs1 = fs_files fs \<and>
     (\<forall>n. r = Some n \<longrightarrow> (\<exists>c. fs_files fs q = Some c \<and> n = length c))"
  by (auto simp: std_len_def syscall_def split: verdict.splits)

lemma std_sync_all_files: "std_sync_all f fs = (b, fs1) \<Longrightarrow> fs_files fs1 = fs_files fs"
  by (auto simp: std_sync_all_def syscall_def split: verdict.splits)

lemma std_open_Some:
  "std_open q fs = (r, fs1) \<Longrightarrow> fs_files fs1 = fs_files fs \<and>
     (\<forall>f. r = Some f \<longrightarrow> f = \<lparr>sf_path = q, sf_pos = 0\<rparr> \<and> fs_files fs q \<noteq> None)"
  by (auto simp: std_open_def syscall_def split: verdict.splits if_splits)

end
