(* ===== verification/Cross_Files.thy ===== *)
theory Cross_Files
  imports Std_Tools Rust_Text
begin

text \<open>
  The file part of the cross-platform benchmark (\<open>examples/cross_platform_benchmark.rs\<close>) that
  works on the files of the standard library: the test file and the traditional read,
  write and random access. An iteration gives the number of bytes it claims to have moved;
  dividing it by the measured time, the averages and the printing are left out. Sizes are
  natural numbers, below the width of \<open>usize\<close>; the allocator and the random numbers are
  parameters.
\<close>

definition FILE_SIZE :: nat where "FILE_SIZE = 1 * 1024 * 1024"
definition CHUNK_SIZE :: nat where "CHUNK_SIZE = 128 * 1024"
definition BENCH_ITERATIONS :: nat where "BENCH_ITERATIONS = 2"

datatype bench_error = BenchIo | BenchDisk disk_error

text \<open>\<open>for i in is { results.push(f(i)?) }\<close>.\<close>

primrec each :: "(nat \<Rightarrow> 'w \<Rightarrow> ('e, 'b) outcome \<times> 'w) \<Rightarrow> nat list \<Rightarrow> 'w \<Rightarrow> ('e, 'b list) outcome \<times> 'w" where
  "each f [] w = (Ok [], w)"
| "each f (i # is) w =
     and_then (f i w) (\<lambda>x w1. and_then (each f is w1) (\<lambda>xs w2. (Ok (x # xs), w2)))"

text \<open>\<open>(0..n).step_by(chunk)\<close> for a positive step, and the number of its chunks.\<close>

definition total_chunks :: "nat \<Rightarrow> nat \<Rightarrow> nat" where
  "total_chunks n chunk = (n + chunk - 1) div chunk"

definition offsets :: "nat \<Rightarrow> nat \<Rightarrow> nat list" where
  "offsets n chunk = map (\<lambda>k. k * chunk) [0..<total_chunks n chunk]"

text \<open>
  The bytes the allocator returns, or a null pointer. The buffer it returns is leaked, and
  the vector that is filled from it is allocated with the alignment of bytes; a layout of
  size zero must not be allocated.
\<close>

definition create_aligned_buffer :: "(nat \<Rightarrow> u8 list option) \<Rightarrow> nat \<Rightarrow> ('e, u8 list) outcome" where
  "create_aligned_buffer alloc n =
     (if 2 ^ 63 < n + 512 then Panic UnwrapFailed
      else if n = 0 then UB
      else (case alloc n of None \<Rightarrow> UB | Some bytes \<Rightarrow> Ok (take n bytes)))"

subsection \<open>The test file\<close>

function fill_file :: "(nat \<Rightarrow> u8) \<Rightarrow> nat \<Rightarrow> nat \<Rightarrow> std_file \<Rightarrow> file_system \<Rightarrow> bool \<times> file_system" where
  "fill_file rnd k remaining f fs =
     (if remaining = 0 then (True, fs)
      else
        let to_write = min remaining (1024 * 1024) in
        (case std_write_all (map rnd [k..<k + to_write]) f fs of
           (False, fs1) \<Rightarrow> (False, fs1)
         | (True, fs1) \<Rightarrow> fill_file rnd (k + to_write) (remaining - to_write)
             (f\<lparr>sf_pos := sf_pos f + to_write\<rparr>) fs1))"
  by pat_completeness auto
termination
  by (relation "measure (\<lambda>(rnd, k, remaining, f, fs). remaining)") auto

declare fill_file.simps [simp del]

definition create_random_file :: "(nat \<Rightarrow> u8) \<Rightarrow> path \<Rightarrow> nat \<Rightarrow> file_system \<Rightarrow> bool \<times> file_system" where
  "create_random_file rnd q n fs =
     (case std_create q fs of
        (None, fs1) \<Rightarrow> (False, fs1)
      | (Some f, fs1) \<Rightarrow>
          (case fill_file rnd 0 n f fs1 of
             (False, fs2) \<Rightarrow> (False, fs2)
           | (True, fs2) \<Rightarrow> std_sync_all f fs2))"

subsection \<open>Traditional read\<close>

text \<open>An attempt to open with \<open>O_DIRECT\<close> is an open that the kernel may refuse.\<close>

definition open_direct :: "path \<Rightarrow> file_system \<Rightarrow> std_file option \<times> file_system" where
  "open_direct q fs =
     (case std_open q fs of (Some f, fs1) \<Rightarrow> (Some f, fs1) | (None, fs1) \<Rightarrow> std_open q fs1)"

definition seek_to :: "nat \<Rightarrow> std_file \<Rightarrow> file_system \<Rightarrow> (bench_error, std_file) outcome \<times> file_system" where
  "seek_to off f fs =
     (case std_seek (of_nat off) f fs of (None, fs1) \<Rightarrow> (Err BenchIo, fs1) | (Some g, fs1) \<Rightarrow> (Ok g, fs1))"

text \<open>The reads after the first one failed; an error of a read is skipped.\<close>

primrec chunked_reads ::
  "u8 list \<Rightarrow> std_file \<Rightarrow> nat \<Rightarrow> nat list \<Rightarrow> file_system \<Rightarrow> (bench_error, nat) outcome \<times> file_system" where
  "chunked_reads buffer f bytes_moved [] fs = (Ok bytes_moved, fs)"
| "chunked_reads buffer f bytes_moved (off # offs) fs =
     and_then (seek_to off f fs) (\<lambda>g fs1.
       case std_read buffer g fs1 of
         ((Some n, buffer'), fs2) \<Rightarrow> chunked_reads buffer' g (bytes_moved + n) offs fs2
       | ((None, buffer'), fs2) \<Rightarrow> chunked_reads buffer' g bytes_moved offs fs2)"

definition traditional_read_iteration ::
  "(nat \<Rightarrow> u8 list option) \<Rightarrow> path \<Rightarrow> nat \<Rightarrow> file_system \<Rightarrow> (bench_error, nat) outcome \<times> file_system" where
  "traditional_read_iteration alloc q chunk fs =
     (case std_len q fs of
        (None, fs1) \<Rightarrow> (Err BenchIo, fs1)
      | (Some len, fs1) \<Rightarrow>
          let file_size = min len (1 * 1024 * 1024) in
          if chunk = 0 then (Panic DivisionByZero, fs1)
          else
            (case open_direct q fs1 of
               (None, fs2) \<Rightarrow> (Err BenchIo, fs2)
             | (Some f, fs2) \<Rightarrow>
                 and_then (create_aligned_buffer alloc chunk, fs2) (\<lambda>buffer fs2.
                 and_then (seek_to 0 f fs2) (\<lambda>g fs3.
                 case std_read buffer g fs3 of
                   ((Some n, _), fs4) \<Rightarrow> (Ok n, fs4)
                 | ((None, buffer'), fs4) \<Rightarrow> chunked_reads buffer' g 0 (offsets file_size chunk) fs4))))"

definition run_traditional_read_benchmark ::
  "(nat \<Rightarrow> u8 list option) \<Rightarrow> path \<Rightarrow> nat \<Rightarrow> nat \<Rightarrow> file_system \<Rightarrow> (bench_error, nat list) outcome \<times> file_system" where
  "run_traditional_read_benchmark alloc q chunk iterations fs =
     each (\<lambda>_. traditional_read_iteration alloc q chunk) [0..<iterations] fs"

subsection \<open>Traditional write\<close>

text \<open>One call of \<open>write\<close>, which may move fewer bytes.\<close>

definition std_write :: "u8 list \<Rightarrow> std_file \<Rightarrow> file_system \<Rightarrow> nat option \<times> file_system" where
  "std_write data f fs =
     (case syscall fs of
        (Refuse, fs1) \<Rightarrow> (None, fs1)
      | (Allow k, fs1) \<Rightarrow>
          (Some (length (take k data)), fs1\<lparr>fs_files := (fs_files fs1)(sf_path f :=
             Some (splice_at (sf_pos f) (take k data) (std_contents f fs1)))\<rparr>))"

definition create_direct :: "path \<Rightarrow> file_system \<Rightarrow> std_file option \<times> file_system" where
  "create_direct q fs =
     (case std_create q fs of (Some f, fs1) \<Rightarrow> (Some f, fs1) | (None, fs1) \<Rightarrow> std_create q fs1)"

primrec chunked_writes ::
  "u8 list \<Rightarrow> std_file \<Rightarrow> nat list \<Rightarrow> file_system \<Rightarrow> (bench_error, unit) outcome \<times> file_system" where
  "chunked_writes data f [] fs = (Ok (), fs)"
| "chunked_writes data f (off # offs) fs =
     and_then (seek_to off f fs) (\<lambda>g fs1. chunked_writes data g offs (snd (std_write data g fs1)))"

definition iteration_path :: "path \<Rightarrow> nat \<Rightarrow> path" where
  "iteration_path q i = q @ map of_char (CHR ''.'' # decimal i)"

text \<open>The number of bytes claimed is the size of the chunk, whatever the write did.\<close>

definition traditional_write_iteration ::
  "(nat \<Rightarrow> u8 list option) \<Rightarrow> path \<Rightarrow> nat \<Rightarrow> nat \<Rightarrow> file_system \<Rightarrow> (bench_error, nat) outcome \<times> file_system" where
  "traditional_write_iteration alloc q chunk i fs =
     and_then (create_aligned_buffer alloc chunk, fs) (\<lambda>buffer fs.
       let data = map (\<lambda>_. 0x42) buffer in
       case create_direct (iteration_path q i) fs of
         (None, fs1) \<Rightarrow> (Err BenchIo, fs1)
       | (Some f, fs1) \<Rightarrow>
           and_then (chunked_writes data f (offsets chunk chunk) fs1) (\<lambda>_ fs2.
             case std_sync_all f fs2 of
               (False, fs3) \<Rightarrow> (Err BenchIo, fs3)
             | (True, fs3) \<Rightarrow> (Ok chunk, std_remove (iteration_path q i) fs3)))"

definition run_traditional_write_benchmark ::
  "(nat \<Rightarrow> u8 list option) \<Rightarrow> path \<Rightarrow> nat \<Rightarrow> nat \<Rightarrow> file_system \<Rightarrow> (bench_error, nat list) outcome \<times> file_system" where
  "run_traditional_write_benchmark alloc q chunk iterations fs =
     each (traditional_write_iteration alloc q chunk) [0..<iterations] fs"

subsection \<open>Traditional random access\<close>

text \<open>A hundred reads; \<open>rnd k\<close> is the k-th random number.\<close>

primrec random_reads ::
  "(nat \<Rightarrow> u64) \<Rightarrow> nat \<Rightarrow> u8 list \<Rightarrow> std_file \<Rightarrow> nat \<Rightarrow> nat \<Rightarrow> nat \<Rightarrow> file_system
    \<Rightarrow> (bench_error, nat) outcome \<times> file_system" where
  "random_reads rnd k buffer f file_size bytes_moved 0 fs = (Ok bytes_moved, fs)"
| "random_reads rnd k buffer f file_size bytes_moved (Suc n) fs =
     (if file_size = 0 then (Panic DivisionByZero, fs)
      else
        and_then (seek_to (unat (rnd k) mod file_size) f fs) (\<lambda>g fs1.
          case std_read buffer g fs1 of
            ((Some m, buffer'), fs2) \<Rightarrow> random_reads rnd (Suc k) buffer' g file_size (bytes_moved + m) n fs2
          | ((None, buffer'), fs2) \<Rightarrow> random_reads rnd (Suc k) buffer' g file_size bytes_moved n fs2))"

definition traditional_random_iteration ::
  "(nat \<Rightarrow> u64) \<Rightarrow> path \<Rightarrow> nat \<Rightarrow> nat \<Rightarrow> file_system \<Rightarrow> (bench_error, nat) outcome \<times> file_system" where
  "traditional_random_iteration rnd q chunk i fs =
     (case std_len q fs of
        (None, fs1) \<Rightarrow> (Err BenchIo, fs1)
      | (Some file_size, fs1) \<Rightarrow>
          (case std_open q fs1 of
             (None, fs2) \<Rightarrow> (Err BenchIo, fs2)
           | (Some f, fs2) \<Rightarrow> random_reads rnd (100 * i) (replicate chunk 0) f file_size 0 100 fs2))"

definition run_traditional_random_benchmark ::
  "(nat \<Rightarrow> u64) \<Rightarrow> path \<Rightarrow> nat \<Rightarrow> nat \<Rightarrow> file_system \<Rightarrow> (bench_error, nat list) outcome \<times> file_system" where
  "run_traditional_random_benchmark rnd q chunk iterations fs =
     each (traditional_random_iteration rnd q chunk) [0..<iterations] fs"

end
