(* ===== verification/Net_Uring.thy ===== *)
theory Net_Uring
  imports Engine_Notify "HOL-Library.AList"
begin

text \<open>
  The network engine (\<open>net/io_uring.rs\<close>): the cache of connections by peer address, the
  operations that look connections up by file descriptor, and the lock they share. The
  sockets of \<open>tokio_uring\<close> and of the standard library are parameters; what the engine
  relies on of them is stated in \<open>socket_laws\<close>. Peer addresses are any type, with their
  text as a parameter.
\<close>

type_synonym fd = int

record NetworkConfig =
  net_queue_depth :: u32
  net_buffer_size :: u64

definition default_network_config :: NetworkConfig where
  "default_network_config = \<lparr>net_queue_depth = 256, net_buffer_size = 64 * 1024\<rparr>"

datatype NetworkOperationType = NetOpAccept | NetOpConnect | NetOpRead | NetOpWrite | NetOpClose

datatype 'a NetworkResult = NetAccept fd 'a | NetConnect fd | NetRead "u8 list" | NetWrite nat | NetClose

text \<open>An operation as a value; the engine exports it and does not use it.\<close>

record ('a, 'c) NetworkOperation =
  nop_type :: NetworkOperationType
  nop_addr :: "'a option"
  nop_fd :: fd
  nop_data :: "u8 list option"
  nop_callback :: "'c option"

datatype net_error = LocalAddrFailed | BindFailedError | AcceptFailed | ConnectFailed | NoConnection fd
  | ConnectionRemoved | SocketReadFailed | SocketWriteFailed

subsection \<open>The sockets\<close>

text \<open>
  \<open>'l\<close> is a listener, \<open>'s\<close> a stream, \<open>'a\<close> an address, \<open>'w\<close> the state of the system.
  \<open>None\<close> stands for an error. \<open>un_close\<close> closes a descriptor, which is what dropping an
  owner of it does; the crate may do it in the background, and a descriptor counts as closed
  here from the moment it is dropped, when nobody can use it any more.
\<close>

record ('l, 's, 'a, 'w) uring_net =
  un_local_addr :: "fd \<Rightarrow> 'w \<Rightarrow> 'a option"
  un_bind :: "'a \<Rightarrow> 'w \<Rightarrow> 'l option \<times> 'w"
  un_accept :: "'l \<Rightarrow> 'w \<Rightarrow> ('s \<times> 'a) option \<times> 'w"
  un_connect :: "'a \<Rightarrow> 'w \<Rightarrow> 's option \<times> 'w"
  un_read :: "'s \<Rightarrow> u8 list \<Rightarrow> 'w \<Rightarrow> (nat option \<times> u8 list) \<times> 'w"
  un_write :: "'s \<Rightarrow> u8 list \<Rightarrow> 'w \<Rightarrow> nat option \<times> 'w"
  un_raw_fd :: "'s \<Rightarrow> fd"
  un_listener_fd :: "'l \<Rightarrow> fd"
  un_close :: "fd \<Rightarrow> 'w \<Rightarrow> 'w"
  un_addr_text :: "'a \<Rightarrow> u8 list"

subsection \<open>The engine\<close>

record NetworkEngine =
  ne_config :: NetworkConfig
  ne_ring :: ring_buffer

text \<open>
  The connections in the order of an iteration over the map, the lock's poison flag, the
  mapping of the ring, the system.
\<close>

record ('s, 'a, 'w) net_state =
  ns_conns :: "('a \<times> 's) list"
  ns_poisoned :: bool
  ns_mem :: mem
  ns_sys :: 'w

definition net_new :: "NetworkConfig \<Rightarrow> ring_buffer \<Rightarrow> mem \<Rightarrow> 'w \<Rightarrow> NetworkEngine \<times> ('s, 'a, 'w) net_state" where
  "net_new cfg rb m w =
     (\<lparr>ne_config = cfg, ne_ring = rb\<rparr>,
      \<lparr>ns_conns = [], ns_poisoned = False, ns_mem = m, ns_sys = w\<rparr>)"

text \<open>A critical section: a poisoned lock panics, and a panic inside poisons the lock.\<close>

definition locked ::
  "(('s, 'a, 'w) net_state \<Rightarrow> (net_error, 'b) outcome \<times> ('s, 'a, 'w) net_state)
    \<Rightarrow> ('s, 'a, 'w) net_state \<Rightarrow> (net_error, 'b) outcome \<times> ('s, 'a, 'w) net_state" where
  "locked body s =
     (if ns_poisoned s then (Panic PoisonedLock, s)
      else
        (case body s of
           (Panic x, s1) \<Rightarrow> (Panic x, s1\<lparr>ns_poisoned := True\<rparr>)
         | (r, s1) \<Rightarrow> (r, s1)))"

definition net_notify ::
  "profile \<Rightarrow> 'u uuid_crate \<Rightarrow> 'u write_ctx \<Rightarrow> NetworkEngine \<Rightarrow> operation_kind \<Rightarrow> u8 list
    \<Rightarrow> ('s, 'a, 'w) net_state \<Rightarrow> (net_error, unit) outcome \<times> ('s, 'a, 'w) net_state" where
  "net_notify p U c e kind text s =
     (case notify p U c (ne_ring e) kind text (ns_mem s) of (r, m) \<Rightarrow> (r, s\<lparr>ns_mem := m\<rparr>))"

text \<open>Inserting a connection drops, and so closes, the one the address had before.\<close>

definition insert_conn ::
  "('l, 's, 'a, 'w) uring_net \<Rightarrow> 'a \<Rightarrow> 's \<Rightarrow> ('s, 'a, 'w) net_state \<Rightarrow> ('s, 'a, 'w) net_state" where
  "insert_conn N a st s =
     s\<lparr>ns_conns := AList.update a st (ns_conns s),
       ns_sys := (case map_of (ns_conns s) a of
          None \<Rightarrow> ns_sys s | Some old \<Rightarrow> un_close N (un_raw_fd N old) (ns_sys s))\<rparr>"

text \<open>A poisoned lock panics before the stream is stored, so the stream is dropped.\<close>

definition store_and_notify ::
  "profile \<Rightarrow> 'u uuid_crate \<Rightarrow> 'u write_ctx \<Rightarrow> ('l, 's, 'a, 'w) uring_net \<Rightarrow> NetworkEngine
    \<Rightarrow> operation_kind \<Rightarrow> 'a \<Rightarrow> 's \<Rightarrow> ('s, 'a, 'w) net_state
    \<Rightarrow> (net_error, unit) outcome \<times> ('s, 'a, 'w) net_state" where
  "store_and_notify p U c N e kind a st s =
     (if ns_poisoned s then (Panic PoisonedLock, s\<lparr>ns_sys := un_close N (un_raw_fd N st) (ns_sys s)\<rparr>)
      else locked (\<lambda>s. net_notify p U c e kind (un_addr_text N a) (insert_conn N a st s)) s)"

text \<open>
  The listener that \<open>accept\<close> makes of the descriptor owns it: every way out closes it. The
  standard library asserts that the descriptor is not -1.
\<close>

definition net_accept ::
  "profile \<Rightarrow> 'u uuid_crate \<Rightarrow> 'u write_ctx \<Rightarrow> ('l, 's, 'a, 'w) uring_net \<Rightarrow> NetworkEngine \<Rightarrow> fd
    \<Rightarrow> ('s, 'a, 'w) net_state \<Rightarrow> (net_error, fd \<times> 'a) outcome \<times> ('s, 'a, 'w) net_state" where
  "net_accept p U c N e listener_fd s =
     (let close = (\<lambda>f s. s\<lparr>ns_sys := un_close N f (ns_sys s)\<rparr>) in
      if listener_fd = -1 then (Panic AssertionFailed, s)
      else case un_local_addr N listener_fd (ns_sys s) of
        None \<Rightarrow> (Err LocalAddrFailed, close listener_fd s)
      | Some laddr \<Rightarrow>
          (case un_bind N laddr (ns_sys s) of
             (None, w) \<Rightarrow> (Err BindFailedError, close listener_fd (s\<lparr>ns_sys := w\<rparr>))
           | (Some l, w) \<Rightarrow>
               (case un_accept N l w of
                  (None, w1) \<Rightarrow>
                    (Err AcceptFailed, close listener_fd (close (un_listener_fd N l) (s\<lparr>ns_sys := w1\<rparr>)))
                | (Some (st, a), w1) \<Rightarrow>
                    (case store_and_notify p U c N e NetworkReceive a st (s\<lparr>ns_sys := w1\<rparr>) of
                       (r, s1) \<Rightarrow>
                         and_then (r, close listener_fd (close (un_listener_fd N l) s1))
                           (\<lambda>_ s2. (Ok (un_raw_fd N st, a), s2))))))"

definition net_connect ::
  "profile \<Rightarrow> 'u uuid_crate \<Rightarrow> 'u write_ctx \<Rightarrow> ('l, 's, 'a, 'w) uring_net \<Rightarrow> NetworkEngine \<Rightarrow> 'a
    \<Rightarrow> ('s, 'a, 'w) net_state \<Rightarrow> (net_error, fd) outcome \<times> ('s, 'a, 'w) net_state" where
  "net_connect p U c N e a s =
     (case un_connect N a (ns_sys s) of
        (None, w) \<Rightarrow> (Err ConnectFailed, s\<lparr>ns_sys := w\<rparr>)
      | (Some st, w) \<Rightarrow>
          and_then (store_and_notify p U c N e NetworkSend a st (s\<lparr>ns_sys := w\<rparr>))
            (\<lambda>_ s1. (Ok (un_raw_fd N st), s1)))"

text \<open>The first connection, in the order of the iteration, with the descriptor.\<close>

primrec find_addr :: "('l, 's, 'a, 'w) uring_net \<Rightarrow> fd \<Rightarrow> ('a \<times> 's) list \<Rightarrow> 'a option" where
  "find_addr N f [] = None"
| "find_addr N f (x # xs) = (if un_raw_fd N (snd x) = f then Some (fst x) else find_addr N f xs)"

definition lookup_addr ::
  "('l, 's, 'a, 'w) uring_net \<Rightarrow> fd \<Rightarrow> ('s, 'a, 'w) net_state \<Rightarrow> (net_error, 'a) outcome \<times> ('s, 'a, 'w) net_state" where
  "lookup_addr N f = locked (\<lambda>s.
     case find_addr N f (ns_conns s) of None \<Rightarrow> (Err (NoConnection f), s) | Some a \<Rightarrow> (Ok a, s))"

text \<open>The lock is held from the second lookup on, also while the socket is waited for.\<close>

definition net_read ::
  "profile \<Rightarrow> 'u uuid_crate \<Rightarrow> 'u write_ctx \<Rightarrow> ('l, 's, 'a, 'w) uring_net \<Rightarrow> NetworkEngine \<Rightarrow> fd
    \<Rightarrow> ('s, 'a, 'w) net_state \<Rightarrow> (net_error, u8 list) outcome \<times> ('s, 'a, 'w) net_state" where
  "net_read p U c N e f s =
     and_then (lookup_addr N f s) (\<lambda>a. locked (\<lambda>s.
       case map_of (ns_conns s) a of
         None \<Rightarrow> (Err ConnectionRemoved, s)
       | Some st \<Rightarrow>
           let size = unat (net_buffer_size (ne_config e)) in
           if 2 ^ 63 \<le> size then (Panic CapacityOverflow, s)
           else
             (case un_read N st (replicate size 0) (ns_sys s) of
                ((None, buf), w) \<Rightarrow> (Err SocketReadFailed, s\<lparr>ns_sys := w\<rparr>)
              | ((Some n, buf), w) \<Rightarrow>
                  and_then (net_notify p U c e NetworkReceive (un_addr_text N a) (s\<lparr>ns_sys := w\<rparr>)) (\<lambda>_ s1.
                    if length buf < n then (Panic IndexOutOfBounds, s1) else (Ok (take n buf), s1)))))"

definition net_write ::
  "profile \<Rightarrow> 'u uuid_crate \<Rightarrow> 'u write_ctx \<Rightarrow> ('l, 's, 'a, 'w) uring_net \<Rightarrow> NetworkEngine \<Rightarrow> fd
    \<Rightarrow> u8 list \<Rightarrow> ('s, 'a, 'w) net_state \<Rightarrow> (net_error, nat) outcome \<times> ('s, 'a, 'w) net_state" where
  "net_write p U c N e f data s =
     and_then (lookup_addr N f s) (\<lambda>a. locked (\<lambda>s.
       case map_of (ns_conns s) a of
         None \<Rightarrow> (Err ConnectionRemoved, s)
       | Some st \<Rightarrow>
           (case un_write N st data (ns_sys s) of
              (None, w) \<Rightarrow> (Err SocketWriteFailed, s\<lparr>ns_sys := w\<rparr>)
            | (Some n, w) \<Rightarrow>
                and_then (net_notify p U c e NetworkSend (un_addr_text N a) (s\<lparr>ns_sys := w\<rparr>))
                  (\<lambda>_ s1. (Ok n, s1)))))"

text \<open>Removing a connection drops it before the announcement.\<close>

definition remove_conn ::
  "('l, 's, 'a, 'w) uring_net \<Rightarrow> 'a \<Rightarrow> ('s, 'a, 'w) net_state \<Rightarrow> ('s, 'a, 'w) net_state" where
  "remove_conn N a s =
     s\<lparr>ns_conns := AList.delete a (ns_conns s),
       ns_sys := (case map_of (ns_conns s) a of
          None \<Rightarrow> ns_sys s | Some old \<Rightarrow> un_close N (un_raw_fd N old) (ns_sys s))\<rparr>"

definition net_close ::
  "profile \<Rightarrow> 'u uuid_crate \<Rightarrow> 'u write_ctx \<Rightarrow> ('l, 's, 'a, 'w) uring_net \<Rightarrow> NetworkEngine \<Rightarrow> fd
    \<Rightarrow> ('s, 'a, 'w) net_state \<Rightarrow> (net_error, unit) outcome \<times> ('s, 'a, 'w) net_state" where
  "net_close p U c N e f s =
     and_then (locked (\<lambda>s. (Ok (find_addr N f (ns_conns s)), s)) s) (\<lambda>found s.
       case found of
         None \<Rightarrow> (Ok (), s)
       | Some a \<Rightarrow>
           locked (\<lambda>s. net_notify p U c e NetworkClose (un_addr_text N a) (remove_conn N a s)) s)"

text \<open>Dropping the engine closes every connection (the listener cache is never filled).\<close>

definition net_drop ::
  "('l, 's, 'a, 'w) uring_net \<Rightarrow> ('s, 'a, 'w) net_state \<Rightarrow> (net_error, unit) outcome \<times> ('s, 'a, 'w) net_state" where
  "net_drop N = locked (\<lambda>s.
     (Ok (), s\<lparr>ns_conns := [],
        ns_sys := fold (\<lambda>(a, st). un_close N (un_raw_fd N st)) (ns_conns s) (ns_sys s)\<rparr>))"

end
