(* ===== verification/Net_Cache.thy ===== *)
theory Net_Cache
  imports Net_Uring
begin

text \<open>
  The cache of connections stays consistent: every address and every descriptor occurs
  once, and all descriptors are open. The laws of the sockets are the documented ones: a
  new socket has a descriptor that was not in use, closing frees it.
\<close>

definition socket_laws :: "('l, 's, 'a, 'w) uring_net \<Rightarrow> ('w \<Rightarrow> fd set) \<Rightarrow> bool" where
  "socket_laws N fds \<longleftrightarrow>
     (\<forall>a w w'. un_connect N a w = (None, w') \<longrightarrow> fds w' = fds w) \<and>
     (\<forall>a w st w'. un_connect N a w = (Some st, w') \<longrightarrow>
        un_raw_fd N st \<notin> fds w \<and> fds w' = insert (un_raw_fd N st) (fds w)) \<and>
     (\<forall>a w w'. un_bind N a w = (None, w') \<longrightarrow> fds w' = fds w) \<and>
     (\<forall>a w l w'. un_bind N a w = (Some l, w') \<longrightarrow>
        un_listener_fd N l \<notin> fds w \<and> fds w' = insert (un_listener_fd N l) (fds w)) \<and>
     (\<forall>l w w'. un_accept N l w = (None, w') \<longrightarrow> fds w' = fds w) \<and>
     (\<forall>l w st a w'. un_accept N l w = (Some (st, a), w') \<longrightarrow>
        un_raw_fd N st \<notin> fds w \<and> fds w' = insert (un_raw_fd N st) (fds w)) \<and>
     (\<forall>st buf w n buf' w'. un_read N st buf w = ((n, buf'), w') \<longrightarrow> fds w' = fds w \<and>
        length buf' = length buf \<and> (\<forall>k. n = Some k \<longrightarrow> k \<le> length buf)) \<and>
     (\<forall>st data w n w'. un_write N st data w = (n, w') \<longrightarrow> fds w' = fds w) \<and>
     (\<forall>f w. fds (un_close N f w) = fds w - {f}) \<and>
     (\<forall>f w. f \<notin> fds w \<longrightarrow> un_local_addr N f w = None)"

lemma socket_lawsD:
  assumes "socket_laws N fds"
  shows "un_connect N a w = (None, w') \<Longrightarrow> fds w' = fds w"
    and "un_connect N a w = (Some st, w') \<Longrightarrow> un_raw_fd N st \<notin> fds w \<and> fds w' = insert (un_raw_fd N st) (fds w)"
    and "un_bind N a w = (None, w') \<Longrightarrow> fds w' = fds w"
    and "un_bind N a w = (Some l, w') \<Longrightarrow>
      un_listener_fd N l \<notin> fds w \<and> fds w' = insert (un_listener_fd N l) (fds w)"
    and "un_accept N l w = (None, w') \<Longrightarrow> fds w' = fds w"
    and "un_accept N l w = (Some (st, a), w') \<Longrightarrow> un_raw_fd N st \<notin> fds w \<and> fds w' = insert (un_raw_fd N st) (fds w)"
    and "un_read N st buf w = ((n, buf'), w') \<Longrightarrow> fds w' = fds w \<and> length buf' = length buf"
    and "un_read N st buf w = ((Some k, buf'), w') \<Longrightarrow> k \<le> length buf'"
    and "un_write N st data w = (m, w') \<Longrightarrow> fds w' = fds w"
    and "fds (un_close N f w) = fds w - {f}"
    and "f \<notin> fds w \<Longrightarrow> un_local_addr N f w = None"
  subgoal using assms unfolding socket_laws_def by meson
  subgoal using assms unfolding socket_laws_def by meson
  subgoal using assms unfolding socket_laws_def by meson
  subgoal using assms unfolding socket_laws_def by meson
  subgoal using assms unfolding socket_laws_def by meson
  subgoal using assms unfolding socket_laws_def by meson
  subgoal using assms unfolding socket_laws_def by meson
  subgoal using assms unfolding socket_laws_def by metis
  subgoal using assms unfolding socket_laws_def by meson
  subgoal using assms unfolding socket_laws_def by meson
  subgoal using assms unfolding socket_laws_def by meson
  done

subsection \<open>Consistent caches\<close>

definition conn_fds :: "('l, 's, 'a, 'w) uring_net \<Rightarrow> ('a \<times> 's) list \<Rightarrow> fd list" where
  "conn_fds N cs = map (\<lambda>x. un_raw_fd N (snd x)) cs"

definition conns_ok :: "('l, 's, 'a, 'w) uring_net \<Rightarrow> ('w \<Rightarrow> fd set) \<Rightarrow> ('a \<times> 's) list \<Rightarrow> 'w \<Rightarrow> bool" where
  "conns_ok N fds cs w \<longleftrightarrow>
     distinct (map fst cs) \<and> distinct (conn_fds N cs) \<and> set (conn_fds N cs) \<subseteq> fds w"

lemma find_addr_Some: "find_addr N f cs = Some a \<Longrightarrow> \<exists>st. (a, st) \<in> set cs \<and> un_raw_fd N st = f"
  by (induction cs) (auto split: if_splits)

lemma find_addr_None: "find_addr N f cs = None \<longleftrightarrow> f \<notin> set (conn_fds N cs)"
  by (induction cs) (auto simp: conn_fds_def)

lemma find_addr_unique:
  assumes "distinct (conn_fds N cs)" "(a, st) \<in> set cs"
  shows "find_addr N (un_raw_fd N st) cs = Some a"
  using assms by (induction cs) (auto simp: conn_fds_def image_iff)

lemma find_addr_lookup:
  assumes "distinct (map fst cs)" "find_addr N f cs = Some a"
  obtains st where "map_of cs a = Some st" "un_raw_fd N st = f"
  using find_addr_Some [OF assms(2)] assms(1) that by (metis map_of_is_SomeI)

lemma set_update: "set (AList.update a st cs) \<subseteq> insert (a, st) (set cs)"
  by (induction cs) auto

lemma set_delete: "set (AList.delete a cs) = {x \<in> set cs. fst x \<noteq> a}"
  by (auto simp: AList.delete_eq)

lemma distinct_fds_filter:
  "distinct (conn_fds N cs) \<Longrightarrow> distinct (conn_fds N (filter P cs))"
  by (simp add: conn_fds_def distinct_map inj_on_def)

lemma distinct_fds_update:
  assumes "distinct (conn_fds N cs)" "un_raw_fd N st \<notin> set (conn_fds N cs)"
  shows "distinct (conn_fds N (AList.update a st cs))"
  using assms
proof (induction cs)
  case (Cons x xs)
  have "un_raw_fd N (snd x) \<notin> set (conn_fds N (AList.update a st xs))"
    using Cons.prems set_update [of a st xs] by (auto simp: conn_fds_def)
  then show ?case using Cons by (cases x) (auto simp: conn_fds_def)
qed (simp add: conn_fds_def)

text \<open>
  A connection that replaces another of its address takes its place: the descriptor of the
  old one is no longer in the cache.
\<close>

lemma old_fd_gone:
  assumes "distinct (conn_fds N cs)" "distinct (map fst cs)" "map_of cs a = Some old"
    "un_raw_fd N st \<noteq> un_raw_fd N old"
  shows "un_raw_fd N old \<notin> set (conn_fds N (AList.update a st cs))"
proof
  assume "un_raw_fd N old \<in> set (conn_fds N (AList.update a st cs))"
  then obtain b st' where x: "(b, st') \<in> set (AList.update a st cs)" "un_raw_fd N st' = un_raw_fd N old"
    by (auto simp: conn_fds_def)
  have d: "distinct (map fst (AList.update a st cs))" by (rule distinct_update [OF assms(2)])
  have m: "((map_of cs)(a \<mapsto> st)) b = Some st'"
    using map_of_is_SomeI [OF d x(1)] by (simp add: update_conv')
  show False
  proof (cases "b = a")
    case True
    then show False using m x(2) assms(4) by simp
  next
    case False
    then have "map_of cs b = Some st'" using m by simp
    then have "find_addr N (un_raw_fd N st') cs = Some b"
      by (rule find_addr_unique [OF assms(1) map_of_SomeD])
    moreover have "find_addr N (un_raw_fd N old) cs = Some a"
      by (rule find_addr_unique [OF assms(1) map_of_SomeD [OF assms(3)]])
    ultimately show False using x(2) False by simp
  qed
qed

lemma insert_conn_ok:
  assumes "socket_laws N fds" "conns_ok N fds (ns_conns s) w"
    and "un_raw_fd N st \<notin> fds w" "fds (ns_sys s) = insert (un_raw_fd N st) (fds w)"
  shows "conns_ok N fds (ns_conns (insert_conn N a st s)) (ns_sys (insert_conn N a st s))"
    and "map_of (ns_conns (insert_conn N a st s)) = (map_of (ns_conns s))(a := Some st)"
    and "map_of (ns_conns s) a = Some old \<Longrightarrow> un_raw_fd N old \<notin> fds (ns_sys (insert_conn N a st s))"
proof -
  let ?cs = "ns_conns s" and ?s = "insert_conn N a st s"
  have d: "distinct (map fst ?cs)" "distinct (conn_fds N ?cs)" "set (conn_fds N ?cs) \<subseteq> fds w"
    using assms(2) by (simp_all add: conns_ok_def)
  have fresh: "un_raw_fd N st \<notin> set (conn_fds N ?cs)" using d(3) assms(3) by auto
  have conns: "ns_conns ?s = AList.update a st ?cs" by (simp add: insert_conn_def)
  show "map_of (ns_conns ?s) = (map_of ?cs)(a := Some st)" by (simp add: conns update_conv')
  have sub: "set (conn_fds N (AList.update a st ?cs)) \<subseteq> insert (un_raw_fd N st) (set (conn_fds N ?cs))"
    using set_update [of a st ?cs] by (auto simp: conn_fds_def)
  have "set (conn_fds N (AList.update a st ?cs)) \<subseteq> fds (ns_sys ?s)"
  proof (cases "map_of ?cs a")
    case None
    then show ?thesis using sub d(3) assms(4) by (auto simp: insert_conn_def)
  next
    case (Some old)
    have "un_raw_fd N old \<in> set (conn_fds N ?cs)"
      using map_of_SomeD [OF Some] by (force simp: conn_fds_def)
    then have "un_raw_fd N old \<notin> set (conn_fds N (AList.update a st ?cs))"
      using old_fd_gone [OF d(2,1) Some] fresh by metis
    then show ?thesis
      using sub d(3) assms(4) Some by (auto simp: insert_conn_def socket_lawsD(10) [OF assms(1)])
  qed
  then show "conns_ok N fds (ns_conns ?s) (ns_sys ?s)"
    using distinct_update [OF d(1)] distinct_fds_update [OF d(2) fresh] by (simp add: conns_ok_def conns)
  show "map_of (ns_conns s) a = Some old \<Longrightarrow> un_raw_fd N old \<notin> fds (ns_sys ?s)"
    by (simp add: insert_conn_def socket_lawsD(10) [OF assms(1)])
qed

lemma remove_conn_ok:
  assumes "socket_laws N fds" "conns_ok N fds (ns_conns s) (ns_sys s)"
    and "find_addr N f (ns_conns s) = Some a"
  shows "conns_ok N fds (ns_conns (remove_conn N a s)) (ns_sys (remove_conn N a s))"
    and "find_addr N f (ns_conns (remove_conn N a s)) = None"
    and "fds (ns_sys (remove_conn N a s)) = fds (ns_sys s) - {f}"
    and "map_of (ns_conns (remove_conn N a s)) = (map_of (ns_conns s))(a := None)"
proof -
  let ?cs = "ns_conns s" and ?s = "remove_conn N a s"
  have d: "distinct (map fst ?cs)" "distinct (conn_fds N ?cs)" "set (conn_fds N ?cs) \<subseteq> fds (ns_sys s)"
    using assms(2) by (simp_all add: conns_ok_def)
  obtain st where st: "map_of ?cs a = Some st" "un_raw_fd N st = f"
    by (rule find_addr_lookup [OF d(1) assms(3)])
  have conns: "ns_conns ?s = filter (\<lambda>x. a \<noteq> fst x) ?cs"
    by (simp add: remove_conn_def AList.delete_eq case_prod_unfold)
  show fds: "fds (ns_sys ?s) = fds (ns_sys s) - {f}"
    by (simp add: remove_conn_def st socket_lawsD(10) [OF assms(1)])
  have gone: "f \<notin> set (conn_fds N (ns_conns ?s))"
  proof
    assume "f \<in> set (conn_fds N (ns_conns ?s))"
    then obtain b st' where "(b, st') \<in> set ?cs" "b \<noteq> a" "un_raw_fd N st' = f"
      by (auto simp: conns conn_fds_def)
    then show False
      using find_addr_unique [OF d(2), of b st'] assms(3) by simp
  qed
  then show "find_addr N f (ns_conns ?s) = None" by (simp add: find_addr_None)
  have "set (conn_fds N (ns_conns ?s)) \<subseteq> set (conn_fds N ?cs)" by (auto simp: conns conn_fds_def)
  then have "set (conn_fds N (ns_conns ?s)) \<subseteq> fds (ns_sys ?s)" using d(3) gone fds by auto
  moreover have "distinct (map fst (ns_conns ?s))"
    using d(1) by (simp add: conns distinct_map inj_on_def)
  ultimately show "conns_ok N fds (ns_conns ?s) (ns_sys ?s)"
    using distinct_fds_filter [OF d(2)] by (simp add: conns_ok_def conns)
  show "map_of (ns_conns ?s) = (map_of ?cs)(a := None)"
    by (simp add: remove_conn_def delete_conv')
qed

end
