(* ===== verification/Net_Operations.thy ===== *)
theory Net_Operations
  imports Net_Cache
begin

text \<open>
  What the operations of the network engine do from a good state: the announcement never
  stops them, the cache stays consistent, and no operation panics. The steps of an engine
  are its operations and what the rest of the program and other processes do in between.
\<close>

subsection \<open>Good states\<close>

definition net_safe :: "'u write_ctx \<Rightarrow> NetworkEngine \<Rightarrow> ('s, 'a, 'w) net_state \<Rightarrow> bool" where
  "net_safe c e s \<longleftrightarrow> ring_safe (ne_ring e) (ns_mem s) \<and>
     safe_env fixed_fields (ne_ring e) (wc_env c) \<and> \<not> ns_poisoned s"

definition net_ok ::
  "('l, 's, 'a, 'w) uring_net \<Rightarrow> ('w \<Rightarrow> fd set) \<Rightarrow> NetworkEngine \<Rightarrow> ('s, 'a, 'w) net_state \<Rightarrow> bool" where
  "net_ok N fds e s \<longleftrightarrow> ring_safe (ne_ring e) (ns_mem s) \<and> \<not> ns_poisoned s \<and>
     conns_ok N fds (ns_conns s) (ns_sys s)"

lemma net_ok_safe:
  "net_ok N fds e s \<Longrightarrow> safe_env fixed_fields (ne_ring e) (wc_env c) \<Longrightarrow> net_safe c e s"
  by (simp add: net_ok_def net_safe_def)

lemma net_safe_parts [simp]:
  "net_safe c e (s\<lparr>ns_sys := w\<rparr>) = net_safe c e s"
  "net_safe c e (s\<lparr>ns_conns := cs\<rparr>) = net_safe c e s"
  "net_safe c e (insert_conn N a st s) = net_safe c e s"
  "net_safe c e (remove_conn N a s) = net_safe c e s"
  by (simp_all add: net_safe_def insert_conn_def remove_conn_def)

lemma insert_conn_parts [simp]:
  "ns_mem (insert_conn N a st s) = ns_mem s" "ns_poisoned (insert_conn N a st s) = ns_poisoned s"
  "ns_mem (remove_conn N a s) = ns_mem s" "ns_poisoned (remove_conn N a s) = ns_poisoned s"
  by (simp_all add: insert_conn_def remove_conn_def)

subsection \<open>The announcement\<close>

lemma net_notify_outcome:
  assumes "net_safe c e s"
  obtains m where "net_notify p U c e kind text s = (Ok (), s\<lparr>ns_mem := m\<rparr>)"
    "ring_safe (ne_ring e) m" "announced (ne_ring e) (kind, text) (ns_mem s) m"
proof -
  have a: "ring_safe (ne_ring e) (ns_mem s)" "safe_env fixed_fields (ne_ring e) (wc_env c)"
    using assms by (simp_all add: net_safe_def)
  obtain m where m: "notify p U c (ne_ring e) kind text (ns_mem s) = (Ok () :: (net_error, unit) outcome, m)"
    "ring_safe (ne_ring e) m"
    by (rule notify_safe [OF a]) (rule that)
  then show ?thesis
    using that notify_announced [OF m(1)] by (simp add: net_notify_def)
qed

lemma store_and_notify_outcome:
  assumes "net_safe c e s"
  obtains m where "store_and_notify p U c N e kind a st s = (Ok (), insert_conn N a st s\<lparr>ns_mem := m\<rparr>)"
    "ring_safe (ne_ring e) m" "announced (ne_ring e) (kind, un_addr_text N a) (ns_mem s) m"
proof -
  have s: "net_safe c e (insert_conn N a st s)" "\<not> ns_poisoned s"
    using assms by (simp, simp add: net_safe_def)
  obtain m where m: "net_notify p U c e kind (un_addr_text N a) (insert_conn N a st s) =
      (Ok (), insert_conn N a st s\<lparr>ns_mem := m\<rparr>)" "ring_safe (ne_ring e) m"
    "announced (ne_ring e) (kind, un_addr_text N a) (ns_mem (insert_conn N a st s)) m"
    by (rule net_notify_outcome [OF s(1)]) (rule that)
  have "store_and_notify p U c N e kind a st s = (Ok (), insert_conn N a st s\<lparr>ns_mem := m\<rparr>)"
    by (simp add: store_and_notify_def locked_def m(1) s(2))
  then show ?thesis using that m by simp
qed

subsection \<open>The search\<close>

lemma lookup_addr_eq:
  "\<not> ns_poisoned s \<Longrightarrow> lookup_addr N f s =
     (case find_addr N f (ns_conns s) of None \<Rightarrow> (Err (NoConnection f), s) | Some a \<Rightarrow> (Ok a, s))"
  by (simp add: lookup_addr_def locked_def split: option.split)

lemma lookup_addr_cached:
  assumes "conns_ok N fds (ns_conns s) w" "\<not> ns_poisoned s" "map_of (ns_conns s) a = Some st"
  shows "lookup_addr N (un_raw_fd N st) s = (Ok a, s)"
proof -
  have "distinct (conn_fds N (ns_conns s))" using assms(1) by (simp add: conns_ok_def)
  from find_addr_unique [OF this map_of_SomeD [OF assms(3)]] assms(2) show ?thesis
    by (simp add: lookup_addr_eq)
qed

lemma lookup_addr_unknown:
  "\<not> ns_poisoned s \<Longrightarrow> f \<notin> set (conn_fds N (ns_conns s)) \<Longrightarrow>
     lookup_addr N f s = (Err (NoConnection f), s)"
  using find_addr_None [of N f "ns_conns s"] by (simp add: lookup_addr_eq)

subsection \<open>The caches after an operation\<close>

lemma conns_ok_closed:
  assumes "socket_laws N fds" "conns_ok N fds cs w" "f \<notin> set (conn_fds N cs)"
  shows "conns_ok N fds cs (un_close N f w)"
  using assms by (auto simp: conns_ok_def socket_lawsD(10))

lemma conns_ok_fds:
  "conns_ok N fds cs w \<Longrightarrow> fds w \<subseteq> fds w' \<Longrightarrow> conns_ok N fds cs w'"
  by (auto simp: conns_ok_def)

lemma insert_conn_fds: "set (conn_fds N (ns_conns (insert_conn N a st s))) \<subseteq>
    insert (un_raw_fd N st) (set (conn_fds N (ns_conns s)))"
  using set_update [of a st "ns_conns s"] by (auto simp: insert_conn_def conn_fds_def)

lemma insert_conn_net_ok:
  assumes "socket_laws N fds" "net_ok N fds e s" "ring_safe (ne_ring e) m"
    and "un_raw_fd N st \<notin> fds (ns_sys s)" "fds w = insert (un_raw_fd N st) (fds (ns_sys s))"
  shows "net_ok N fds e (insert_conn N a st (s\<lparr>ns_sys := w\<rparr>)\<lparr>ns_mem := m\<rparr>)"
  using insert_conn_ok(1) [OF assms(1), of "s\<lparr>ns_sys := w\<rparr>" "ns_sys s" st a] assms(2-5)
  by (simp add: net_ok_def)

subsection \<open>Connecting\<close>

lemma net_connect_cases:
  assumes "socket_laws N fds" "net_ok N fds e s" "net_safe c e s"
  obtains (failed) w where "un_connect N a (ns_sys s) = (None, w)"
      "net_connect p U c N e a s = (Err ConnectFailed, s\<lparr>ns_sys := w\<rparr>)"
      "net_ok N fds e (s\<lparr>ns_sys := w\<rparr>)"
  | (connected) st w m where "un_connect N a (ns_sys s) = (Some st, w)"
      "net_connect p U c N e a s =
         (Ok (un_raw_fd N st), insert_conn N a st (s\<lparr>ns_sys := w\<rparr>)\<lparr>ns_mem := m\<rparr>)"
      "net_ok N fds e (insert_conn N a st (s\<lparr>ns_sys := w\<rparr>)\<lparr>ns_mem := m\<rparr>)"
      "announced (ne_ring e) (NetworkSend, un_addr_text N a) (ns_mem s) m"
proof -
  obtain r w where c: "un_connect N a (ns_sys s) = (r, w)" by fastforce
  show ?thesis
  proof (cases r)
    case None
    have "net_ok N fds e (s\<lparr>ns_sys := w\<rparr>)"
      using assms(2) socket_lawsD(1) [OF assms(1) c [unfolded None]] by (simp add: net_ok_def conns_ok_def)
    then show ?thesis using failed c None by (simp add: net_connect_def)
  next
    case (Some st)
    have s: "net_safe c e (s\<lparr>ns_sys := w\<rparr>)" using assms(3) by simp
    obtain m where m: "store_and_notify p U c N e NetworkSend a st (s\<lparr>ns_sys := w\<rparr>) =
        (Ok (), insert_conn N a st (s\<lparr>ns_sys := w\<rparr>)\<lparr>ns_mem := m\<rparr>)"
      "ring_safe (ne_ring e) m"
      "announced (ne_ring e) (NetworkSend, un_addr_text N a) (ns_mem (s\<lparr>ns_sys := w\<rparr>)) m"
      by (rule store_and_notify_outcome [OF s]) (rule that)
    note new = socket_lawsD(2) [OF assms(1) c [unfolded Some]]
    show ?thesis
      by (rule connected [where st = st and w = w and m = m])
        (use c Some m insert_conn_net_ok [OF assms(1,2) m(2), of st w a] new in
          \<open>simp_all add: net_connect_def\<close>)
  qed
qed

subsection \<open>Accepting\<close>

lemma net_accept_cases:
  assumes laws: "socket_laws N fds" and ok: "net_ok N fds e s" "net_safe c e s"
    and f: "f \<notin> set (conn_fds N (ns_conns s))" "f \<noteq> -1"
  obtains (failed) err w where
      "net_accept p U c N e f s = (Err err, s\<lparr>ns_sys := w\<rparr>)" "f \<notin> fds w"
      "net_ok N fds e (s\<lparr>ns_sys := w\<rparr>)"
  | (accepted) st a s' m where
      "net_accept p U c N e f s = (Ok (un_raw_fd N st, a), s'\<lparr>ns_mem := m\<rparr>)"
      "map_of (ns_conns s') = (map_of (ns_conns s))(a := Some st)" "f \<notin> fds (ns_sys s')"
      "net_ok N fds e (s'\<lparr>ns_mem := m\<rparr>)" "ns_mem s' = ns_mem s"
      "announced (ne_ring e) (NetworkReceive, un_addr_text N a) (ns_mem s) m"
proof -
  note L = socket_lawsD [OF laws]
  have cs: "conns_ok N fds (ns_conns s) (ns_sys s)" using ok(1) by (simp add: net_ok_def)
  have sys: "net_ok N fds e (s\<lparr>ns_sys := w\<rparr>)" if "conns_ok N fds (ns_conns s) w" for w
    using ok(1) that by (simp add: net_ok_def)
  show ?thesis
  proof (cases "un_local_addr N f (ns_sys s)")
    case None
    then have "net_accept p U c N e f s = (Err LocalAddrFailed, s\<lparr>ns_sys := un_close N f (ns_sys s)\<rparr>)"
      by (simp add: net_accept_def f(2))
    then show ?thesis by (rule failed) (simp_all add: L(10) sys conns_ok_closed [OF laws cs f(1)])
  next
    case local: (Some laddr)
    then have open_f: "f \<in> fds (ns_sys s)" using L(11) by fastforce
    obtain lo w where b: "un_bind N laddr (ns_sys s) = (lo, w)" by fastforce
    show ?thesis
    proof (cases lo)
      case None
      have "conns_ok N fds (ns_conns s) w" using conns_ok_fds [OF cs] L(3) [OF b [unfolded None]] by simp
      note closed = conns_ok_closed [OF laws this f(1)]
      have "net_accept p U c N e f s = (Err BindFailedError, s\<lparr>ns_sys := un_close N f w\<rparr>)"
        by (simp add: net_accept_def f(2) local b None)
      then show ?thesis by (rule failed) (simp_all add: L(10) sys closed)
    next
      case l: (Some l)
      note new_l = L(4) [OF b [unfolded l]]
      obtain r w1 where a: "un_accept N l w = (r, w1)" by fastforce
      have l_fd: "un_listener_fd N l \<notin> set (conn_fds N (ns_conns s))"
        using cs new_l by (auto simp: conns_ok_def)
      show ?thesis
      proof (cases r)
        case None
        have "conns_ok N fds (ns_conns s) w1"
          by (rule conns_ok_fds [OF cs]) (use new_l L(5) [OF a [unfolded None]] in auto)
        note closed = conns_ok_closed [OF laws conns_ok_closed [OF laws this l_fd] f(1)]
        have "net_accept p U c N e f s =
            (Err AcceptFailed, s\<lparr>ns_sys := un_close N f (un_close N (un_listener_fd N l) w1)\<rparr>)"
          by (simp add: net_accept_def f(2) local b l a None)
        then show ?thesis by (rule failed) (simp_all add: L(10) sys closed)
      next
        case (Some sa)
        obtain st addr where sa: "sa = (st, addr)" by (cases sa)
        note new = L(6) [OF a [unfolded Some sa]]
        let ?s = "s\<lparr>ns_sys := w1\<rparr>"
        let ?s1 = "insert_conn N addr st ?s"
        have safe: "net_safe c e ?s" using ok(2) by simp
        obtain m where m: "store_and_notify p U c N e NetworkReceive addr st ?s = (Ok (), ?s1\<lparr>ns_mem := m\<rparr>)"
          "ring_safe (ne_ring e) m"
          "announced (ne_ring e) (NetworkReceive, un_addr_text N addr) (ns_mem ?s) m"
          by (rule store_and_notify_outcome [OF safe]) (rule that)
        let ?w = "un_close N f (un_close N (un_listener_fd N l) (ns_sys ?s1))"
        have fds_w: "fds w1 = insert (un_raw_fd N st) (fds w)" "un_raw_fd N st \<notin> fds w"
          using new by simp_all
        have "conns_ok N fds (ns_conns ?s) w" using conns_ok_fds [OF cs] new_l by auto
        then have c1: "conns_ok N fds (ns_conns ?s1) (ns_sys ?s1)"
          by (rule insert_conn_ok(1) [OF laws]) (use fds_w in simp_all)
        have "un_listener_fd N l \<notin> set (conn_fds N (ns_conns ?s1))" "f \<notin> set (conn_fds N (ns_conns ?s1))"
          using insert_conn_fds [of N addr st ?s] l_fd f(1) fds_w new_l open_f by auto
        then have c2: "conns_ok N fds (ns_conns ?s1) ?w"
          by (intro conns_ok_closed [OF laws] c1)
        show ?thesis
        proof (rule accepted [of st addr m "?s1\<lparr>ns_sys := ?w\<rparr>"])
          show "net_accept p U c N e f s = (Ok (un_raw_fd N st, addr), ?s1\<lparr>ns_sys := ?w, ns_mem := m\<rparr>)"
            by (simp add: net_accept_def f(2) local b l a Some sa m(1))
          show "map_of (ns_conns (?s1\<lparr>ns_sys := ?w\<rparr>)) = (map_of (ns_conns s))(addr := Some st)"
            by (simp add: insert_conn_def update_conv')
          show "net_ok N fds e (?s1\<lparr>ns_sys := ?w, ns_mem := m\<rparr>)"
            using c2 m(2) ok(1) by (simp add: net_ok_def)
        qed (use m(3) in \<open>simp_all add: L(10)\<close>)
      qed
    qed
  qed
qed

subsection \<open>Reading, writing and closing\<close>

lemma net_ok_effects:
  assumes "net_ok N fds e s" "fds w = fds (ns_sys s)"
  shows "net_ok N fds e (s\<lparr>ns_sys := w\<rparr>)"
    and "ring_safe (ne_ring e) m \<Longrightarrow> net_ok N fds e (s\<lparr>ns_sys := w, ns_mem := m\<rparr>)"
  using assms by (simp_all add: net_ok_def conns_ok_def)

lemma net_read_cached:
  assumes "socket_laws N fds" "net_ok N fds e s" "net_safe c e s"
    and "unat (net_buffer_size (ne_config e)) < 2 ^ 63" "map_of (ns_conns s) a = Some st"
    and "un_read N st (replicate (unat (net_buffer_size (ne_config e))) 0) (ns_sys s) = ((no, buf), w)"
  shows "no = None \<Longrightarrow>
      net_read p U c N e (un_raw_fd N st) s = (Err SocketReadFailed, s\<lparr>ns_sys := w\<rparr>)"
    and "no = Some n \<Longrightarrow> \<exists>m.
      net_read p U c N e (un_raw_fd N st) s = (Ok (take n buf), s\<lparr>ns_sys := w, ns_mem := m\<rparr>) \<and>
      ring_safe (ne_ring e) m \<and> announced (ne_ring e) (NetworkReceive, un_addr_text N a) (ns_mem s) m"
proof -
  have p: "\<not> ns_poisoned s" "conns_ok N fds (ns_conns s) (ns_sys s)"
    using assms(2) by (simp_all add: net_ok_def)
  note found = lookup_addr_cached [OF p(2,1) assms(5)]
  show "no = None \<Longrightarrow> net_read p U c N e (un_raw_fd N st) s = (Err SocketReadFailed, s\<lparr>ns_sys := w\<rparr>)"
    using p assms(4-6) by (simp add: net_read_def found locked_def Let_def)
  assume no: "no = Some n"
  have len: "n \<le> length buf" by (rule socket_lawsD(8) [OF assms(1) assms(6) [unfolded no]])
  have s: "net_safe c e (s\<lparr>ns_sys := w\<rparr>)" using assms(3) by simp
  obtain m where m: "net_notify p U c e NetworkReceive (un_addr_text N a) (s\<lparr>ns_sys := w\<rparr>) =
      (Ok (), s\<lparr>ns_sys := w, ns_mem := m\<rparr>)" "ring_safe (ne_ring e) m"
    "announced (ne_ring e) (NetworkReceive, un_addr_text N a) (ns_mem (s\<lparr>ns_sys := w\<rparr>)) m"
    by (rule net_notify_outcome [OF s]) (rule that)
  have "net_read p U c N e (un_raw_fd N st) s = (Ok (take n buf), s\<lparr>ns_sys := w, ns_mem := m\<rparr>)"
    using p assms(4-6) len by (simp add: net_read_def found locked_def Let_def no m(1))
  then show "\<exists>m. net_read p U c N e (un_raw_fd N st) s = (Ok (take n buf), s\<lparr>ns_sys := w, ns_mem := m\<rparr>) \<and>
      ring_safe (ne_ring e) m \<and> announced (ne_ring e) (NetworkReceive, un_addr_text N a) (ns_mem s) m"
    using m by auto
qed

lemma net_write_cached:
  assumes "net_ok N fds e s" "net_safe c e s" "map_of (ns_conns s) a = Some st"
    and "un_write N st data (ns_sys s) = (no, w)"
  shows "no = None \<Longrightarrow>
      net_write p U c N e (un_raw_fd N st) data s = (Err SocketWriteFailed, s\<lparr>ns_sys := w\<rparr>)"
    and "no = Some n \<Longrightarrow> \<exists>m.
      net_write p U c N e (un_raw_fd N st) data s = (Ok n, s\<lparr>ns_sys := w, ns_mem := m\<rparr>) \<and>
      ring_safe (ne_ring e) m \<and> announced (ne_ring e) (NetworkSend, un_addr_text N a) (ns_mem s) m"
proof -
  have p: "\<not> ns_poisoned s" "conns_ok N fds (ns_conns s) (ns_sys s)"
    using assms(1) by (simp_all add: net_ok_def)
  note found = lookup_addr_cached [OF p(2,1) assms(3)]
  show "no = None \<Longrightarrow>
      net_write p U c N e (un_raw_fd N st) data s = (Err SocketWriteFailed, s\<lparr>ns_sys := w\<rparr>)"
    using p assms(3,4) by (simp add: net_write_def found locked_def)
  assume no: "no = Some n"
  have s: "net_safe c e (s\<lparr>ns_sys := w\<rparr>)" using assms(2) by simp
  obtain m where m: "net_notify p U c e NetworkSend (un_addr_text N a) (s\<lparr>ns_sys := w\<rparr>) =
      (Ok (), s\<lparr>ns_sys := w, ns_mem := m\<rparr>)" "ring_safe (ne_ring e) m"
    "announced (ne_ring e) (NetworkSend, un_addr_text N a) (ns_mem (s\<lparr>ns_sys := w\<rparr>)) m"
    by (rule net_notify_outcome [OF s]) (rule that)
  have "net_write p U c N e (un_raw_fd N st) data s = (Ok n, s\<lparr>ns_sys := w, ns_mem := m\<rparr>)"
    using p assms(3,4) by (simp add: net_write_def found locked_def no m(1))
  then show "\<exists>m. net_write p U c N e (un_raw_fd N st) data s = (Ok n, s\<lparr>ns_sys := w, ns_mem := m\<rparr>) \<and>
      ring_safe (ne_ring e) m \<and> announced (ne_ring e) (NetworkSend, un_addr_text N a) (ns_mem s) m"
    using m by auto
qed

text \<open>A descriptor the engine does not know: reads and writes fail, closing does nothing.\<close>

lemma net_unknown_fd:
  assumes "\<not> ns_poisoned s" "f \<notin> set (conn_fds N (ns_conns s))"
  shows "net_read p U c N e f s = (Err (NoConnection f), s)"
    and "net_write p U c N e f data s = (Err (NoConnection f), s)"
    and "net_close p U c N e f s = (Ok (), s)"
  using lookup_addr_unknown [OF assms] assms find_addr_None [of N f "ns_conns s"]
  by (simp_all add: net_read_def net_write_def net_close_def locked_def)

lemma known_fd:
  assumes "conns_ok N fds (ns_conns s) w" "f \<in> set (conn_fds N (ns_conns s))"
  obtains a st where "map_of (ns_conns s) a = Some st" "un_raw_fd N st = f"
    "find_addr N f (ns_conns s) = Some a"
proof -
  obtain a where a: "find_addr N f (ns_conns s) = Some a"
    using find_addr_None [of N f "ns_conns s"] assms(2) by auto
  have d: "distinct (map fst (ns_conns s))" using assms(1) by (simp add: conns_ok_def)
  show ?thesis by (rule find_addr_lookup [OF d a]) (rule that [OF _ _ a])
qed

lemma net_close_known:
  assumes "socket_laws N fds" "net_ok N fds e s" "net_safe c e s"
    and "find_addr N f (ns_conns s) = Some a"
  obtains m where "net_close p U c N e f s = (Ok (), remove_conn N a s\<lparr>ns_mem := m\<rparr>)"
    "net_ok N fds e (remove_conn N a s\<lparr>ns_mem := m\<rparr>)"
    "announced (ne_ring e) (NetworkClose, un_addr_text N a) (ns_mem s) m"
proof -
  have p: "\<not> ns_poisoned s" "conns_ok N fds (ns_conns s) (ns_sys s)"
    using assms(2) by (simp_all add: net_ok_def)
  have s: "net_safe c e (remove_conn N a s)" using assms(3) by simp
  obtain m where m: "net_notify p U c e NetworkClose (un_addr_text N a) (remove_conn N a s) =
      (Ok (), remove_conn N a s\<lparr>ns_mem := m\<rparr>)" "ring_safe (ne_ring e) m"
    "announced (ne_ring e) (NetworkClose, un_addr_text N a) (ns_mem (remove_conn N a s)) m"
    by (rule net_notify_outcome [OF s]) (rule that)
  have "net_close p U c N e f s = (Ok (), remove_conn N a s\<lparr>ns_mem := m\<rparr>)"
    using p by (simp add: net_close_def locked_def assms(4) m(1))
  moreover have "net_ok N fds e (remove_conn N a s\<lparr>ns_mem := m\<rparr>)"
    using remove_conn_ok(1) [OF assms(1) p(2) assms(4)] m(2) p(1) by (simp add: net_ok_def)
  ultimately show ?thesis using that m(3) by simp
qed

subsection \<open>The steps of an engine\<close>

datatype 'a net_call = CallAccept fd | CallConnect 'a | CallRead fd | CallWrite fd "u8 list" | CallClose fd

primrec net_perform ::
  "profile \<Rightarrow> 'u uuid_crate \<Rightarrow> 'u write_ctx \<Rightarrow> ('l, 's, 'a, 'w) uring_net \<Rightarrow> NetworkEngine
    \<Rightarrow> 'a net_call \<Rightarrow> ('s, 'a, 'w) net_state
    \<Rightarrow> (net_error, 'a NetworkResult) outcome \<times> ('s, 'a, 'w) net_state" where
  "net_perform p U c N e (CallAccept f) s =
     and_then (net_accept p U c N e f s) (\<lambda>x s. (Ok (NetAccept (fst x) (snd x)), s))"
| "net_perform p U c N e (CallConnect a) s =
     and_then (net_connect p U c N e a s) (\<lambda>f s. (Ok (NetConnect f), s))"
| "net_perform p U c N e (CallRead f) s =
     and_then (net_read p U c N e f s) (\<lambda>d s. (Ok (NetRead d), s))"
| "net_perform p U c N e (CallWrite f data) s =
     and_then (net_write p U c N e f data s) (\<lambda>n s. (Ok (NetWrite n), s))"
| "net_perform p U c N e (CallClose f) s =
     and_then (net_close p U c N e f s) (\<lambda>_ s. (Ok NetClose, s))"

text \<open>
  \<open>accept\<close> takes a descriptor over and closes it: it must not be one of a cached connection.
  For the descriptor -1 it panics before it has touched anything.
\<close>

primrec call_allowed :: "('l, 's, 'a, 'w) uring_net \<Rightarrow> ('a \<times> 's) list \<Rightarrow> 'a net_call \<Rightarrow> bool" where
  "call_allowed N cs (CallAccept f) = (f \<notin> set (conn_fds N cs))"
| "call_allowed N cs (CallConnect a) = True"
| "call_allowed N cs (CallRead f) = True"
| "call_allowed N cs (CallWrite f data) = True"
| "call_allowed N cs (CallClose f) = True"

lemma net_perform_ok:
  assumes "socket_laws N fds" "net_ok N fds e s" "net_safe c e s"
    and "unat (net_buffer_size (ne_config e)) < 2 ^ 63" "call_allowed N (ns_conns s) call"
  shows "(returned (fst (net_perform p U c N e call s)) \<or>
      call = CallAccept (-1) \<and> fst (net_perform p U c N e call s) = Panic AssertionFailed) \<and>
    net_ok N fds e (snd (net_perform p U c N e call s))"
proof -
  have p: "\<not> ns_poisoned s" "conns_ok N fds (ns_conns s) (ns_sys s)"
    using assms(2) by (simp_all add: net_ok_def)
  show ?thesis
  proof (cases call)
    case (CallAccept f)
    then have f: "f \<notin> set (conn_fds N (ns_conns s))" using assms(5) by simp
    show ?thesis
    proof (cases "f = -1")
      case True
      then show ?thesis using assms(2) by (simp add: CallAccept net_accept_def)
    next
      case False
      show ?thesis
        by (rule net_accept_cases [OF assms(1-3) f False, of p U]) (simp_all add: CallAccept)
    qed
  next
    case (CallConnect a)
    show ?thesis
      by (rule net_connect_cases [OF assms(1-3), of a p U]) (simp_all add: CallConnect)
  next
    case (CallRead f)
    show ?thesis
    proof (cases "f \<in> set (conn_fds N (ns_conns s))")
      case True
      obtain a st where st: "map_of (ns_conns s) a = Some st" "un_raw_fd N st = f"
        by (rule known_fd [OF p(2) True]) (rule that)
      obtain no buf w where r:
        "un_read N st (replicate (unat (net_buffer_size (ne_config e))) 0) (ns_sys s) = ((no, buf), w)"
        by (metis prod.exhaust)
      have "fds w = fds (ns_sys s)" using socket_lawsD(7) [OF assms(1) r] by simp
      note eff = net_ok_effects [OF assms(2) this]
      show ?thesis
        using net_read_cached [OF assms(1-4) st(1) r, where p = p and U = U] eff
        by (cases no) (auto simp: CallRead st(2))
    qed (simp add: CallRead net_unknown_fd [OF p(1)] assms(2))
  next
    case (CallWrite f data)
    show ?thesis
    proof (cases "f \<in> set (conn_fds N (ns_conns s))")
      case True
      obtain a st where st: "map_of (ns_conns s) a = Some st" "un_raw_fd N st = f"
        by (rule known_fd [OF p(2) True]) (rule that)
      obtain no w where r: "un_write N st data (ns_sys s) = (no, w)" by fastforce
      note eff = net_ok_effects [OF assms(2) socket_lawsD(9) [OF assms(1) r]]
      show ?thesis
        using net_write_cached [OF assms(2,3) st(1) r, where p = p and U = U] eff
        by (cases no) (auto simp: CallWrite st(2))
    qed (simp add: CallWrite net_unknown_fd [OF p(1)] assms(2))
  next
    case (CallClose f)
    show ?thesis
    proof (cases "f \<in> set (conn_fds N (ns_conns s))")
      case True
      obtain a where a: "find_addr N f (ns_conns s) = Some a"
        by (rule known_fd [OF p(2) True]) (rule that)
      show ?thesis by (rule net_close_known [OF assms(1-3) a, of p U]) (simp add: CallClose)
    qed (simp add: CallClose net_unknown_fd [OF p(1)] assms(2))
  qed
qed

text \<open>
  What can happen to an engine: a call of one of its operations; other processes change
  the ring and keep it safe; the program opens and closes descriptors the engine does not
  hold.
\<close>

inductive net_reach ::
  "profile \<Rightarrow> 'u uuid_crate \<Rightarrow> ('l, 's, 'a, 'w) uring_net \<Rightarrow> ('w \<Rightarrow> fd set) \<Rightarrow> NetworkEngine
    \<Rightarrow> ('s, 'a, 'w) net_state \<Rightarrow> ('s, 'a, 'w) net_state \<Rightarrow> bool"
  for p U N fds e s0 where
  start: "net_reach p U N fds e s0 s0"
| call: "net_reach p U N fds e s0 s \<Longrightarrow> safe_env fixed_fields (ne_ring e) (wc_env c) \<Longrightarrow>
    call_allowed N (ns_conns s) call \<Longrightarrow>
    net_reach p U N fds e s0 (snd (net_perform p U c N e call s))"
| ring: "net_reach p U N fds e s0 s \<Longrightarrow> ring_safe (ne_ring e) m \<Longrightarrow>
    net_reach p U N fds e s0 (s\<lparr>ns_mem := m\<rparr>)"
| descriptors: "net_reach p U N fds e s0 s \<Longrightarrow> set (conn_fds N (ns_conns s)) \<subseteq> fds w \<Longrightarrow>
    net_reach p U N fds e s0 (s\<lparr>ns_sys := w\<rparr>)"

lemma net_reach_ok:
  assumes "net_reach p U N fds e s0 s" "socket_laws N fds" "net_ok N fds e s0"
    and "unat (net_buffer_size (ne_config e)) < 2 ^ 63"
  shows "net_ok N fds e s"
  using assms(1)
proof induction
  case start
  then show ?case by (rule assms(3))
next
  case (call s c call)
  show ?case
    using net_perform_ok [OF assms(2) call.IH net_ok_safe [OF call.IH call.hyps(2)] assms(4) call.hyps(3)]
    by simp
qed (simp_all add: net_ok_def conns_ok_def)

end
