(* ===== verification/Net_Correctness.thy ===== *)
theory Net_Correctness
  imports Net_Operations Ring_Demo
begin

text \<open>
  The properties of the network engine, and a small network that keeps the laws the engine
  relies on.
\<close>

subsection \<open>A network\<close>

text \<open>
  The system is the list of open descriptors; a socket is its descriptor; a call moves at
  most two bytes; whoever connects to a listener has the address of its descriptor.
\<close>

type_synonym demo_sockets = "fd list"

definition fresh_fd :: "demo_sockets \<Rightarrow> fd" where
  "fresh_fd w = 1 + foldr max w 0"

definition demo_net :: "(fd, fd, nat, demo_sockets) uring_net" where
  "demo_net =
     \<lparr>un_local_addr = (\<lambda>f w. if f \<in> set w then Some 0 else None),
      un_bind = (\<lambda>a w. (Some (fresh_fd w), fresh_fd w # w)),
      un_accept = (\<lambda>l w. (Some (fresh_fd w, nat (fresh_fd w)), fresh_fd w # w)),
      un_connect = (\<lambda>a w. (if a = 0 then None else Some (fresh_fd w), if a = 0 then w else fresh_fd w # w)),
      un_read = (\<lambda>f buf w. ((Some (min 2 (length buf)), map (\<lambda>_. 7) buf), w)),
      un_write = (\<lambda>f data w. (Some (min 2 (length data)), w)),
      un_raw_fd = (\<lambda>f. f),
      un_listener_fd = (\<lambda>f. f),
      un_close = removeAll,
      un_addr_text = (\<lambda>a. [of_nat a])\<rparr>"

lemma fresh_fd_new: "fresh_fd w \<notin> set w"
proof -
  have "x \<le> foldr max w 0" if "x \<in> set w" for x using that by (induction w) auto
  then show ?thesis by (force simp: fresh_fd_def)
qed

lemma demo_net_laws: "socket_laws demo_net set"
  unfolding socket_laws_def demo_net_def using fresh_fd_new
  by (auto simp: set_eq_iff split: if_splits)

definition demo_net_config :: NetworkConfig where
  "demo_net_config = \<lparr>net_queue_depth = 256, net_buffer_size = 8\<rparr>"

text \<open>An engine on the ring of \<open>Ring_Demo\<close>; a listener with descriptor 3 is open.\<close>

definition demo_net_engine :: NetworkEngine where
  "demo_net_engine = \<lparr>ne_config = demo_net_config, ne_ring = demo_ring\<rparr>"

definition demo_net_state :: "(fd, nat, demo_sockets) net_state" where
  "demo_net_state = \<lparr>ns_conns = [], ns_poisoned = False, ns_mem = demo_mem, ns_sys = [3]\<rparr>"

lemma demo_ring_safe: "ring_safe demo_ring demo_mem"
  using ring_wfD(1,4) [OF demo_created(2)] by (simp add: ring_safe_def)

lemma demo_ctx_safe: "safe_env fixed_fields demo_ring (wc_env demo_ctx)"
  by (simp add: safe_env_def demo_ctx_def demo_env_def)

lemma demo_net_ok: "net_ok demo_net set demo_net_engine demo_net_state"
  "net_safe demo_ctx demo_net_engine demo_net_state"
  using demo_ring_safe demo_ctx_safe
  by (simp_all add: net_ok_def net_safe_def demo_net_engine_def demo_net_state_def conns_ok_def conn_fds_def)

lemma demo_net_ok_safe:
  "net_ok demo_net set demo_net_engine s \<Longrightarrow> net_safe demo_ctx demo_net_engine s"
  using demo_ctx_safe by (simp add: net_ok_def net_safe_def demo_net_engine_def)

text \<open>Connecting to an address other than 0 succeeds.\<close>

lemma demo_connect:
  assumes "net_ok demo_net set demo_net_engine s" "a \<noteq> 0"
  obtains m where
    "net_connect Debug demo_uuid demo_ctx demo_net demo_net_engine a s =
       (Ok (fresh_fd (ns_sys s)), insert_conn demo_net a (fresh_fd (ns_sys s))
          (s\<lparr>ns_sys := fresh_fd (ns_sys s) # ns_sys s\<rparr>)\<lparr>ns_mem := m\<rparr>)"
    "net_ok demo_net set demo_net_engine (insert_conn demo_net a (fresh_fd (ns_sys s))
          (s\<lparr>ns_sys := fresh_fd (ns_sys s) # ns_sys s\<rparr>)\<lparr>ns_mem := m\<rparr>)"
  by (rule net_connect_cases [OF demo_net_laws assms(1) demo_net_ok_safe [OF assms(1)], of a Debug demo_uuid])
    (use assms(2) in \<open>auto simp: demo_net_def intro: that\<close>)

lemma demo_first_connect:
  obtains s1 where
    "net_connect Debug demo_uuid demo_ctx demo_net demo_net_engine 2 demo_net_state = (Ok 4, s1)"
    "net_ok demo_net set demo_net_engine s1" "ns_conns s1 = [(2, 4)]" "ns_sys s1 = [4, 3]"
proof -
  have x: "(2 :: nat) \<noteq> 0" by simp
  have f: "fresh_fd (ns_sys demo_net_state) = 4" by (simp add: demo_net_state_def fresh_fd_def)
  obtain m where m: "net_connect Debug demo_uuid demo_ctx demo_net demo_net_engine 2 demo_net_state =
      (Ok 4, insert_conn demo_net 2 4 (demo_net_state\<lparr>ns_sys := 4 # ns_sys demo_net_state\<rparr>)\<lparr>ns_mem := m\<rparr>)"
    "net_ok demo_net set demo_net_engine
      (insert_conn demo_net 2 4 (demo_net_state\<lparr>ns_sys := 4 # ns_sys demo_net_state\<rparr>)\<lparr>ns_mem := m\<rparr>)"
    by (rule demo_connect [OF demo_net_ok(1) x, unfolded f]) (rule that)
  show ?thesis by (rule that [OF m]) (simp_all add: insert_conn_def demo_net_state_def)
qed

subsection \<open>Properties\<close>

text \<open>
  C11: An engine whose calls run one at a time, each to its end, from its creation on, with
  other processes writing to the ring and the program opening and closing other descriptors
  in between, and that never accepts on the descriptor of one of its cached connections
  (accepting closes what it is given): its lock is not poisoned, the cache holds each
  address and each descriptor once, every cached descriptor is open, and the next such call
  returns a value or an error, or is an \<open>accept\<close> of the descriptor -1, which panics. What
  overlapping calls do is the subject of \<open>Net_Executor\<close>.
\<close>

theorem net_cache_stays_consistent:
  assumes "socket_laws N fds" "ring_safe rb m" "unat (net_buffer_size cfg) < 2 ^ 63"
    and "net_new cfg rb m w = (e, s0)" "net_reach p U N fds e s0 s"
    and "safe_env fixed_fields rb (wc_env c)" "call_allowed N (ns_conns s) call"
  shows "\<not> ns_poisoned s \<and> distinct (map fst (ns_conns s)) \<and>
    distinct (map (\<lambda>x. un_raw_fd N (snd x)) (ns_conns s)) \<and>
    set (map (\<lambda>x. un_raw_fd N (snd x)) (ns_conns s)) \<subseteq> fds (ns_sys s) \<and>
    (returned (fst (net_perform p U c N e call s)) \<or>
     call = CallAccept (-1) \<and> fst (net_perform p U c N e call s) = Panic AssertionFailed)"
proof -
  have e: "e = \<lparr>ne_config = cfg, ne_ring = rb\<rparr>" using assms(4) by (simp add: net_new_def)
  have "net_ok N fds e s0"
    using assms(2,4) by (auto simp: net_new_def net_ok_def conns_ok_def conn_fds_def)
  moreover have size: "unat (net_buffer_size (ne_config e)) < 2 ^ 63" using assms(3) by (simp add: e)
  ultimately have ok: "net_ok N fds e s" by (rule net_reach_ok [OF assms(5,1)])
  have safe: "net_safe c e s" by (rule net_ok_safe [OF ok]) (simp add: e assms(6))
  show ?thesis
    using net_perform_ok [OF assms(1) ok safe size assms(7), of p U] ok
    by (simp add: net_ok_def conns_ok_def conn_fds_def)
qed

theorem net_cache_stays_consistent_demo:
  "returned (fst (net_perform Debug demo_uuid demo_ctx demo_net demo_net_engine (CallClose 4)
     (snd (net_perform Debug demo_uuid demo_ctx demo_net demo_net_engine (CallConnect 1)
        \<lparr>ns_conns = [], ns_poisoned = False, ns_mem = demo_mem, ns_sys = [3]\<rparr>))))"
proof -
  let ?s0 = "\<lparr>ns_conns = [], ns_poisoned = False, ns_mem = demo_mem, ns_sys = [3]\<rparr> :: (fd, nat, demo_sockets) net_state"
  have new: "net_new demo_net_config demo_ring demo_mem [3] = (demo_net_engine, ?s0)"
    by (simp add: net_new_def demo_net_engine_def)
  have safe: "safe_env fixed_fields (ne_ring demo_net_engine) (wc_env demo_ctx)"
    using demo_ctx_safe by (simp add: demo_net_engine_def)
  have size: "unat (net_buffer_size demo_net_config) < 2 ^ 63" by (simp add: demo_net_config_def)
  have reach: "net_reach Debug demo_uuid demo_net set demo_net_engine ?s0
      (snd (net_perform Debug demo_uuid demo_ctx demo_net demo_net_engine (CallConnect 1) ?s0))"
    by (rule net_reach.call [OF net_reach.start safe]) simp
  show ?thesis
    using net_cache_stays_consistent [OF demo_net_laws demo_ring_safe size new reach demo_ctx_safe, of "CallClose 4"]
    by simp
qed

text \<open>
  C17: Connecting to an address that has a connection drops that connection: its
  descriptor is closed, and reads from it fail from then on as if it had never existed.
  The cache keeps the other connections.
\<close>

theorem reconnect_drops_the_first:
  assumes "socket_laws N fds" "net_ok N fds e s" "safe_env fixed_fields (ne_ring e) (wc_env c)"
    and "map_of (ns_conns s) a = Some old" "net_connect p U c N e a s = (Ok f, s1)"
  shows "un_raw_fd N old \<notin> fds (ns_sys s1) \<and> f \<in> fds (ns_sys s1) \<and>
    net_read p U d N e (un_raw_fd N old) s1 = (Err (NoConnection (un_raw_fd N old)), s1) \<and>
    (\<exists>st. un_raw_fd N st = f \<and> map_of (ns_conns s1) = (map_of (ns_conns s))(a \<mapsto> st))"
proof (rule net_connect_cases [OF assms(1,2) net_ok_safe [OF assms(2,3)], of a p U])
  fix st w m
  let ?s = "s\<lparr>ns_sys := w\<rparr>"
  assume c: "un_connect N a (ns_sys s) = (Some st, w)"
    and r: "net_connect p U c N e a s = (Ok (un_raw_fd N st), insert_conn N a st ?s\<lparr>ns_mem := m\<rparr>)"
    and ok: "net_ok N fds e (insert_conn N a st ?s\<lparr>ns_mem := m\<rparr>)"
  have s1: "s1 = insert_conn N a st ?s\<lparr>ns_mem := m\<rparr>" "f = un_raw_fd N st" using r assms(5) by simp_all
  note new = socket_lawsD(2) [OF assms(1) c]
  have cs: "conns_ok N fds (ns_conns ?s) (ns_sys s)" using assms(2) by (simp add: net_ok_def)
  note ins = insert_conn_ok [OF assms(1) cs, of st a]
  have gone: "un_raw_fd N old \<notin> fds (ns_sys s1)"
    using ins(3) [of old] new assms(4) by (simp add: s1)
  have cs1: "conns_ok N fds (ns_conns s1) (ns_sys s1)" "\<not> ns_poisoned s1"
    using ok s1(1) by (simp_all add: net_ok_def)
  have m: "map_of (ns_conns s1) = (map_of (ns_conns s))(a \<mapsto> st)"
    using ins(2) new by (simp add: s1)
  then have "(a, st) \<in> set (ns_conns s1)" by (simp add: map_of_SomeD)
  then have "f \<in> set (conn_fds N (ns_conns s1))" by (force simp: s1(2) conn_fds_def)
  then have f: "f \<in> fds (ns_sys s1)" using cs1(1) by (auto simp: conns_ok_def)
  have "un_raw_fd N old \<notin> set (conn_fds N (ns_conns s1))" using gone cs1(1) by (auto simp: conns_ok_def)
  then show ?thesis using gone f m net_unknown_fd(1) [OF cs1(2)] s1(2) by blast
qed (use assms(5) in simp)

theorem reconnect_drops_the_first_demo:
  "\<exists>s1 s2. net_connect Debug demo_uuid demo_ctx demo_net demo_net_engine 2 demo_net_state = (Ok 4, s1) \<and>
    net_connect Debug demo_uuid demo_ctx demo_net demo_net_engine 2 s1 = (Ok 5, s2) \<and>
    net_read Debug demo_uuid demo_ctx demo_net demo_net_engine 4 s2 = (Err (NoConnection 4), s2)"
proof -
  obtain s1 where s1: "net_connect Debug demo_uuid demo_ctx demo_net demo_net_engine 2 demo_net_state = (Ok 4, s1)"
    "net_ok demo_net set demo_net_engine s1" "ns_conns s1 = [(2, 4)]" "ns_sys s1 = [4, 3]"
    by (rule demo_first_connect)
  have x: "(2 :: nat) \<noteq> 0" by simp
  obtain s2 where s2: "net_connect Debug demo_uuid demo_ctx demo_net demo_net_engine 2 s1 = (Ok 5, s2)"
    by (rule demo_connect [OF s1(2) x]) (use that s1(4) in \<open>simp add: fresh_fd_def\<close>)
  have old: "map_of (ns_conns s1) 2 = Some 4" by (simp add: s1(3))
  have safe: "safe_env fixed_fields (ne_ring demo_net_engine) (wc_env demo_ctx)"
    using demo_ctx_safe by (simp add: demo_net_engine_def)
  show ?thesis
    using reconnect_drops_the_first [OF demo_net_laws s1(2) safe old s2, of demo_ctx] s1(1) s2
    by (auto simp: demo_net_def)
qed

text \<open>
  C20: \<open>accept\<close> consumes the listener it is given: on success and on every error the
  descriptor is closed afterwards, so accepting from it a second time fails.
\<close>

theorem accept_consumes_the_listener:
  assumes "socket_laws N fds" "net_ok N fds e s" "safe_env fixed_fields (ne_ring e) (wc_env c)"
    and "f \<notin> set (conn_fds N (ns_conns s))" "f \<noteq> -1"
    and "net_accept p U c N e f s = (r, s1)"
  shows "returned r \<and> f \<notin> fds (ns_sys s1) \<and> fst (net_accept p U d N e f s1) = Err LocalAddrFailed"
proof -
  have "returned r \<and> f \<notin> fds (ns_sys s1)"
    by (rule net_accept_cases [OF assms(1,2) net_ok_safe [OF assms(2,3)] assms(4,5), of p U])
      (use assms(6) in auto)
  moreover from this have "un_local_addr N f (ns_sys s1) = None"
    using socket_lawsD(11) [OF assms(1)] by blast
  ultimately show ?thesis using assms(5) by (simp add: net_accept_def)
qed

theorem accept_consumes_the_listener_demo:
  "fst (net_accept Debug demo_uuid demo_ctx demo_net demo_net_engine 3 demo_net_state) \<noteq> Err LocalAddrFailed \<and>
   fst (net_accept Debug demo_uuid demo_ctx demo_net demo_net_engine 3
     (snd (net_accept Debug demo_uuid demo_ctx demo_net demo_net_engine 3 demo_net_state))) = Err LocalAddrFailed"
proof -
  have safe: "safe_env fixed_fields (ne_ring demo_net_engine) (wc_env demo_ctx)"
    using demo_ctx_safe by (simp add: demo_net_engine_def)
  let ?s = "demo_net_state\<lparr>ns_sys := [5, 4, 3]\<rparr>"
  have s: "net_safe demo_ctx demo_net_engine ?s" using demo_net_ok(2) by simp
  obtain m where "store_and_notify Debug demo_uuid demo_ctx demo_net demo_net_engine NetworkReceive 5 5 ?s =
      (Ok (), insert_conn demo_net 5 5 ?s\<lparr>ns_mem := m\<rparr>)"
    by (rule store_and_notify_outcome [OF s]) (rule that)
  then obtain s1 where
    a: "net_accept Debug demo_uuid demo_ctx demo_net demo_net_engine 3 demo_net_state = (Ok (5, 5), s1)"
    by (simp add: net_accept_def demo_net_def demo_net_state_def fresh_fd_def Let_def)
  show ?thesis
    using accept_consumes_the_listener [OF demo_net_laws demo_net_ok(1) safe _ _ a, of demo_ctx] a
    by (simp add: demo_net_state_def conn_fds_def)
qed

text \<open>
  C19: The descriptor that connecting returns leads to the socket that was connected: a
  write hands the data to that socket and reports what it reports, a read returns the bytes
  it delivers, and both are announced with the address of the peer when they succeed.
\<close>

theorem connection_reaches_its_socket:
  assumes "socket_laws N fds" "net_ok N fds e s" "safe_env fixed_fields (ne_ring e) (wc_env c)"
    and "unat (net_buffer_size (ne_config e)) < 2 ^ 63" "net_connect p U c N e a s = (Ok f, s1)"
  shows "\<exists>st. fst (un_connect N a (ns_sys s)) = Some st \<and> un_raw_fd N st = f \<and>
    (case un_write N st data (ns_sys s1) of
       (None, w) \<Rightarrow> net_write p U c N e f data s1 = (Err SocketWriteFailed, s1\<lparr>ns_sys := w\<rparr>)
     | (Some n, w) \<Rightarrow> \<exists>m. net_write p U c N e f data s1 = (Ok n, s1\<lparr>ns_sys := w, ns_mem := m\<rparr>) \<and>
         announced (ne_ring e) (NetworkSend, un_addr_text N a) (ns_mem s1) m) \<and>
    (case un_read N st (replicate (unat (net_buffer_size (ne_config e))) 0) (ns_sys s1) of
       ((None, buf), w) \<Rightarrow> net_read p U c N e f s1 = (Err SocketReadFailed, s1\<lparr>ns_sys := w\<rparr>)
     | ((Some n, buf), w) \<Rightarrow> \<exists>m. net_read p U c N e f s1 = (Ok (take n buf), s1\<lparr>ns_sys := w, ns_mem := m\<rparr>) \<and>
         announced (ne_ring e) (NetworkReceive, un_addr_text N a) (ns_mem s1) m)"
proof (rule net_connect_cases [OF assms(1,2) net_ok_safe [OF assms(2,3)], of a p U])
  fix st w m
  assume c: "un_connect N a (ns_sys s) = (Some st, w)"
    and r: "net_connect p U c N e a s = (Ok (un_raw_fd N st), insert_conn N a st (s\<lparr>ns_sys := w\<rparr>)\<lparr>ns_mem := m\<rparr>)"
    and ok: "net_ok N fds e (insert_conn N a st (s\<lparr>ns_sys := w\<rparr>)\<lparr>ns_mem := m\<rparr>)"
  have s1: "s1 = insert_conn N a st (s\<lparr>ns_sys := w\<rparr>)\<lparr>ns_mem := m\<rparr>" and f: "f = un_raw_fd N st"
    using r assms(5) by simp_all
  have ok1: "net_ok N fds e s1" using ok by (simp add: s1)
  note safe = net_ok_safe [OF ok1 assms(3)]
  have st: "map_of (ns_conns s1) a = Some st" by (simp add: s1 insert_conn_def update_conv')
  have wr: "case un_write N st data (ns_sys s1) of
       (None, w) \<Rightarrow> net_write p U c N e f data s1 = (Err SocketWriteFailed, s1\<lparr>ns_sys := w\<rparr>)
     | (Some n, w) \<Rightarrow> \<exists>m. net_write p U c N e f data s1 = (Ok n, s1\<lparr>ns_sys := w, ns_mem := m\<rparr>) \<and>
         announced (ne_ring e) (NetworkSend, un_addr_text N a) (ns_mem s1) m"
    using net_write_cached [OF ok1 safe st, where p = p and U = U and data = data]
    by (auto simp: f split: prod.split option.split)
  have rd: "case un_read N st (replicate (unat (net_buffer_size (ne_config e))) 0) (ns_sys s1) of
       ((None, buf), w) \<Rightarrow> net_read p U c N e f s1 = (Err SocketReadFailed, s1\<lparr>ns_sys := w\<rparr>)
     | ((Some n, buf), w) \<Rightarrow> \<exists>m. net_read p U c N e f s1 = (Ok (take n buf), s1\<lparr>ns_sys := w, ns_mem := m\<rparr>) \<and>
         announced (ne_ring e) (NetworkReceive, un_addr_text N a) (ns_mem s1) m"
    using net_read_cached [OF assms(1) ok1 safe assms(4) st, where p = p and U = U]
    by (auto simp: f split: prod.split option.split)
  show ?thesis using c f wr rd by auto
qed (use assms(5) in simp)

theorem connection_reaches_its_socket_demo:
  "\<exists>s1 s2. net_connect Debug demo_uuid demo_ctx demo_net demo_net_engine 2 demo_net_state = (Ok 4, s1) \<and>
    net_write Debug demo_uuid demo_ctx demo_net demo_net_engine 4 [1, 2, 3] s1 = (Ok 2, s2)"
proof -
  obtain s1 where s1:
    "net_connect Debug demo_uuid demo_ctx demo_net demo_net_engine 2 demo_net_state = (Ok 4, s1)"
    by (rule demo_first_connect)
  have safe: "safe_env fixed_fields (ne_ring demo_net_engine) (wc_env demo_ctx)"
    "unat (net_buffer_size (ne_config demo_net_engine)) < 2 ^ 63"
    using demo_ctx_safe by (simp_all add: demo_net_engine_def demo_net_config_def)
  show ?thesis
    using connection_reaches_its_socket [OF demo_net_laws demo_net_ok(1) safe s1, of "[1, 2, 3]"] s1
    by (auto simp: demo_net_def)
qed

text \<open>
  C21: Closing a descriptor closes its connection and no other: the descriptor is closed,
  its address leaves the cache, the close is announced, and from then on reading, writing
  and closing again treat the descriptor as unknown. Closing an unknown descriptor succeeds
  and changes nothing.
\<close>

theorem close_removes_one_connection:
  assumes "socket_laws N fds" "net_ok N fds e s" "safe_env fixed_fields (ne_ring e) (wc_env c)"
    and "net_close p U c N e f s = (r, s1)"
  shows "r = Ok () \<and> fds (ns_sys s1) = (if f \<in> set (conn_fds N (ns_conns s))
      then fds (ns_sys s) - {f} else fds (ns_sys s)) \<and>
    (case find_addr N f (ns_conns s) of
       None \<Rightarrow> s1 = s
     | Some a \<Rightarrow> map_of (ns_conns s1) = (map_of (ns_conns s))(a := None) \<and>
         announced (ne_ring e) (NetworkClose, un_addr_text N a) (ns_mem s) (ns_mem s1)) \<and>
    net_read p U d N e f s1 = (Err (NoConnection f), s1) \<and>
    net_write p U d N e f data s1 = (Err (NoConnection f), s1) \<and>
    net_close p U d N e f s1 = (Ok (), s1)"
proof -
  have p: "\<not> ns_poisoned s" "conns_ok N fds (ns_conns s) (ns_sys s)"
    using assms(2) by (simp_all add: net_ok_def)
  show ?thesis
  proof (cases "find_addr N f (ns_conns s)")
    case None
    then have f: "f \<notin> set (conn_fds N (ns_conns s))" by (simp add: find_addr_None)
    have "r = Ok ()" "s1 = s" using net_unknown_fd(3) [OF p(1) f, of p U c e] assms(4) by simp_all
    then show ?thesis using f None by (simp add: net_unknown_fd [OF p(1) f])
  next
    case (Some a)
    obtain m where m: "net_close p U c N e f s = (Ok (), remove_conn N a s\<lparr>ns_mem := m\<rparr>)"
      "net_ok N fds e (remove_conn N a s\<lparr>ns_mem := m\<rparr>)"
      "announced (ne_ring e) (NetworkClose, un_addr_text N a) (ns_mem s) m"
      by (rule net_close_known [OF assms(1,2) net_ok_safe [OF assms(2,3)] Some]) (rule that)
    have s1: "r = Ok ()" "s1 = remove_conn N a s\<lparr>ns_mem := m\<rparr>" using m(1) assms(4) by simp_all
    note rm = remove_conn_ok [OF assms(1) p(2) Some]
    have known: "f \<in> set (conn_fds N (ns_conns s))"
      using Some find_addr_None [of N f "ns_conns s"] by auto
    have gone: "f \<notin> set (conn_fds N (ns_conns s1))" "\<not> ns_poisoned s1"
      using rm(2) p(1) by (simp_all add: s1 find_addr_None)
    show ?thesis
      using net_unknown_fd [OF gone(2,1), of p U d e] rm(3,4) m(3) known by (simp add: s1 Some)
  qed
qed

theorem close_removes_one_connection_demo:
  "\<exists>s1 s2. net_connect Debug demo_uuid demo_ctx demo_net demo_net_engine 2 demo_net_state = (Ok 4, s1) \<and>
    net_close Debug demo_uuid demo_ctx demo_net demo_net_engine 4 s1 = (Ok (), s2) \<and>
    set (ns_sys s2) = {3} \<and> map_of (ns_conns s2) = (\<lambda>_. None)"
proof -
  obtain s1 where s1:
    "net_connect Debug demo_uuid demo_ctx demo_net demo_net_engine 2 demo_net_state = (Ok 4, s1)"
    "net_ok demo_net set demo_net_engine s1" "ns_conns s1 = [(2, 4)]" "ns_sys s1 = [4, 3]"
    by (rule demo_first_connect)
  have safe: "safe_env fixed_fields (ne_ring demo_net_engine) (wc_env demo_ctx)"
    using demo_ctx_safe by (simp add: demo_net_engine_def)
  obtain r s2 where c: "net_close Debug demo_uuid demo_ctx demo_net demo_net_engine 4 s1 = (r, s2)" by fastforce
  show ?thesis
    using close_removes_one_connection [OF demo_net_laws s1(2) safe c, of demo_ctx "[]"] s1(1) c
    by (auto simp: s1(3,4) demo_net_def conn_fds_def fun_eq_iff)
qed

end
