(* ===== verification/End_To_End.thy ===== *)
theory End_To_End
  imports Std_Tools Net_Correctness
begin

text \<open>
  The end-to-end example (\<open>examples/end_to_end.rs\<close>): a client task reads a file with its disk
  engine and sends it with its network engine, a server task receives it and writes it to
  another file, and the program compares the files. The two tasks are interleaved by a
  schedule, one call of an engine at a time, over one file system and one network. The
  fields \<open>worker_threads\<close>, \<open>pin_threads\<close> and \<open>numa_node\<close> that the example sets do not exist in
  the configurations of these engines; sleeps and printing are left out.
\<close>

subsection \<open>Files\<close>

definition TEST_FILE_PATH :: path where "TEST_FILE_PATH = map of_char ''/tmp/elgate_test_source_file''"
definition OUTPUT_FILE_PATH :: path where "OUTPUT_FILE_PATH = map of_char ''/tmp/elgate_test_output_file''"
definition RING_PATH_SERVER :: path where "RING_PATH_SERVER = map of_char ''/tmp/elgate_server_ring''"
definition RING_PATH_CLIENT :: path where "RING_PATH_CLIENT = map of_char ''/tmp/elgate_client_ring''"

definition cleanup :: "file_system \<Rightarrow> file_system" where
  "cleanup fs = std_remove RING_PATH_CLIENT (std_remove RING_PATH_SERVER
     (std_remove OUTPUT_FILE_PATH (std_remove TEST_FILE_PATH fs)))"

definition pattern :: "nat \<Rightarrow> u8 list" where
  "pattern n = map (\<lambda>i. of_nat (i mod 256)) [0..<n]"

definition create_test_file :: "path \<Rightarrow> nat \<Rightarrow> file_system \<Rightarrow> bool \<times> file_system" where
  "create_test_file q n fs =
     (case std_create q fs of
        (None, fs1) \<Rightarrow> (False, fs1)
      | (Some f, fs1) \<Rightarrow>
          (case std_write_all (pattern n) f fs1 of
             (False, fs2) \<Rightarrow> (False, fs2)
           | (True, fs2) \<Rightarrow> std_sync_all f fs2))"

datatype e2e_error = RingError ring_error | DiskError disk_error | NetError net_error
  | FileError | BindError | FilesDiffer nat nat

definition verify_files :: "path \<Rightarrow> path \<Rightarrow> file_system \<Rightarrow> (e2e_error, unit) outcome \<times> file_system" where
  "verify_files original copy fs =
     (case std_open original fs of
        (None, fs1) \<Rightarrow> (Err FileError, fs1)
      | (Some f, fs1) \<Rightarrow>
          (case std_open copy fs1 of
             (None, fs2) \<Rightarrow> (Err FileError, fs2)
           | (Some g, fs2) \<Rightarrow>
               (case std_read_to_end f fs2 of
                  (None, fs3) \<Rightarrow> (Err FileError, fs3)
                | (Some original_data, fs3) \<Rightarrow>
                    (case std_read_to_end g fs3 of
                       (None, fs4) \<Rightarrow> (Err FileError, fs4)
                     | (Some copy_data, fs4) \<Rightarrow>
                         (if original_data = copy_data then Ok ()
                          else Err (FilesDiffer (length original_data) (length copy_data)), fs4)))))"

subsection \<open>The engines of one side\<close>

definition side_options :: "string \<Rightarrow> ring_options" where
  "side_options path = \<lparr>opt_path = path, opt_size = 4 * 1024 * 1024, opt_slot_size = 64 * 1024\<rparr>"

definition side_disk_config :: DiskConfig where
  "side_disk_config = \<lparr>queue_depth = 32, buffer_size = 64 * 1024\<rparr>"

definition side_net_config :: NetworkConfig where
  "side_net_config = \<lparr>net_queue_depth = 32, net_buffer_size = 64 * 1024\<rparr>"

text \<open>Both engines of a side announce in the same ring.\<close>

record ('h, 's, 'a) side =
  sd_ring :: ring_buffer
  sd_mem :: mem
  sd_handles :: "path \<Rightarrow> 'h option"
  sd_disk_poisoned :: bool
  sd_conns :: "('a \<times> 's) list"
  sd_net_poisoned :: bool

definition disk_engine_of :: "('h, 's, 'a) side \<Rightarrow> DiskEngine" where
  "disk_engine_of sd = \<lparr>de_config = side_disk_config, de_ring = sd_ring sd\<rparr>"

definition net_engine_of :: "('h, 's, 'a) side \<Rightarrow> NetworkEngine" where
  "net_engine_of sd = \<lparr>ne_config = side_net_config, ne_ring = sd_ring sd\<rparr>"

definition side_create ::
  "profile \<Rightarrow> os \<Rightarrow> 'u uuid_crate \<Rightarrow> clock \<Rightarrow> string \<Rightarrow> (e2e_error, ('h, 's, 'a) side) outcome" where
  "side_create p W U now path =
     (case ring_create p W U now (side_options path) of
        Ok (rb, m) \<Rightarrow> Ok \<lparr>sd_ring = rb, sd_mem = m, sd_handles = (\<lambda>_. None), sd_disk_poisoned = False,
          sd_conns = [], sd_net_poisoned = False\<rparr>
      | Err e \<Rightarrow> Err (RingError e) | Panic e \<Rightarrow> Panic e | UB \<Rightarrow> UB)"

definition on_disk ::
  "(('h, file_system) disk_state \<Rightarrow> (disk_error, 'b) outcome \<times> ('h, file_system) disk_state)
    \<Rightarrow> ('h, 's, 'a) side \<Rightarrow> file_system \<Rightarrow> (e2e_error, 'b) outcome \<times> ('h, 's, 'a) side \<times> file_system" where
  "on_disk f sd fs =
     (case f \<lparr>ds_handles = sd_handles sd, ds_poisoned = sd_disk_poisoned sd, ds_mem = sd_mem sd, ds_files = fs\<rparr> of
        (r, s) \<Rightarrow>
          (case r of Ok x \<Rightarrow> Ok x | Err e \<Rightarrow> Err (DiskError e) | Panic e \<Rightarrow> Panic e | UB \<Rightarrow> UB,
           sd\<lparr>sd_handles := ds_handles s, sd_disk_poisoned := ds_poisoned s, sd_mem := ds_mem s\<rparr>,
           ds_files s))"

definition on_net ::
  "(('s, 'a, 'w) net_state \<Rightarrow> (net_error, 'b) outcome \<times> ('s, 'a, 'w) net_state)
    \<Rightarrow> ('h, 's, 'a) side \<Rightarrow> 'w \<Rightarrow> (e2e_error, 'b) outcome \<times> ('h, 's, 'a) side \<times> 'w" where
  "on_net f sd w =
     (case f \<lparr>ns_conns = sd_conns sd, ns_poisoned = sd_net_poisoned sd, ns_mem = sd_mem sd, ns_sys = w\<rparr> of
        (r, s) \<Rightarrow>
          (case r of Ok x \<Rightarrow> Ok x | Err e \<Rightarrow> Err (NetError e) | Panic e \<Rightarrow> Panic e | UB \<Rightarrow> UB,
           sd\<lparr>sd_conns := ns_conns s, sd_net_poisoned := ns_poisoned s, sd_mem := ns_mem s\<rparr>,
           ns_sys s))"

subsection \<open>The two tasks\<close>

text \<open>What comes next, with the local variables.\<close>

datatype client_point =
    ClientStart
  | ClientConnect
  | ClientReadFile fd
  | ClientSend fd "u8 list list"
  | ClientDone "(e2e_error, unit) outcome"

datatype server_point =
    ServerStart
  | ServerBind
  | ServerAccept fd
  | ServerCollect fd fd "u8 list"
  | ServerWriteFile fd fd "u8 list"
  | ServerClose fd fd
  | ServerDone "(e2e_error, unit) outcome"

record ('h, 's, 'a, 'w) e2e_state =
  x_fs :: file_system
  x_sys :: 'w
  x_client :: "client_point \<times> ('h, 's, 'a) side option"
  x_server :: "server_point \<times> ('h, 's, 'a) side option"

text \<open>The program around the engines: the system, the crates, the contexts of the calls, and
  binding a listener with its descriptor made non-blocking.\<close>

record ('u, 'h, 'l, 's, 'a, 'w) e2e_env =
  y_profile :: profile
  y_os :: os
  y_uuid :: "'u uuid_crate"
  y_now :: clock
  y_ctx :: "'u write_ctx"
  y_files :: "('h, file_system) uring_files"
  y_net :: "('l, 's, 'a, 'w) uring_net"
  y_bind :: "'w \<Rightarrow> fd option \<times> 'w"
  y_addr :: 'a

fun chunks :: "nat \<Rightarrow> 'b list \<Rightarrow> 'b list list" where
  "chunks n xs = (if xs = [] \<or> n = 0 then [] else take n xs # chunks n (drop n xs))"

declare chunks.simps [simp del]

text \<open>An error or a panic ends the task.\<close>

definition go_on :: "(e2e_error, 'b) outcome \<Rightarrow> ((e2e_error, unit) outcome \<Rightarrow> 'p) \<Rightarrow> ('b \<Rightarrow> 'p) \<Rightarrow> 'p" where
  "go_on r stop f = (case r of Ok x \<Rightarrow> f x | Err e \<Rightarrow> stop (Err e) | Panic e \<Rightarrow> stop (Panic e) | UB \<Rightarrow> stop UB)"

definition client_step ::
  "('u, 'h, 'l, 's, 'a, 'w) e2e_env \<Rightarrow> ('h, 's, 'a, 'w) e2e_state \<Rightarrow> ('h, 's, 'a, 'w) e2e_state" where
  "client_step Y x =
     (let p = y_profile Y; U = y_uuid Y; c = y_ctx Y; N = y_net Y in
      case x_client x of
        (ClientStart, _) \<Rightarrow>
          (case side_create p (y_os Y) U (y_now Y) ''/tmp/elgate_client_ring'' of
             Ok sd \<Rightarrow> x\<lparr>x_client := (ClientConnect, Some sd)\<rparr>
           | Err e \<Rightarrow> x\<lparr>x_client := (ClientDone (Err e), None)\<rparr>
           | Panic e \<Rightarrow> x\<lparr>x_client := (ClientDone (Panic e), None)\<rparr>
           | UB \<Rightarrow> x\<lparr>x_client := (ClientDone UB, None)\<rparr>)
      | (ClientConnect, Some sd) \<Rightarrow>
          (case on_net (net_connect p U c N (net_engine_of sd) (y_addr Y)) sd (x_sys x) of (r, sd1, w) \<Rightarrow>
             x\<lparr>x_sys := w, x_client := (go_on r ClientDone ClientReadFile, Some sd1)\<rparr>)
      | (ClientReadFile fd, Some sd) \<Rightarrow>
          (case on_disk (read_file p U c (y_files Y) (disk_engine_of sd) TEST_FILE_PATH 0) sd (x_fs x) of (r, sd1, fs) \<Rightarrow>
             x\<lparr>x_fs := fs, x_client := (go_on r ClientDone (\<lambda>data. ClientSend fd (chunks 8192 data)), Some sd1)\<rparr>)
      | (ClientSend fd (chunk # rest), Some sd) \<Rightarrow>
          (case on_net (net_write p U c N (net_engine_of sd) fd chunk) sd (x_sys x) of (r, sd1, w) \<Rightarrow>
             x\<lparr>x_sys := w, x_client := (go_on r ClientDone (\<lambda>_. ClientSend fd rest), Some sd1)\<rparr>)
      | (ClientSend fd [], Some sd) \<Rightarrow>
          (case on_net (net_close p U c N (net_engine_of sd) fd) sd (x_sys x) of (r, sd1, w) \<Rightarrow>
             x\<lparr>x_sys := w, x_client := (ClientDone r, Some sd1)\<rparr>)
      | _ \<Rightarrow> x)"

text \<open>
  The listener is still owned by the task when \<open>accept\<close> has closed its descriptor: it closes
  it once more when it ends, and drops the engine after it.
\<close>

definition server_end ::
  "('u, 'h, 'l, 's, 'a, 'w) e2e_env \<Rightarrow> fd \<Rightarrow> (e2e_error, unit) outcome \<Rightarrow> ('h, 's, 'a) side \<Rightarrow> 'w
    \<Rightarrow> ('h, 's, 'a, 'w) e2e_state \<Rightarrow> ('h, 's, 'a, 'w) e2e_state" where
  "server_end Y lfd r sd w x =
     (case on_net (net_drop (y_net Y)) sd (un_close (y_net Y) lfd w) of (_, sd1, w1) \<Rightarrow>
        x\<lparr>x_sys := w1, x_server := (ServerDone r, Some sd1)\<rparr>)"

definition server_next ::
  "('u, 'h, 'l, 's, 'a, 'w) e2e_env \<Rightarrow> fd \<Rightarrow> (e2e_error, 'b) outcome \<times> ('h, 's, 'a) side \<times> 'w
    \<Rightarrow> ('b \<Rightarrow> server_point) \<Rightarrow> ('h, 's, 'a, 'w) e2e_state \<Rightarrow> ('h, 's, 'a, 'w) e2e_state" where
  "server_next Y lfd = (\<lambda>(r, sd, w) f x.
     (case r of Ok v \<Rightarrow> x\<lparr>x_sys := w, x_server := (f v, Some sd)\<rparr>
      | Err e \<Rightarrow> server_end Y lfd (Err e) sd w x
      | Panic e \<Rightarrow> server_end Y lfd (Panic e) sd w x
      | UB \<Rightarrow> server_end Y lfd UB sd w x))"

definition server_step ::
  "('u, 'h, 'l, 's, 'a, 'w) e2e_env \<Rightarrow> ('h, 's, 'a, 'w) e2e_state \<Rightarrow> ('h, 's, 'a, 'w) e2e_state" where
  "server_step Y x =
     (let p = y_profile Y; U = y_uuid Y; c = y_ctx Y; N = y_net Y in
      case x_server x of
        (ServerStart, _) \<Rightarrow>
          (case side_create p (y_os Y) U (y_now Y) ''/tmp/elgate_server_ring'' of
             Ok sd \<Rightarrow> x\<lparr>x_server := (ServerBind, Some sd)\<rparr>
           | Err e \<Rightarrow> x\<lparr>x_server := (ServerDone (Err e), None)\<rparr>
           | Panic e \<Rightarrow> x\<lparr>x_server := (ServerDone (Panic e), None)\<rparr>
           | UB \<Rightarrow> x\<lparr>x_server := (ServerDone UB, None)\<rparr>)
      | (ServerBind, Some sd) \<Rightarrow>
          (case y_bind Y (x_sys x) of
             (None, w) \<Rightarrow> x\<lparr>x_sys := w, x_server := (ServerDone (Err BindError), Some sd)\<rparr>
           | (Some lfd, w) \<Rightarrow> x\<lparr>x_sys := w, x_server := (ServerAccept lfd, Some sd)\<rparr>)
      | (ServerAccept lfd, Some sd) \<Rightarrow>
          server_next Y lfd (on_net (net_accept p U c N (net_engine_of sd) lfd) sd (x_sys x))
            (\<lambda>(client_fd, addr). ServerCollect lfd client_fd []) x
      | (ServerCollect lfd fd all_data, Some sd) \<Rightarrow>
          (case on_net (net_read p U c N (net_engine_of sd) fd) sd (x_sys x) of
             (Ok data, sd1, w) \<Rightarrow>
               x\<lparr>x_sys := w, x_server :=
                 (if data \<noteq> [] then ServerCollect lfd fd (all_data @ data) else ServerWriteFile lfd fd all_data,
                  Some sd1)\<rparr>
           | (Err e, sd1, w) \<Rightarrow> x\<lparr>x_sys := w, x_server := (ServerWriteFile lfd fd all_data, Some sd1)\<rparr>
           | (Panic e, sd1, w) \<Rightarrow> server_end Y lfd (Panic e) sd1 w x
           | (UB, sd1, w) \<Rightarrow> server_end Y lfd UB sd1 w x)
      | (ServerWriteFile lfd fd all_data, Some sd) \<Rightarrow>
          (case on_disk (write_file p U c (y_files Y) (disk_engine_of sd) OUTPUT_FILE_PATH 0 all_data) sd (x_fs x) of
             (r, sd1, fs) \<Rightarrow> server_next Y lfd (r, sd1, x_sys x) (\<lambda>_. ServerClose lfd fd) (x\<lparr>x_fs := fs\<rparr>))
      | (ServerClose lfd fd, Some sd) \<Rightarrow>
          (case on_net (net_close p U c N (net_engine_of sd) fd) sd (x_sys x) of
             (r, sd1, w) \<Rightarrow> server_end Y lfd r sd1 w x)
      | _ \<Rightarrow> x)"

subsection \<open>The program\<close>

definition e2e_run ::
  "('u, 'h, 'l, 's, 'a, 'w) e2e_env \<Rightarrow> bool list \<Rightarrow> ('h, 's, 'a, 'w) e2e_state \<Rightarrow> ('h, 's, 'a, 'w) e2e_state" where
  "e2e_run Y = fold (\<lambda>client. if client then client_step Y else server_step Y)"

text \<open>
  \<open>main\<close>: an error of the client ends it at once, the end of the server is waited for and its
  result is not looked at. \<open>None\<close> means that the schedule ends before the program.
\<close>

definition end_to_end ::
  "('u, 'h, 'l, 's, 'a, 'w) e2e_env \<Rightarrow> bool list \<Rightarrow> file_system \<Rightarrow> 'w
    \<Rightarrow> (e2e_error, unit) outcome option" where
  "end_to_end Y sched fs w =
     (case create_test_file TEST_FILE_PATH (1024 * 1024) (cleanup fs) of
        (False, fs1) \<Rightarrow> Some (Err FileError)
      | (True, fs1) \<Rightarrow>
          let x = e2e_run Y sched \<lparr>x_fs = fs1, x_sys = w, x_client = (ClientStart, None), x_server = (ServerStart, None)\<rparr> in
          (case x_client x of
             (ClientDone (Ok u), _) \<Rightarrow>
               (case x_server x of
                  (ServerDone r, _) \<Rightarrow> Some (fst (verify_files TEST_FILE_PATH OUTPUT_FILE_PATH (x_fs x)))
                | _ \<Rightarrow> None)
           | (ClientDone r, _) \<Rightarrow> Some r
           | _ \<Rightarrow> None))"

end
