(* ===== verification/End_To_End_Correctness.thy ===== *)
theory End_To_End_Correctness
  imports End_To_End Disk_Correctness
begin

text \<open>
  The end-to-end example cannot succeed: the client reads the file once, which gives it at
  most one buffer of its 1 MiB, so that whatever the schedule, the network and the files do
  (within what they promise), the comparison at the end finds different files.
\<close>

subsection \<open>What the network and the files promise\<close>

text \<open>
  \<open>sent\<close> counts the bytes the streams have accepted and \<open>got\<close> those they have delivered: a
  stream accepts no more than it is given and delivers no more than it has accepted.
\<close>

definition idles :: "('w \<Rightarrow> nat) \<Rightarrow> ('w \<Rightarrow> nat) \<Rightarrow> 'w \<Rightarrow> 'w \<Rightarrow> bool" where
  "idles sent got w w' \<longleftrightarrow> sent w' = sent w \<and> got w' = got w"

definition stream_law ::
  "('l, 's, 'a, 'w) uring_net \<Rightarrow> ('w \<Rightarrow> fd option \<times> 'w) \<Rightarrow> ('w \<Rightarrow> nat) \<Rightarrow> ('w \<Rightarrow> nat) \<Rightarrow> bool" where
  "stream_law N bind sent got \<longleftrightarrow>
     (\<forall>st data w n w'. un_write N st data w = (n, w') \<longrightarrow>
        sent w \<le> sent w' \<and> sent w' \<le> sent w + length data \<and> got w' = got w) \<and>
     (\<forall>st buf w n buf' w'. un_read N st buf w = ((n, buf'), w') \<longrightarrow> sent w' = sent w \<and>
        got w' = got w + (case n of None \<Rightarrow> 0 | Some k \<Rightarrow> k) \<and> (got w \<le> sent w \<longrightarrow> got w' \<le> sent w')) \<and>
     (\<forall>w r w'. bind w = (r, w') \<longrightarrow> idles sent got w w') \<and>
     (\<forall>a w r w'. un_bind N a w = (r, w') \<longrightarrow> idles sent got w w') \<and>
     (\<forall>l w r w'. un_accept N l w = (r, w') \<longrightarrow> idles sent got w w') \<and>
     (\<forall>a w r w'. un_connect N a w = (r, w') \<longrightarrow> idles sent got w w') \<and>
     (\<forall>f w. idles sent got w (un_close N f w))"

text \<open>A call that fails leaves the files as they are.\<close>

definition failures_change_nothing ::
  "('h, 'w) uring_files \<Rightarrow> ('w \<Rightarrow> path \<Rightarrow> u8 list option) \<Rightarrow> bool" where
  "failures_change_nothing F contents \<longleftrightarrow>
     (\<forall>fl q w w'. uf_open_with F fl q w = (None, w') \<longrightarrow> contents w' = contents w) \<and>
     (\<forall>h data off w w'. uf_write_at F h data off w = (None, w') \<longrightarrow> contents w' = contents w)"

lemma idles_trans [trans]: "idles sent got w w' \<Longrightarrow> idles sent got w' w'' \<Longrightarrow> idles sent got w w''"
  by (simp add: idles_def)

lemma idles_refl [simp]: "idles sent got w w"
  by (simp add: idles_def)

lemma stream_lawD:
  assumes "stream_law N bind sent got"
  shows "un_write N st data w = (n, w') \<Longrightarrow>
      sent w \<le> sent w' \<and> sent w' \<le> sent w + length data \<and> got w' = got w"
    "un_read N st buf w = ((m, buf'), w') \<Longrightarrow> sent w' = sent w \<and>
      got w' = got w + (case m of None \<Rightarrow> 0 | Some k \<Rightarrow> k) \<and> (got w \<le> sent w \<longrightarrow> got w' \<le> sent w')"
    "bind w = (r, w') \<Longrightarrow> idles sent got w w'"
    "un_bind N a w = (rb, w') \<Longrightarrow> idles sent got w w'"
    "un_accept N l w = (ra, w') \<Longrightarrow> idles sent got w w'"
    "un_connect N a w = (rc, w') \<Longrightarrow> idles sent got w w'"
    "idles sent got w (un_close N f w)"
proof -
  note l = assms [unfolded stream_law_def]
  show "un_write N st data w = (n, w') \<Longrightarrow>
      sent w \<le> sent w' \<and> sent w' \<le> sent w + length data \<and> got w' = got w"
    using conjunct1 [OF l] by blast
  note l2 = conjunct2 [OF l]
  show "un_read N st buf w = ((m, buf'), w') \<Longrightarrow> sent w' = sent w \<and>
      got w' = got w + (case m of None \<Rightarrow> 0 | Some k \<Rightarrow> k) \<and> (got w \<le> sent w \<longrightarrow> got w' \<le> sent w')"
    using conjunct1 [OF l2] by blast
  note l3 = conjunct2 [OF l2]
  show "bind w = (r, w') \<Longrightarrow> idles sent got w w'" "un_bind N a w = (rb, w') \<Longrightarrow> idles sent got w w'"
    "un_accept N l w = (ra, w') \<Longrightarrow> idles sent got w w'" "un_connect N a w = (rc, w') \<Longrightarrow> idles sent got w w'"
    "idles sent got w (un_close N f w)"
    using l3 by blast+
qed

subsection \<open>The operations of the engines on the counters\<close>

lemma net_notify_sys: "net_notify p U c e kind text s = (r, s') \<Longrightarrow> ns_sys s' = ns_sys s"
  by (auto simp: net_notify_def split: prod.splits)

lemma locked_sys:
  assumes "\<And>s r s'. body s = (r, s') \<Longrightarrow> P (ns_sys s) (ns_sys s')" "\<And>w. P w w"
    and "locked body s = (r, s')"
  shows "P (ns_sys s) (ns_sys s')"
proof (cases "ns_poisoned s")
  case False
  obtain r1 s1 where b: "body s = (r1, s1)" by fastforce
  then have "ns_sys s' = ns_sys s1"
    using assms(3) False by (cases r1) (auto simp: locked_def)
  then show ?thesis using assms(1) [OF b] by simp
qed (use assms(2,3) in \<open>auto simp: locked_def\<close>)

lemma insert_conn_idles:
  "stream_law N bind sent got \<Longrightarrow> idles sent got (ns_sys s) (ns_sys (insert_conn N a st s))"
  "stream_law N bind sent got \<Longrightarrow> idles sent got (ns_sys s) (ns_sys (remove_conn N a s))"
  by (auto simp: insert_conn_def remove_conn_def stream_lawD(7) split: option.split)

lemma store_and_notify_idles:
  assumes "stream_law N bind sent got" "store_and_notify p U c N e kind a st s = (r, s')"
  shows "idles sent got (ns_sys s) (ns_sys s')"
proof (cases "ns_poisoned s")
  case True
  then show ?thesis using assms(2) stream_lawD(7) [OF assms(1)] by (auto simp: store_and_notify_def)
next
  case False
  then have "locked (\<lambda>s. net_notify p U c e kind (un_addr_text N a) (insert_conn N a st s)) s = (r, s')"
    using assms(2) by (simp add: store_and_notify_def)
  then show ?thesis
    by (rule locked_sys [rotated 2])
      (use insert_conn_idles(1) [OF assms(1)] net_notify_sys in \<open>fastforce+\<close>)
qed

lemma lookup_addr_sys: "lookup_addr N f s = (r, s') \<Longrightarrow> ns_sys s' = ns_sys s"
  unfolding lookup_addr_def
  by (rule locked_sys [where P = "\<lambda>w w'. w' = w", rotated 2]) (auto split: option.splits)

lemma net_connect_idles:
  assumes "stream_law N bind sent got" "net_connect p U c N e a s = (r, s')"
  shows "idles sent got (ns_sys s) (ns_sys s')"
proof -
  obtain so w where c: "un_connect N a (ns_sys s) = (so, w)" by fastforce
  note i = stream_lawD(6) [OF assms(1) c]
  show ?thesis
  proof (cases so)
    case None
    then show ?thesis using assms(2) i by (auto simp: net_connect_def c)
  next
    case (Some st)
    obtain r1 s1 where n: "store_and_notify p U c N e NetworkSend a st (s\<lparr>ns_sys := w\<rparr>) = (r1, s1)" by fastforce
    have "s' = s1" using assms(2) by (cases r1) (auto simp: net_connect_def c Some n)
    then show ?thesis using idles_trans [OF i] store_and_notify_idles [OF assms(1) n] by simp
  qed
qed

lemma net_close_idles:
  assumes "stream_law N bind sent got" "net_close p U c N e f s = (r, s')"
  shows "idles sent got (ns_sys s) (ns_sys s')"
proof (cases "ns_poisoned s")
  case True
  then show ?thesis using assms(2) by (auto simp: net_close_def locked_def)
next
  case np: False
  show ?thesis
  proof (cases "find_addr N f (ns_conns s)")
    case None
    then show ?thesis using assms(2) np by (auto simp: net_close_def locked_def)
  next
    case (Some a)
    then have "locked (\<lambda>s. net_notify p U c e NetworkClose (un_addr_text N a) (remove_conn N a s)) s = (r, s')"
      using assms(2) np by (simp add: net_close_def locked_def)
    then show ?thesis
      by (rule locked_sys [rotated 2])
        (use insert_conn_idles(2) [OF assms(1)] net_notify_sys in \<open>fastforce+\<close>)
  qed
qed

lemma close_all_idles:
  "stream_law N bind sent got \<Longrightarrow>
   idles sent got w (fold (\<lambda>(a, st). un_close N (un_raw_fd N st)) cs w)"
  by (induction cs arbitrary: w) (auto intro: idles_trans stream_lawD(7))

lemma net_drop_idles:
  assumes "stream_law N bind sent got" "net_drop N s = (r, s')"
  shows "idles sent got (ns_sys s) (ns_sys s')"
  using assms(2) unfolding net_drop_def
  by (rule locked_sys [rotated 2]) (use close_all_idles [OF assms(1)] in auto)

lemma net_accept_idles:
  assumes L: "stream_law N bind sent got" and a: "net_accept p U c N e lf s = (r, s')"
  shows "idles sent got (ns_sys s) (ns_sys s')"
proof (cases "lf = -1 \<or> un_local_addr N lf (ns_sys s) = None")
  case True
  then show ?thesis using a stream_lawD(7) [OF L] by (auto simp: net_accept_def Let_def split: option.splits if_splits)
next
  case False
  then obtain la where la: "un_local_addr N lf (ns_sys s) = Some la" "lf \<noteq> -1" by auto
  obtain lo w where b: "un_bind N la (ns_sys s) = (lo, w)" by fastforce
  note i = stream_lawD(4) [OF L b]
  show ?thesis
  proof (cases lo)
    case None
    then show ?thesis
      using a la idles_trans [OF i stream_lawD(7) [OF L]] by (auto simp: net_accept_def b)
  next
    case (Some l)
    obtain ao w1 where ac: "un_accept N l w = (ao, w1)" by fastforce
    note i1 = idles_trans [OF i stream_lawD(5) [OF L ac]]
    show ?thesis
    proof (cases ao)
      case None
      then show ?thesis
        using a la idles_trans [OF idles_trans [OF i1 stream_lawD(7) [OF L]] stream_lawD(7) [OF L]]
        by (auto simp: net_accept_def b Some ac)
    next
      case (Some x)
      obtain st ad where x: "x = (st, ad)" by fastforce
      obtain r1 s1 where n: "store_and_notify p U c N e NetworkReceive ad st (s\<lparr>ns_sys := w1\<rparr>) = (r1, s1)"
        by fastforce
      have "idles sent got (ns_sys s) (ns_sys s1)"
        using idles_trans [OF i1] store_and_notify_idles [OF L n] by simp
      then have "idles sent got (ns_sys s) (un_close N lf (un_close N (un_listener_fd N l) (ns_sys s1)))"
        by (rule idles_trans [OF idles_trans [OF _ stream_lawD(7) [OF L]] stream_lawD(7) [OF L]])
      moreover have "net_accept p U c N e lf s = and_then (r1, s1\<lparr>ns_sys :=
          un_close N lf (un_close N (un_listener_fd N l) (ns_sys s1))\<rparr>) (\<lambda>_ s2. (Ok (un_raw_fd N st, ad), s2))"
        unfolding net_accept_def Let_def la(1) if_not_P [OF la(2)] option.case b \<open>lo = Some l\<close> prod.case
          ac Some x n by simp
      then have "ns_sys s' = un_close N lf (un_close N (un_listener_fd N l) (ns_sys s1))"
        using a by (cases r1) auto
      ultimately show ?thesis by simp
    qed
  qed
qed

lemma net_write_counts:
  assumes L: "stream_law N bind sent got" and a: "net_write p U c N e f data s = (r, s')"
  shows "sent (ns_sys s) \<le> sent (ns_sys s')" "sent (ns_sys s') \<le> sent (ns_sys s) + length data"
    "got (ns_sys s') = got (ns_sys s)"
proof -
  let ?P = "\<lambda>w w'. sent w \<le> sent w' \<and> sent w' \<le> sent w + length data \<and> got w' = got w"
  obtain ro s1 where l: "lookup_addr N f s = (ro, s1)" by fastforce
  have "?P (ns_sys s) (ns_sys s')"
  proof (cases ro)
    case (Ok ad)
    let ?body = "\<lambda>s. case map_of (ns_conns s) ad of
         None \<Rightarrow> (Err ConnectionRemoved, s)
       | Some st \<Rightarrow>
           (case un_write N st data (ns_sys s) of
              (None, w) \<Rightarrow> (Err SocketWriteFailed, s\<lparr>ns_sys := w\<rparr>)
            | (Some n, w) \<Rightarrow>
                and_then (net_notify p U c e NetworkSend (un_addr_text N ad) (s\<lparr>ns_sys := w\<rparr>))
                  (\<lambda>_ s1. (Ok n, s1)))"
    have body: "?P (ns_sys t) (ns_sys t')" if t: "?body t = (q, t')" for t q t'
    proof (cases "map_of (ns_conns t) ad")
      case None
      then show ?thesis using t by simp
    next
      case (Some st)
      obtain no w where u: "un_write N st data (ns_sys t) = (no, w)" by fastforce
      obtain r2 t2 where n: "net_notify p U c e NetworkSend (un_addr_text N ad) (t\<lparr>ns_sys := w\<rparr>) = (r2, t2)"
        by fastforce
      have "ns_sys t' = w"
        using t Some u n net_notify_sys [OF n] by (cases no; cases r2) auto
      then show ?thesis using stream_lawD(1) [OF L u] by simp
    qed
    have "locked ?body s1 = (r, s')" using a by (simp add: net_write_def l Ok)
    from locked_sys [where P = ?P, OF body _ this] show ?thesis
      using lookup_addr_sys [OF l] by simp
  qed (use a lookup_addr_sys [OF l] in \<open>auto simp: net_write_def l\<close>)
  then show "sent (ns_sys s) \<le> sent (ns_sys s')" "sent (ns_sys s') \<le> sent (ns_sys s) + length data"
    "got (ns_sys s') = got (ns_sys s)" by simp_all
qed

lemma net_read_counts:
  assumes L: "stream_law N bind sent got" and a: "net_read p U c N e f s = (r, s')"
  shows "sent (ns_sys s') = sent (ns_sys s)" "got (ns_sys s) \<le> got (ns_sys s')"
    "got (ns_sys s) \<le> sent (ns_sys s) \<Longrightarrow> got (ns_sys s') \<le> sent (ns_sys s')"
    "r = Ok data \<Longrightarrow> got (ns_sys s') = got (ns_sys s) + length data"
proof -
  let ?P = "\<lambda>w w'. sent w' = sent w \<and> got w \<le> got w' \<and> (got w \<le> sent w \<longrightarrow> got w' \<le> sent w')"
  obtain ro s1 where l: "lookup_addr N f s = (ro, s1)" by fastforce
  have "?P (ns_sys s) (ns_sys s') \<and> (r = Ok data \<longrightarrow> got (ns_sys s') = got (ns_sys s) + length data)"
  proof (cases ro)
    case (Ok ad)
    obtain s2 where s2: "ns_sys s1 = ns_sys s" "s2 = s1" using lookup_addr_sys [OF l] by simp
    show ?thesis
    proof (cases "ns_poisoned s1 \<or> map_of (ns_conns s1) ad = None")
      case True
      then show ?thesis using a s2 by (auto simp: net_read_def l Ok locked_def split: if_splits)
    next
      case False
      then obtain st where st: "map_of (ns_conns s1) ad = Some st" by auto
      let ?size = "unat (net_buffer_size (ne_config e))"
      show ?thesis
      proof (cases "2 ^ 63 \<le> ?size")
        case True
        then show ?thesis using a s2 False st by (auto simp: net_read_def l Ok locked_def)
      next
        case fits: False
        obtain no buf w where u: "un_read N st (replicate ?size 0) (ns_sys s1) = ((no, buf), w)"
          by (metis prod.exhaust)
        obtain r2 t2 where n: "net_notify p U c e NetworkReceive (un_addr_text N ad) (s1\<lparr>ns_sys := w\<rparr>) = (r2, t2)"
          by fastforce
        have "ns_sys s' = w \<and> (r = Ok data \<longrightarrow> (\<exists>k. no = Some k \<and> length data = k))"
          using a False st u n fits net_notify_sys [OF n]
          by (cases no; cases r2) (auto simp: net_read_def l Ok locked_def not_less split: if_splits)
        then show ?thesis using stream_lawD(2) [OF L u] s2 by (auto split: option.splits)
      qed
    qed
  qed (use a lookup_addr_sys [OF l] in \<open>auto simp: net_read_def l\<close>)
  then show "sent (ns_sys s') = sent (ns_sys s)" "got (ns_sys s) \<le> got (ns_sys s')"
    "got (ns_sys s) \<le> sent (ns_sys s) \<Longrightarrow> got (ns_sys s') \<le> sent (ns_sys s')"
    "r = Ok data \<Longrightarrow> got (ns_sys s') = got (ns_sys s) + length data" by simp_all
qed

subsection \<open>The operations of the engines on the files\<close>

lemma read_file_files:
  assumes "file_laws F contents path_of" "read_file p U c F e q off s = (r, s')"
  shows "contents (ds_files s') = contents (ds_files s)"
proof -
  note L = file_lawsD [OF assms(1)]
  obtain ho w where o: "uf_open F q (ds_files s) = (ho, w)" by fastforce
  show ?thesis
  proof (cases ho)
    case None
    then show ?thesis using assms(2) L(2) [OF o] by (auto simp: read_file_def with_file_def o)
  next
    case (Some h)
    obtain no buf w1 where rd: "uf_read_at F h (replicate (unat (buffer_size (de_config e))) 0) off w = ((no, buf), w1)"
      by (metis prod.exhaust)
    obtain r2 s2 where n: "disk_notify p U c e DiskRead q (s\<lparr>ds_files := w1\<rparr>) = (r2, s2)" by fastforce
    have "ds_files s' = uf_drop F h w \<or> ds_files s' = uf_drop F h w1"
      using assms(2) disk_notify_files [OF n]
      by (cases no; cases r2) (auto simp: read_file_def with_file_def o Some rd n Let_def split: if_splits)
    then show ?thesis using L(2) [OF o] L(6) [OF rd] L(9) by auto
  qed
qed

text \<open>A write changes at most its file, which it does not make longer than the place it writes.\<close>

lemma write_file_files:
  assumes "file_laws F contents path_of" "failures_change_nothing F contents"
    and "write_file p U c F e q off data s = (r, s')"
  obtains "contents (ds_files s') = contents (ds_files s)"
  | content where "contents (ds_files s') = (contents (ds_files s))(q := Some content)"
    "length content \<le> max (length (case contents (ds_files s) q of None \<Rightarrow> [] | Some c \<Rightarrow> c)) (unat off + length data)"
proof -
  note L = file_lawsD [OF assms(1)]
  let ?old = "case contents (ds_files s) q of None \<Rightarrow> [] | Some c \<Rightarrow> c"
  obtain ho w where o: "uf_open_with F write_flags q (ds_files s) = (ho, w)" by fastforce
  show ?thesis
  proof (cases ho)
    case None
    have "contents w = contents (ds_files s)"
      using assms(2) o None unfolding failures_change_nothing_def by blast
    then have "contents (ds_files s') = contents (ds_files s)"
      using assms(3) None by (auto simp: write_file_def with_file_def o)
    then show ?thesis by (rule that(1))
  next
    case (Some h)
    obtain no w1 where wr: "uf_write_at F h data off w = (no, w1)" by fastforce
    obtain r2 s2 where n: "disk_notify p U c e DiskWrite q (s\<lparr>ds_files := w1\<rparr>) = (r2, s2)" by fastforce
    have f: "ds_files s' = uf_drop F h w1"
      using assms(3) disk_notify_files [OF n]
      by (cases no) (auto simp: write_file_def with_file_def o Some wr n)
    have op: "path_of h = q" "contents w = (contents (ds_files s))(q := Some ?old)"
      using L(3) [OF o [unfolded Some]] by (simp_all add: opened_contents_def write_flags_def)
    show ?thesis
    proof (cases no)
      case None
      then have "contents w1 = contents w" using assms(2) wr by (auto simp: failures_change_nothing_def)
      then show ?thesis using op L(9) f by (intro that(2) [of ?old]) auto
    next
      case (Some k)
      have "contents w1 = (contents w)(q := Some (splice_at (unat off) (take k data) ?old))"
        using L(8) [OF wr [unfolded Some], of ?old] op by simp
      moreover have "length (splice_at (unat off) (take k data) ?old) \<le> max (length ?old) (unat off + length data)"
        by (auto simp: splice_at_def)
      ultimately show ?thesis using op L(9) f by (intro that(2)) auto
    qed
  qed
qed

lemma length_pattern [simp]: "length (pattern n) = n"
  by (simp add: pattern_def)

lemma sum_chunks: "0 < n \<Longrightarrow> sum_list (map length (chunks n xs)) = length xs"
proof (induction n xs rule: chunks.induct)
  case (1 n xs)
  then show ?case by (subst chunks.simps) auto
qed

subsection \<open>The invariant of the two tasks\<close>

abbreviation one_mib :: nat where "one_mib \<equiv> 1024 * 1024"
abbreviation one_buffer :: nat where "one_buffer \<equiv> 64 * 1024"

definition files_inv :: "file_system \<Rightarrow> bool" where
  "files_inv fs \<longleftrightarrow> fs_files fs TEST_FILE_PATH = Some (pattern one_mib) \<and>
     length (content_or_empty OUTPUT_FILE_PATH fs) \<le> one_buffer"

definition client_bytes :: "client_point \<Rightarrow> nat" where
  "client_bytes cp = (case cp of ClientSend fd cs \<Rightarrow> one_buffer - sum_list (map length cs)
     | ClientDone r \<Rightarrow> one_buffer | _ \<Rightarrow> 0)"

definition client_fits :: "client_point \<Rightarrow> bool" where
  "client_fits cp \<longleftrightarrow> (case cp of
     ClientSend fd cs \<Rightarrow> sum_list (map length cs) \<le> one_buffer
   | ClientDone r \<Rightarrow> (\<forall>n k. r \<noteq> Err (FilesDiffer n k)) | _ \<Rightarrow> True)"

definition server_bytes :: "server_point \<Rightarrow> nat" where
  "server_bytes pt = (case pt of ServerCollect l fd d \<Rightarrow> length d | ServerWriteFile l fd d \<Rightarrow> length d | _ \<Rightarrow> 0)"

definition e2e_inv ::
  "('w \<Rightarrow> nat) \<Rightarrow> ('w \<Rightarrow> nat) \<Rightarrow> ('h, 's, 'a, 'w) e2e_state \<Rightarrow> bool" where
  "e2e_inv sent got x \<longleftrightarrow> files_inv (x_fs x) \<and> client_fits (fst (x_client x)) \<and>
     sent (x_sys x) \<le> client_bytes (fst (x_client x)) \<and> got (x_sys x) \<le> sent (x_sys x) \<and>
     server_bytes (fst (x_server x)) \<le> got (x_sys x)"

lemma on_net_parts:
  assumes "on_net f sd w = (r, sd1, w1)"
  obtains s r0 where "f \<lparr>ns_conns = sd_conns sd, ns_poisoned = sd_net_poisoned sd, ns_mem = sd_mem sd, ns_sys = w\<rparr> = (r0, s)"
    "w1 = ns_sys s" "\<And>y. r = Ok y \<Longrightarrow> r0 = Ok y"
  using assms by (auto simp: on_net_def split: prod.splits outcome.splits)

lemma on_disk_parts:
  assumes "on_disk f sd fs = (r, sd1, fs1)"
  obtains s r0 where "f \<lparr>ds_handles = sd_handles sd, ds_poisoned = sd_disk_poisoned sd, ds_mem = sd_mem sd, ds_files = fs\<rparr> = (r0, s)"
    "fs1 = ds_files s" "\<And>y. r = Ok y \<Longrightarrow> r0 = Ok y"
  using assms by (auto simp: on_disk_def split: prod.splits outcome.splits)

lemma engine_errors:
  "on_net f sd w = (r, sd1, w1) \<Longrightarrow> r \<noteq> Err (FilesDiffer n k)"
  "on_disk g sd fs = (q, sd1, fs1) \<Longrightarrow> q \<noteq> Err (FilesDiffer n k)"
  "side_create p W U now path \<noteq> Err (FilesDiffer n k)"
  by (auto simp: on_net_def on_disk_def side_create_def split: prod.splits outcome.splits)

lemma go_on_done:
  "(\<And>n k. r \<noteq> Err (FilesDiffer n k)) \<Longrightarrow> (\<And>x. r = Ok x \<Longrightarrow> client_fits (f x)) \<Longrightarrow>
   client_fits (go_on r ClientDone f)"
  by (auto simp: go_on_def client_fits_def split: outcome.split)

lemma e2e_inv_sys:
  assumes "e2e_inv sent got x" "idles sent got (x_sys x) w"
    and "client_fits (fst cl)" "client_bytes (fst (x_client x)) \<le> client_bytes (fst cl)"
  shows "e2e_inv sent got (x\<lparr>x_sys := w, x_client := cl\<rparr>)"
  using assms by (simp add: e2e_inv_def idles_def)

lemma e2e_inv_server:
  assumes "e2e_inv sent got x" "idles sent got (x_sys x) w"
    and "server_bytes (fst sv) \<le> server_bytes (fst (x_server x))"
  shows "e2e_inv sent got (x\<lparr>x_sys := w, x_server := sv\<rparr>)"
  using assms by (simp add: e2e_inv_def idles_def)

lemma client_bytes_bound: "client_bytes cp \<le> one_buffer"
  by (simp add: client_bytes_def split: client_point.split)

lemma client_step_inv:
  assumes L: "stream_law (y_net Y) (y_bind Y) sent got" and F: "file_laws (y_files Y) fs_files path_of"
    and inv: "e2e_inv sent got x"
  shows "e2e_inv sent got (client_step Y x)"
proof -
  obtain cp sdo where c: "x_client x = (cp, sdo)" by fastforce
  have cb: "client_bytes cp \<le> one_buffer" by (rule client_bytes_bound)
  note lets = client_step_def Let_def c prod.case client_point.case option.case
  show ?thesis
  proof (cases cp)
    case ClientStart
    then show ?thesis
      using inv engine_errors(3) [of "y_profile Y" "y_os Y" "y_uuid Y" "y_now Y" "''/tmp/elgate_client_ring''"]
      unfolding lets
      by (auto simp: c e2e_inv_def client_bytes_def client_fits_def split: outcome.splits)
  next
    case ClientConnect
    show ?thesis
    proof (cases sdo)
      case (Some sd)
      obtain r sd1 w where o: "on_net (net_connect (y_profile Y) (y_uuid Y) (y_ctx Y) (y_net Y) (net_engine_of sd) (y_addr Y))
          sd (x_sys x) = (r, sd1, w)" by (metis prod.exhaust)
      have i: "idles sent got (x_sys x) w"
        by (rule on_net_parts [OF o]) (use net_connect_idles [OF L] in fastforce)
      have "client_step Y x = x\<lparr>x_sys := w, x_client := (go_on r ClientDone ClientReadFile, Some sd1)\<rparr>"
        unfolding lets ClientConnect Some o by simp
      then show ?thesis
        using e2e_inv_sys [OF inv i, of "(go_on r ClientDone ClientReadFile, Some sd1)"]
          go_on_done [OF engine_errors(1) [OF o], of ClientReadFile]
        by (simp add: c ClientConnect client_bytes_def client_fits_def)
    qed (use inv in \<open>simp add: lets ClientConnect\<close>)
  next
    case (ClientReadFile fd)
    show ?thesis
    proof (cases sdo)
      case (Some sd)
      obtain r sd1 fs where o: "on_disk (read_file (y_profile Y) (y_uuid Y) (y_ctx Y) (y_files Y) (disk_engine_of sd)
          TEST_FILE_PATH 0) sd (x_fs x) = (r, sd1, fs)" by (metis prod.exhaust)
      have fs: "fs_files fs = fs_files (x_fs x)"
        by (rule on_disk_parts [OF o]) (use read_file_files [OF F] in fastforce)
      have len: "length data \<le> one_buffer" if "r = Ok data" for data
      proof (rule on_disk_parts [OF o], goal_cases)
        case (1 s r0)
        have "fs_files (x_fs x) TEST_FILE_PATH = Some (pattern one_mib)"
          using inv by (simp add: e2e_inv_def files_inv_def)
        then show ?case
          using read_file_Ok(3) [OF F, of "y_profile Y" "y_uuid Y" "y_ctx Y" "disk_engine_of sd" TEST_FILE_PATH 0] 1 that
          by (fastforce simp: disk_engine_of_def side_disk_config_def)
      qed
      have "client_step Y x = x\<lparr>x_fs := fs, x_client :=
          (go_on r ClientDone (\<lambda>data. ClientSend fd (chunks 8192 data)), Some sd1)\<rparr>"
        unfolding lets ClientReadFile Some o by simp
      then show ?thesis
        using inv fs len engine_errors(2) [OF o]
        by (auto simp: e2e_inv_def files_inv_def content_or_empty_def c ClientReadFile client_bytes_def
            client_fits_def go_on_def sum_chunks split: outcome.splits)
    qed (use inv in \<open>simp add: lets ClientReadFile\<close>)
  next
    case (ClientSend fd cs)
    show ?thesis
    proof (cases sdo)
      case (Some sd)
      show ?thesis
      proof (cases cs)
        case Nil
        obtain r sd1 w where o: "on_net (net_close (y_profile Y) (y_uuid Y) (y_ctx Y) (y_net Y) (net_engine_of sd) fd)
            sd (x_sys x) = (r, sd1, w)" by (metis prod.exhaust)
        have i: "idles sent got (x_sys x) w"
          by (rule on_net_parts [OF o]) (use net_close_idles [OF L] in fastforce)
        have "client_step Y x = x\<lparr>x_sys := w, x_client := (ClientDone r, Some sd1)\<rparr>"
          unfolding lets ClientSend Some Nil list.case o by simp
        then show ?thesis
          using e2e_inv_sys [OF inv i, of "(ClientDone r, Some sd1)"] engine_errors(1) [OF o] cb
          by (simp add: c client_bytes_def client_fits_def)
      next
        case (Cons chunk rest)
        obtain r sd1 w where o: "on_net (net_write (y_profile Y) (y_uuid Y) (y_ctx Y) (y_net Y) (net_engine_of sd) fd chunk)
            sd (x_sys x) = (r, sd1, w)" by (metis prod.exhaust)
        have i: "sent (x_sys x) \<le> sent w" "sent w \<le> sent (x_sys x) + length chunk" "got w = got (x_sys x)"
          by (rule on_net_parts [OF o], use net_write_counts [OF L] in fastforce)+
        have "client_step Y x = x\<lparr>x_sys := w, x_client := (go_on r ClientDone (\<lambda>_. ClientSend fd rest), Some sd1)\<rparr>"
          unfolding lets ClientSend Some Cons list.case o by simp
        then show ?thesis
          using inv i engine_errors(1) [OF o]
          by (auto simp: e2e_inv_def c ClientSend Cons client_bytes_def client_fits_def go_on_def
              split: outcome.splits)
      qed
    qed (use inv in \<open>simp add: lets ClientSend split: list.split\<close>)
  next
    case (ClientDone r)
    then show ?thesis using inv by (simp add: lets)
  qed
qed

lemma server_end_inv:
  assumes L: "stream_law (y_net Y) bind sent got" and inv: "e2e_inv sent got x"
    and w: "sent w = sent (x_sys x)" "got (x_sys x) \<le> got w" "got w \<le> sent w"
  shows "e2e_inv sent got (server_end Y lfd r sd w x)"
proof -
  obtain r1 sd1 w1 where o: "on_net (net_drop (y_net Y)) sd (un_close (y_net Y) lfd w) = (r1, sd1, w1)"
    by (metis prod.exhaust)
  have "idles sent got (un_close (y_net Y) lfd w) w1"
    by (rule on_net_parts [OF o]) (use net_drop_idles [OF L] in fastforce)
  then have "idles sent got w w1" by (rule idles_trans [OF stream_lawD(7) [OF L]])
  then show ?thesis
    using inv w by (simp add: server_end_def o e2e_inv_def idles_def server_bytes_def)
qed

lemma server_next_inv:
  assumes L: "stream_law (y_net Y) bind sent got" and inv: "e2e_inv sent got x"
    and w: "idles sent got (x_sys x) w" and f: "\<And>v. r = Ok v \<Longrightarrow> server_bytes (f v) \<le> server_bytes (fst (x_server x))"
  shows "e2e_inv sent got (server_next Y lfd (r, sd, w) f x)"
proof (cases r)
  case (Ok v)
  then show ?thesis using e2e_inv_server [OF inv w, of "(f v, Some sd)"] f by (simp add: server_next_def)
qed (use server_end_inv [OF L inv, of w] inv w in \<open>simp_all add: server_next_def idles_def e2e_inv_def\<close>)

lemma server_collect_inv:
  assumes L: "stream_law (y_net Y) (y_bind Y) sent got" and inv: "e2e_inv sent got x"
    and pt: "x_server x = (ServerCollect lfd fd d, Some sd)"
  shows "e2e_inv sent got (server_step Y x)"
proof -
  obtain r sd1 w where o: "on_net (net_read (y_profile Y) (y_uuid Y) (y_ctx Y) (y_net Y) (net_engine_of sd) fd)
      sd (x_sys x) = (r, sd1, w)" by (metis prod.exhaust)
  have i: "sent w = sent (x_sys x)" "got (x_sys x) \<le> got w"
    "got (x_sys x) \<le> sent (x_sys x) \<Longrightarrow> got w \<le> sent w"
    "\<And>data. r = Ok data \<Longrightarrow> got w = got (x_sys x) + length data"
    by (rule on_net_parts [OF o], use net_read_counts [OF L] in fastforce)+
  have g: "got w \<le> sent w" using i(3) inv by (simp add: e2e_inv_def)
  note lets = server_step_def Let_def pt prod.case server_point.case option.case o
  show ?thesis
  proof (cases r)
    case (Ok data)
    then show ?thesis
      using inv i(1) g i(4) [OF Ok] by (auto simp: lets e2e_inv_def pt server_bytes_def)
  next
    case (Err e)
    then show ?thesis using inv i(1,2) g by (auto simp: lets e2e_inv_def pt server_bytes_def)
  qed (use server_end_inv [OF L inv i(1,2) g] in \<open>simp_all add: lets\<close>)
qed

lemma output_not_test: "OUTPUT_FILE_PATH \<noteq> TEST_FILE_PATH"
  by (simp add: OUTPUT_FILE_PATH_def TEST_FILE_PATH_def)

lemma server_write_inv:
  assumes L: "stream_law (y_net Y) (y_bind Y) sent got"
    and F: "file_laws (y_files Y) fs_files path_of" "failures_change_nothing (y_files Y) fs_files"
    and inv: "e2e_inv sent got x" and pt: "x_server x = (ServerWriteFile lfd fd d, Some sd)"
  shows "e2e_inv sent got (server_step Y x)"
proof -
  obtain r sd1 fs where o: "on_disk (write_file (y_profile Y) (y_uuid Y) (y_ctx Y) (y_files Y) (disk_engine_of sd)
      OUTPUT_FILE_PATH 0 d) sd (x_fs x) = (r, sd1, fs)" by (metis prod.exhaust)
  have d: "length d \<le> one_buffer"
    using inv client_bytes_bound [of "fst (x_client x)"] by (simp add: e2e_inv_def pt server_bytes_def)
  have fs: "files_inv fs"
  proof (rule on_disk_parts [OF o])
    fix s r0
    let ?s = "\<lparr>ds_handles = sd_handles sd, ds_poisoned = sd_disk_poisoned sd, ds_mem = sd_mem sd, ds_files = x_fs x\<rparr>"
    assume w: "write_file (y_profile Y) (y_uuid Y) (y_ctx Y) (y_files Y) (disk_engine_of sd) OUTPUT_FILE_PATH 0 d ?s = (r0, s)"
      and fs: "fs = ds_files s"
    have old: "files_inv (x_fs x)" using inv by (simp add: e2e_inv_def)
    show "files_inv fs"
      by (rule write_file_files [OF F w])
        (use old d fs output_not_test in \<open>auto simp: files_inv_def content_or_empty_def\<close>)
  qed
  have inv': "e2e_inv sent got (x\<lparr>x_fs := fs\<rparr>)" using inv fs by (simp add: e2e_inv_def)
  have "server_step Y x = server_next Y lfd (r, sd1, x_sys x) (\<lambda>_. ServerClose lfd fd) (x\<lparr>x_fs := fs\<rparr>)"
    by (simp add: server_step_def pt o)
  then show ?thesis
    using server_next_inv [OF L inv', of "x_sys x" r "\<lambda>_. ServerClose lfd fd" lfd sd1]
    by (simp add: server_bytes_def)
qed

lemma server_step_inv:
  assumes L: "stream_law (y_net Y) (y_bind Y) sent got"
    and F: "file_laws (y_files Y) fs_files path_of" "failures_change_nothing (y_files Y) fs_files"
    and inv: "e2e_inv sent got x"
  shows "e2e_inv sent got (server_step Y x)"
proof -
  obtain pt sdo where c: "x_server x = (pt, sdo)" by fastforce
  note lets = server_step_def Let_def c prod.case server_point.case option.case
  show ?thesis
  proof (cases "sdo = None")
    case True
    show ?thesis
    proof (cases "pt = ServerStart")
      case start: True
      show ?thesis
        using inv unfolding lets start
        by (auto simp: c e2e_inv_def server_bytes_def start split: outcome.splits)
    next
      case False
      then have "server_step Y x = x" using True by (cases pt) (simp_all add: lets)
      then show ?thesis using inv by simp
    qed
  next
    case False
    then obtain sd where sd: "sdo = Some sd" by blast
    show ?thesis
    proof (cases pt)
      case ServerStart
      show ?thesis
        using inv unfolding lets ServerStart
        by (auto simp: c e2e_inv_def server_bytes_def ServerStart split: outcome.splits)
    next
      case ServerBind
      obtain r w where b: "y_bind Y (x_sys x) = (r, w)" by fastforce
      have "server_step Y x = (case r of None \<Rightarrow> x\<lparr>x_sys := w, x_server := (ServerDone (Err BindError), Some sd)\<rparr>
          | Some lfd \<Rightarrow> x\<lparr>x_sys := w, x_server := (ServerAccept lfd, Some sd)\<rparr>)"
        unfolding lets ServerBind sd b by simp
      then show ?thesis
        using e2e_inv_server [OF inv stream_lawD(3) [OF L b]]
        by (simp add: c ServerBind server_bytes_def split: option.split)
    next
      case (ServerAccept lfd)
      obtain r sd1 w where o: "on_net (net_accept (y_profile Y) (y_uuid Y) (y_ctx Y) (y_net Y) (net_engine_of sd) lfd)
          sd (x_sys x) = (r, sd1, w)" by (metis prod.exhaust)
      have i: "idles sent got (x_sys x) w"
        by (rule on_net_parts [OF o]) (use net_accept_idles [OF L] in fastforce)
      have "server_step Y x = server_next Y lfd (r, sd1, w) (\<lambda>(client_fd, addr). ServerCollect lfd client_fd []) x"
        unfolding lets ServerAccept sd o by simp
      then show ?thesis
        by (simp only:) (rule server_next_inv [OF L inv i], simp add: c ServerAccept server_bytes_def split: prod.split)
    next
      case (ServerCollect lfd fd d)
      then show ?thesis using server_collect_inv [OF L inv] c sd by simp
    next
      case (ServerWriteFile lfd fd d)
      then show ?thesis using server_write_inv [OF L F inv] c sd by simp
    next
      case (ServerClose lfd fd)
      obtain r sd1 w where o: "on_net (net_close (y_profile Y) (y_uuid Y) (y_ctx Y) (y_net Y) (net_engine_of sd) fd)
          sd (x_sys x) = (r, sd1, w)" by (metis prod.exhaust)
      have i: "idles sent got (x_sys x) w"
        by (rule on_net_parts [OF o]) (use net_close_idles [OF L] in fastforce)
      have "server_step Y x = server_end Y lfd r sd1 w x"
        unfolding lets ServerClose sd o by simp
      then show ?thesis
        using server_end_inv [OF L inv, of w] i inv by (simp add: idles_def e2e_inv_def)
    next
      case (ServerDone r)
      then show ?thesis using inv by (simp add: lets)
    qed
  qed
qed

lemma e2e_run_inv:
  assumes "stream_law (y_net Y) (y_bind Y) sent got"
    and "file_laws (y_files Y) fs_files path_of" "failures_change_nothing (y_files Y) fs_files"
  shows "e2e_inv sent got x \<Longrightarrow> e2e_inv sent got (e2e_run Y sched x)"
  unfolding e2e_run_def
  by (induction sched arbitrary: x)
    (simp_all add: client_step_inv [OF assms(1,2)] server_step_inv [OF assms])

subsection \<open>The comparison\<close>

lemma create_test_file_files:
  assumes "create_test_file q n fs = (True, fs')"
  shows "fs_files fs' = (fs_files fs)(q := Some (pattern n))"
proof -
  obtain fo fs1 where c: "std_create q fs = (fo, fs1)" by fastforce
  then obtain f where f: "fo = Some f" using assms by (cases fo) (simp_all add: create_test_file_def)
  note cf = std_create_Some [OF c [unfolded f]]
  obtain ok fs2 where w: "std_write_all (pattern n) f fs1 = (ok, fs2)" by fastforce
  then have ok: "ok" using assms by (cases ok) (simp_all add: create_test_file_def c f)
  have "fs_files fs1 (sf_path f) = Some []" using cf by simp
  then obtain k where "k = length (pattern n)"
    "fs_files fs2 = (fs_files fs1)(sf_path f := Some (splice_at (sf_pos f) (take k (pattern n)) []))"
    using std_write_all_effect [OF w] ok by blast
  then have "fs_files fs2 = (fs_files fs)(q := Some (pattern n))"
    using cf by (auto simp: splice_at_def)
  moreover have "fs_files fs' = fs_files fs2"
    using assms w ok by (auto simp: create_test_file_def c f dest: std_sync_all_files)
  ultimately show ?thesis by simp
qed

lemma cleanup_output:
  "length (content_or_empty OUTPUT_FILE_PATH (cleanup fs)) \<le> length (content_or_empty OUTPUT_FILE_PATH fs)"
proof -
  have "content_or_empty q (std_remove q' fs) = content_or_empty q fs \<or> content_or_empty q (std_remove q' fs) = []" for q q' fs
    using std_remove_files [of q' fs] by (auto simp: content_or_empty_def)
  note r = this
  have "length (content_or_empty q (std_remove q' fs)) \<le> length (content_or_empty q fs)" for q q' fs
    using r [of q q' fs] by auto
  then show ?thesis unfolding cleanup_def by (meson order_trans)
qed

lemma verify_different:
  assumes "files_inv fs"
  shows "fst (verify_files TEST_FILE_PATH OUTPUT_FILE_PATH fs) = Err FileError \<or>
    (\<exists>k\<le>one_buffer. fst (verify_files TEST_FILE_PATH OUTPUT_FILE_PATH fs) = Err (FilesDiffer one_mib k))"
proof -
  obtain fo fs1 where o1: "std_open TEST_FILE_PATH fs = (fo, fs1)" by fastforce
  note s1 = std_open_Some [OF o1]
  show ?thesis
  proof (cases fo)
    case None
    then show ?thesis by (simp add: verify_files_def o1)
  next
    case (Some f)
    obtain go fs2 where o2: "std_open OUTPUT_FILE_PATH fs1 = (go, fs2)" by fastforce
    note s2 = std_open_Some [OF o2]
    show ?thesis
    proof (cases go)
      case None
      then show ?thesis by (simp add: verify_files_def o1 Some o2)
    next
      case (Some g)
      obtain a fs3 where r1: "std_read_to_end f fs2 = (a, fs3)" by fastforce
      obtain b fs4 where r2: "std_read_to_end g fs3 = (b, fs4)" by fastforce
      note e1 = std_read_to_end_files [OF r1] and e2 = std_read_to_end_files [OF r2]
      have f: "sf_path f = TEST_FILE_PATH" "sf_pos f = 0" "sf_path g = OUTPUT_FILE_PATH" "sf_pos g = 0"
        using s1 s2 \<open>fo = Some f\<close> Some by simp_all
      have same: "fs_files fs2 = fs_files fs" "fs_files fs3 = fs_files fs" using s1 s2 e1 by simp_all
      have "std_contents f fs2 = pattern one_mib"
        using assms by (simp add: std_contents_def f same files_inv_def)
      then have A: "a = Some d \<Longrightarrow> d = pattern one_mib" for d using e1 f by simp
      have "length (std_contents g fs3) \<le> one_buffer"
        using assms by (simp add: std_contents_def f same files_inv_def content_or_empty_def)
      then have B: "b = Some d \<Longrightarrow> length d \<le> one_buffer" for d using e2 f by simp
      show ?thesis
      proof (cases a)
        case None
        then show ?thesis by (simp add: verify_files_def o1 \<open>fo = Some f\<close> o2 Some r1)
      next
        case a: (Some original)
        show ?thesis
        proof (cases b)
          case None
          then show ?thesis by (simp add: verify_files_def o1 \<open>fo = Some f\<close> o2 Some r1 a r2)
        next
          case b: (Some copy)
          have l: "length original = one_mib" "length copy \<le> one_buffer" using A [OF a] B [OF b] by simp_all
          then have "original \<noteq> copy" by auto
          then show ?thesis
            using l by (simp add: verify_files_def o1 \<open>fo = Some f\<close> o2 Some r1 a r2 b)
        qed
      qed
    qed
  qed
qed

text \<open>
  C25: Once the end-to-end example has found io_uring supported it never reports success.
  Whatever the schedule of its two tasks,
  the sizes of the reads and writes and the failures, if the program comes to an end it
  ends with an error; and if both files can be read, the error says that the files differ:
  the copy has at most the 64 KiB that one read of the disk engine returns of the 1 MiB.
\<close>

theorem end_to_end_never_succeeds:
  assumes "stream_law (y_net Y) (y_bind Y) sent got" "sent w = 0" "got w = 0"
    and "file_laws (y_files Y) fs_files path_of" "failures_change_nothing (y_files Y) fs_files"
    and "length (content_or_empty OUTPUT_FILE_PATH fs) \<le> 64 * 1024"
  shows "end_to_end Y sched fs w \<noteq> Some (Ok ()) \<and>
    (\<forall>n k. end_to_end Y sched fs w = Some (Err (FilesDiffer n k)) \<longrightarrow> n = 1024 * 1024 \<and> k \<le> 64 * 1024)"
proof (cases "create_test_file TEST_FILE_PATH (1024 * 1024) (cleanup fs)")
  case (Pair ok fs1)
  show ?thesis
  proof (cases ok)
    case False
    then show ?thesis using Pair by (simp add: end_to_end_def)
  next
    case True
    let ?x0 = "\<lparr>x_fs = fs1, x_sys = w, x_client = (ClientStart, None), x_server = (ServerStart, None)\<rparr>"
    let ?x = "e2e_run Y sched ?x0"
    have "fs_files fs1 = (fs_files (cleanup fs))(TEST_FILE_PATH := Some (pattern (1024 * 1024)))"
      by (rule create_test_file_files) (use Pair True in simp)
    then have "files_inv fs1"
      using order_trans [OF cleanup_output assms(6)] output_not_test
      by (simp add: files_inv_def content_or_empty_def)
    then have inv: "e2e_inv sent got ?x"
      by (intro e2e_run_inv [OF assms(1,4,5)])
        (simp add: e2e_inv_def client_bytes_def client_fits_def server_bytes_def assms(2,3))
    have fi: "files_inv (x_fs ?x)" and cl: "client_fits (fst (x_client ?x))"
      using inv unfolding e2e_inv_def by blast+
    note v = verify_different [OF fi]
    have "end_to_end Y sched fs w = (case x_client ?x of
             (ClientDone (Ok u), _) \<Rightarrow>
               (case x_server ?x of
                  (ServerDone r, _) \<Rightarrow> Some (fst (verify_files TEST_FILE_PATH OUTPUT_FILE_PATH (x_fs ?x)))
                | _ \<Rightarrow> None)
           | (ClientDone r, _) \<Rightarrow> Some r
           | _ \<Rightarrow> None)"
      using True by (simp only: end_to_end_def Pair prod.case simp_thms bool.case Let_def)
    then show ?thesis
      using v cl by (auto simp: client_fits_def split: prod.splits client_point.splits outcome.splits server_point.splits)
  qed
qed

text \<open>A network whose streams take everything and give it back, and a disk that starts empty.\<close>

definition demo_wire :: "(fd, fd, nat, fd list \<times> nat \<times> nat) uring_net" where
  "demo_wire =
     \<lparr>un_local_addr = (\<lambda>f (fds, s, g). un_local_addr demo_net f fds),
      un_bind = (\<lambda>a (fds, s, g). case un_bind demo_net a fds of (r, fds') \<Rightarrow> (r, fds', s, g)),
      un_accept = (\<lambda>l (fds, s, g). case un_accept demo_net l fds of (r, fds') \<Rightarrow> (r, fds', s, g)),
      un_connect = (\<lambda>a (fds, s, g). case un_connect demo_net a fds of (r, fds') \<Rightarrow> (r, fds', s, g)),
      un_read = (\<lambda>f buf (fds, s, g).
        let n = min (length buf) (s - g) in ((Some n, buf), fds, s, g + n)),
      un_write = (\<lambda>f data (fds, s, g). (Some (length data), fds, s + length data, g)),
      un_raw_fd = (\<lambda>f. f),
      un_listener_fd = (\<lambda>f. f),
      un_close = (\<lambda>f (fds, s, g). (un_close demo_net f fds, s, g)),
      un_addr_text = un_addr_text demo_net\<rparr>"

definition demo_bind :: "fd list \<times> nat \<times> nat \<Rightarrow> fd option \<times> fd list \<times> nat \<times> nat" where
  "demo_bind = (\<lambda>(fds, s, g). (Some (fresh_fd fds), fresh_fd fds # fds, s, g))"

definition on_files :: "(demo_disk \<Rightarrow> 'r \<times> demo_disk) \<Rightarrow> file_system \<Rightarrow> 'r \<times> file_system" where
  "on_files f fs = (case f (fs_files fs) of (r, w) \<Rightarrow> (r, fs\<lparr>fs_files := w\<rparr>))"

definition demo_fs_files :: "(path, file_system) uring_files" where
  "demo_fs_files =
     \<lparr>uf_open = (\<lambda>q. on_files (uf_open (demo_files 100) q)),
      uf_open_with = (\<lambda>fl q. on_files (uf_open_with (demo_files 100) fl q)),
      uf_read_at = (\<lambda>h buf off. on_files (uf_read_at (demo_files 100) h buf off)),
      uf_write_at = (\<lambda>h data off. on_files (uf_write_at (demo_files 100) h data off)),
      uf_sync_all = (\<lambda>h. on_files (uf_sync_all (demo_files 100) h)),
      uf_drop = (\<lambda>h fs. fs)\<rparr>"

lemma demo_wire_law: "stream_law demo_wire demo_bind (\<lambda>(_, s, _). s) (\<lambda>(_, _, g). g)"
  by (auto simp: stream_law_def idles_def demo_wire_def demo_bind_def Let_def split: prod.splits)

lemma demo_fs_files_laws: "file_laws demo_fs_files fs_files (\<lambda>h. h)"
  "failures_change_nothing demo_fs_files fs_files"
  unfolding file_laws_def failures_change_nothing_def demo_fs_files_def on_files_def demo_files_def
  by (auto simp: min_def take_all split: if_splits option.splits prod.splits)

definition demo_program ::
  "(u64 \<times> u64, path, fd, fd, nat, fd list \<times> nat \<times> nat) e2e_env" where
  "demo_program = \<lparr>y_profile = Debug, y_os = demo_os, y_uuid = demo_uuid, y_now = None, y_ctx = demo_ctx,
     y_files = demo_fs_files, y_net = demo_wire, y_bind = demo_bind, y_addr = 2\<rparr>"

theorem end_to_end_never_succeeds_demo:
  "end_to_end demo_program (replicate 3 False @ replicate 20 True @ replicate 9000 False)
     \<lparr>fs_files = (\<lambda>_. None), fs_verdict = (\<lambda>_. Allow 4096), fs_calls = 0\<rparr> ([], 0, 0) \<noteq> Some (Ok ())"
  using end_to_end_never_succeeds [of demo_program "\<lambda>(_, s, _). s" "\<lambda>(_, _, g). g" "([], 0, 0)" "\<lambda>h. h"
      "\<lparr>fs_files = (\<lambda>_. None), fs_verdict = (\<lambda>_. Allow 4096), fs_calls = 0\<rparr>"
      "replicate 3 False @ replicate 20 True @ replicate 9000 False"] demo_wire_law demo_fs_files_laws
  by (simp add: demo_program_def content_or_empty_def)

end
