(* ===== verification/Net_Executor.thy ===== *)
theory Net_Executor
  imports Net_Correctness
begin

text \<open>
  Tasks of the network engine on the one thread of \<open>tokio_uring\<close> (\<open>net/io_uring.rs\<close>, the
  guards in \<open>read\<close> and \<open>write\<close>). A task runs until it waits for a socket; \<open>read\<close> and \<open>write\<close>
  wait with the guard of the connection cache in hand. Locking a mutex whose guard is held
  blocks the thread, and with it the task that would give the guard back. A waiting task is
  polled when its completion has arrived. Modelled are the three operations that lock
  before anything else; connecting and accepting wait before they lock.
\<close>

datatype locking_op = OpRead fd | OpWrite fd "u8 list" | OpClose fd

primrec op_call :: "locking_op \<Rightarrow> 'a net_call" where
  "op_call (OpRead f) = CallRead f"
| "op_call (OpWrite f data) = CallWrite f data"
| "op_call (OpClose f) = CallClose f"

datatype 'a task = Pending locking_op | Reading 'a | Writing 'a "u8 list"
  | Done "(net_error, 'a NetworkResult) outcome"

record ('s, 'a, 'w) executor =
  ex_net :: "('s, 'a, 'w) net_state"
  ex_guard :: "nat option"
  ex_tasks :: "nat \<Rightarrow> 'a task"
  ex_blocked :: bool

definition task_done ::
  "nat \<Rightarrow> (net_error, 'a NetworkResult) outcome \<times> ('s, 'a, 'w) net_state \<Rightarrow> ('s, 'a, 'w) executor
    \<Rightarrow> ('s, 'a, 'w) executor" where
  "task_done t res x =
     x\<lparr>ex_tasks := (ex_tasks x)(t := Done (fst res)), ex_net := snd res, ex_guard := None\<rparr>"

text \<open>
  Whether the operation reaches its wait with the guard: the address was found, and nothing
  before the wait ends it.
\<close>

definition waits_with_guard ::
  "('l, 's, 'a, 'w) uring_net \<Rightarrow> NetworkEngine \<Rightarrow> locking_op \<Rightarrow> ('s, 'a, 'w) net_state \<Rightarrow> 'a task option" where
  "waits_with_guard N e op s =
     (if ns_poisoned s then None
      else
        (case op of
           OpRead f \<Rightarrow>
             (case find_addr N f (ns_conns s) of
                None \<Rightarrow> None
              | Some a \<Rightarrow>
                  if map_of (ns_conns s) a = None \<or> 2 ^ 63 \<le> unat (net_buffer_size (ne_config e)) then None
                  else Some (Reading a))
         | OpWrite f data \<Rightarrow>
             (case find_addr N f (ns_conns s) of
                None \<Rightarrow> None
              | Some a \<Rightarrow> if map_of (ns_conns s) a = None then None else Some (Writing a data))
         | OpClose f \<Rightarrow> None))"

text \<open>
  One poll. An operation that does not wait with the guard is one critical section; one
  that does is finished by the poll after its completion.
\<close>

definition poll ::
  "profile \<Rightarrow> 'u uuid_crate \<Rightarrow> 'u write_ctx \<Rightarrow> ('l, 's, 'a, 'w) uring_net \<Rightarrow> NetworkEngine \<Rightarrow> nat
    \<Rightarrow> ('s, 'a, 'w) executor \<Rightarrow> ('s, 'a, 'w) executor" where
  "poll p U c N e t x =
     (if ex_blocked x then x
      else
        (case ex_tasks x t of
           Done _ \<Rightarrow> x
         | Pending op \<Rightarrow>
             if ex_guard x \<noteq> None then x\<lparr>ex_blocked := True\<rparr>
             else
               (case waits_with_guard N e op (ex_net x) of
                  Some task \<Rightarrow> x\<lparr>ex_tasks := (ex_tasks x)(t := task), ex_guard := Some t\<rparr>
                | None \<Rightarrow> task_done t (net_perform p U c N e (op_call op) (ex_net x)) x)
         | Reading a \<Rightarrow>
             task_done t
               (and_then
                  (locked (\<lambda>s.
                     case map_of (ns_conns s) a of
                       None \<Rightarrow> (Err ConnectionRemoved, s)
                     | Some st \<Rightarrow>
                         (case un_read N st (replicate (unat (net_buffer_size (ne_config e))) 0) (ns_sys s) of
                            ((None, buf), w) \<Rightarrow> (Err SocketReadFailed, s\<lparr>ns_sys := w\<rparr>)
                          | ((Some n, buf), w) \<Rightarrow>
                              and_then (net_notify p U c e NetworkReceive (un_addr_text N a) (s\<lparr>ns_sys := w\<rparr>))
                                (\<lambda>_ s1. if length buf < n then (Panic IndexOutOfBounds, s1) else (Ok (take n buf), s1))))
                     (ex_net x))
                  (\<lambda>d s. (Ok (NetRead d), s))) x
         | Writing a data \<Rightarrow>
             task_done t
               (and_then
                  (locked (\<lambda>s.
                     case map_of (ns_conns s) a of
                       None \<Rightarrow> (Err ConnectionRemoved, s)
                     | Some st \<Rightarrow>
                         (case un_write N st data (ns_sys s) of
                            (None, w) \<Rightarrow> (Err SocketWriteFailed, s\<lparr>ns_sys := w\<rparr>)
                          | (Some n, w) \<Rightarrow>
                              and_then (net_notify p U c e NetworkSend (un_addr_text N a) (s\<lparr>ns_sys := w\<rparr>))
                                (\<lambda>_ s1. (Ok n, s1))))
                     (ex_net x))
                  (\<lambda>n s. (Ok (NetWrite n), s))) x))"

lemma poll_blocked: "ex_blocked x \<Longrightarrow> poll p U c N e t x = x"
  by (simp add: poll_def)

lemma polls_blocked: "ex_blocked x \<Longrightarrow> fold (poll p U c N e) ts x = x"
  by (induction ts) (simp_all add: poll_blocked)

text \<open>Left alone, a waiting operation finishes with the result of the operation as one step.\<close>

lemma poll_finishes:
  assumes "waits_with_guard N e op (ex_net x) = Some task" "ex_tasks x t = task" "\<not> ex_blocked x"
  shows "poll p U c N e t x = task_done t (net_perform p U c N e (op_call op) (ex_net x)) x"
proof (cases op)
  case (OpRead f)
  then obtain a st where a: "find_addr N f (ns_conns (ex_net x)) = Some a"
    "map_of (ns_conns (ex_net x)) a = Some st" "task = Reading a" "\<not> ns_poisoned (ex_net x)"
    "unat (net_buffer_size (ne_config e)) < 2 ^ 63"
    using assms(1) by (auto simp: waits_with_guard_def split: if_splits option.splits)
  then show ?thesis
    using assms(2,3) OpRead
    by (simp add: poll_def net_read_def lookup_addr_def locked_def Let_def)
next
  case (OpWrite f data)
  then obtain a st where a: "find_addr N f (ns_conns (ex_net x)) = Some a"
    "map_of (ns_conns (ex_net x)) a = Some st" "task = Writing a data" "\<not> ns_poisoned (ex_net x)"
    using assms(1) by (auto simp: waits_with_guard_def split: if_splits option.splits)
  then show ?thesis
    using assms(2,3) OpWrite by (simp add: poll_def net_write_def lookup_addr_def locked_def)
qed (use assms(1) in \<open>simp_all add: waits_with_guard_def split: if_splits\<close>)

text \<open>
  C18: A read or a write of an open connection keeps the guard while it waits. Polled again
  when its completion has arrived, it finishes with exactly the result of the operation in
  one step, and the guard is free. But if any other read, write or close of the engine is
  polled while it waits, the thread is blocked for good: no sequence of polls changes
  anything any more, so neither the waiting operation nor the other one ever finishes.
\<close>

theorem waiting_operation_blocks_the_thread:
  assumes "\<not> ex_blocked x" "ex_guard x = None" "ex_tasks x t = Pending op"
    and "waits_with_guard N e op (ex_net x) = Some task"
    and "ex_tasks x u = Pending other" "u \<noteq> t"
  shows "poll p U c N e t (poll p U c N e t x) = task_done t (net_perform p U c N e (op_call op) (ex_net x)) x \<and>
    fold (poll p U c N e) ts (poll p U c N e u (poll p U c N e t x)) =
      x\<lparr>ex_tasks := (ex_tasks x)(t := task), ex_guard := Some t, ex_blocked := True\<rparr>"
proof -
  let ?y = "x\<lparr>ex_tasks := (ex_tasks x)(t := task), ex_guard := Some t\<rparr>"
  have y: "poll p U c N e t x = ?y" using assms(1-4) by (simp add: poll_def)
  have "poll p U c N e t ?y = task_done t (net_perform p U c N e (op_call op) (ex_net ?y)) ?y"
    by (rule poll_finishes) (use assms(1,4) in simp_all)
  then have fin: "poll p U c N e t ?y = task_done t (net_perform p U c N e (op_call op) (ex_net x)) x"
    by (simp add: task_done_def)
  have "poll p U c N e u ?y = ?y\<lparr>ex_blocked := True\<rparr>" using assms(1,5,6) by (simp add: poll_def)
  then show ?thesis using fin by (simp add: y polls_blocked)
qed

theorem waiting_operation_blocks_the_thread_demo:
  "\<exists>s1. net_connect Debug demo_uuid demo_ctx demo_net demo_net_engine 2 demo_net_state = (Ok 4, s1) \<and>
    ex_blocked (fold (poll Debug demo_uuid demo_ctx demo_net demo_net_engine) [0, 1, 0, 0, 1]
      \<lparr>ex_net = s1, ex_guard = None,
        ex_tasks = (\<lambda>t. if t = 0 then Pending (OpRead 4) else Pending (OpClose 9)), ex_blocked = False\<rparr>)"
proof -
  obtain s1 where s1:
    "net_connect Debug demo_uuid demo_ctx demo_net demo_net_engine 2 demo_net_state = (Ok 4, s1)"
    "net_ok demo_net set demo_net_engine s1" "ns_conns s1 = [(2, 4)]"
    by (rule demo_first_connect)
  let ?x = "\<lparr>ex_net = s1, ex_guard = None,
    ex_tasks = (\<lambda>t. if t = 0 then Pending (OpRead 4) else Pending (OpClose 9)), ex_blocked = False\<rparr>"
  have w: "waits_with_guard demo_net demo_net_engine (OpRead 4) (ex_net ?x) = Some (Reading 2)"
    using s1(2) by (simp add: waits_with_guard_def s1(3) net_ok_def demo_net_def demo_net_engine_def demo_net_config_def)
  have "\<not> ex_blocked ?x" "ex_guard ?x = None" "ex_tasks ?x 0 = Pending (OpRead 4)"
    "ex_tasks ?x 1 = Pending (OpClose 9)" "(1 :: nat) \<noteq> 0" by simp_all
  from waiting_operation_blocks_the_thread [OF this(1-3) w this(4,5), of Debug demo_uuid demo_ctx "[0, 0, 1]"]
  show ?thesis using s1(1) by (intro exI [of _ s1]) simp
qed

end
