(* ===== verification/Net_Fallback.thy ===== *)
theory Net_Fallback
  imports Net_Uring Worker_Laws
begin

text \<open>
  The fallback network engine (\<open>net/fallback.rs\<close>): one worker task serves the operations
  on raw descriptors. Making a socket of a descriptor takes the descriptor over; it is
  closed when the socket is dropped and stays open when the socket is forgotten. The calls
  of the kernel are parameters.
\<close>

record StdNetConfig =
  snc_worker_threads :: u64
  snc_pin_threads :: bool
  snc_buffer_size :: u64
  snc_numa_node :: "nat option"

definition default_std_net_config :: StdNetConfig where
  "default_std_net_config =
     \<lparr>snc_worker_threads = 2, snc_pin_threads = True, snc_buffer_size = 64 * 1024, snc_numa_node = None\<rparr>"

datatype StdNetOperationType = StdAccept | StdConnect | StdNetRead | StdNetWrite | StdNetClose

record 'a StdNetOperation =
  sno_type :: StdNetOperationType
  sno_addr :: "'a option"
  sno_fd :: "fd option"
  sno_data :: "u8 list option"
  sno_callback :: "nat option"

datatype 'a StdNetResult = ResAccept fd 'a | ResConnect fd | ResRead "u8 list" | ResWrite nat | ResClose

datatype std_net_error = SnAcceptFailed | SnNoDescriptor | SnConnectFailed | SnNoAddress
  | SnReadFailed | SnWriteFailed | SnNoData | SnUnexpectedResult | SnSendFailed | SnReceiveFailed

subsection \<open>The kernel\<close>

record ('a, 'w) kernel_net =
  kn_accept :: "fd \<Rightarrow> 'w \<Rightarrow> (fd \<times> 'a) option \<times> 'w"
  kn_connect :: "'a \<Rightarrow> 'w \<Rightarrow> fd option \<times> 'w"
  kn_nonblocking :: "fd \<Rightarrow> 'w \<Rightarrow> 'w"
  kn_read :: "fd \<Rightarrow> u8 list \<Rightarrow> 'w \<Rightarrow> (nat option \<times> u8 list) \<times> 'w"
  kn_write :: "fd \<Rightarrow> u8 list \<Rightarrow> 'w \<Rightarrow> nat option \<times> 'w"
  kn_close :: "fd \<Rightarrow> 'w \<Rightarrow> 'w"

text \<open>
  A socket of the standard library owns its descriptor. The library asserts that the
  descriptor is not -1; \<open>forget\<close> keeps it open, \<open>drop\<close> closes it.
\<close>

definition from_raw_fd :: "fd \<Rightarrow> ('e, fd) outcome" where
  "from_raw_fd f = (if f = -1 then Panic AssertionFailed else Ok f)"

definition drop_socket :: "('a, 'w) kernel_net \<Rightarrow> fd \<Rightarrow> 'w \<Rightarrow> 'w" where
  "drop_socket K f w = kn_close K f w"

definition forget_socket :: "fd \<Rightarrow> 'w \<Rightarrow> 'w" where
  "forget_socket f w = w"

subsection \<open>The worker\<close>

text \<open>The listener is dropped at the end of its block, whatever accepting gave.\<close>

definition serve_accept ::
  "('a, 'w) kernel_net \<Rightarrow> fd option \<Rightarrow> 'w \<Rightarrow> (std_net_error, 'a StdNetResult) outcome \<times> 'w" where
  "serve_accept K fd_opt w =
     (case fd_opt of
        None \<Rightarrow> (Err SnNoDescriptor, w)
      | Some f \<Rightarrow>
          and_then (from_raw_fd f, w) (\<lambda>listener w.
            (case kn_accept K listener w of
               (Some (g, a), w1) \<Rightarrow>
                 (Ok (ResAccept g a), drop_socket K listener (forget_socket g w1))
             | (None, w1) \<Rightarrow> (Err SnAcceptFailed, drop_socket K listener w1))))"

definition serve_connect ::
  "('a, 'w) kernel_net \<Rightarrow> 'a option \<Rightarrow> 'w \<Rightarrow> (std_net_error, 'a StdNetResult) outcome \<times> 'w" where
  "serve_connect K addr_opt w =
     (case addr_opt of
        None \<Rightarrow> (Err SnNoAddress, w)
      | Some a \<Rightarrow>
          (case kn_connect K a w of
             (Some f, w1) \<Rightarrow> (Ok (ResConnect f), forget_socket f (kn_nonblocking K f w1))
           | (None, w1) \<Rightarrow> (Err SnConnectFailed, w1)))"

text \<open>A panic drops the socket too.\<close>

definition serve_net_read ::
  "('a, 'w) kernel_net \<Rightarrow> u64 \<Rightarrow> fd option \<Rightarrow> 'w \<Rightarrow> (std_net_error, 'a StdNetResult) outcome \<times> 'w" where
  "serve_net_read K buffer_size fd_opt w =
     (case fd_opt of
        None \<Rightarrow> (Err SnNoDescriptor, w)
      | Some f \<Rightarrow>
          and_then (from_raw_fd f, w) (\<lambda>stream w.
            if 2 ^ 63 \<le> unat buffer_size then (Panic CapacityOverflow, drop_socket K stream w)
            else
              (case kn_read K stream (replicate (unat buffer_size) 0) w of
                 ((Some n, buffer), w1) \<Rightarrow> (Ok (ResRead (take n buffer)), forget_socket stream w1)
               | ((None, buffer), w1) \<Rightarrow> (Err SnReadFailed, drop_socket K stream w1))))"

definition serve_net_write ::
  "('a, 'w) kernel_net \<Rightarrow> fd option \<Rightarrow> u8 list option \<Rightarrow> 'w
    \<Rightarrow> (std_net_error, 'a StdNetResult) outcome \<times> 'w" where
  "serve_net_write K fd_opt data w =
     (case fd_opt of
        None \<Rightarrow> (Err SnNoDescriptor, w)
      | Some f \<Rightarrow>
          (case data of
             None \<Rightarrow> (Err SnNoData, w)
           | Some bytes \<Rightarrow>
               and_then (from_raw_fd f, w) (\<lambda>stream w.
                 (case kn_write K stream bytes w of
                    (Some n, w1) \<Rightarrow> (Ok (ResWrite n), forget_socket stream w1)
                  | (None, w1) \<Rightarrow> (Err SnWriteFailed, drop_socket K stream w1)))))"

definition serve_net_close ::
  "('a, 'w) kernel_net \<Rightarrow> fd option \<Rightarrow> 'w \<Rightarrow> (std_net_error, 'a StdNetResult) outcome \<times> 'w" where
  "serve_net_close K fd_opt w =
     (case fd_opt of
        None \<Rightarrow> (Err SnNoDescriptor, w)
      | Some f \<Rightarrow>
          and_then (from_raw_fd f, w) (\<lambda>stream w. (Ok ResClose, drop_socket K stream w)))"

definition serve_net ::
  "('a, 'w) kernel_net \<Rightarrow> StdNetConfig \<Rightarrow> 'a StdNetOperation \<Rightarrow> 'w
    \<Rightarrow> (std_net_error, 'a StdNetResult) outcome \<times> 'w" where
  "serve_net K cfg op w =
     (case sno_type op of
        StdAccept \<Rightarrow> serve_accept K (sno_fd op) w
      | StdConnect \<Rightarrow> serve_connect K (sno_addr op) w
      | StdNetRead \<Rightarrow> serve_net_read K (snc_buffer_size cfg) (sno_fd op) w
      | StdNetWrite \<Rightarrow> serve_net_write K (sno_fd op) (sno_data op) w
      | StdNetClose \<Rightarrow> serve_net_close K (sno_fd op) w)"

subsection \<open>The engine\<close>

record StdNetEngine =
  sne_config :: StdNetConfig
  sne_ring :: ring_buffer

type_synonym ('ch, 'a, 'w) std_net_state = "('ch, std_net_error, 'a StdNetResult, 'w) worker_state"

definition std_net_new ::
  "profile \<Rightarrow> ('ch, 'a StdNetOperation) mpsc \<Rightarrow> StdNetConfig \<Rightarrow> ring_buffer \<Rightarrow> 'w
    \<Rightarrow> (std_net_error, StdNetEngine \<times> ('ch, 'a, 'w) std_net_state) outcome" where
  "std_net_new p C cfg rb w =
     bind_outcome (worker_new p C (snc_worker_threads cfg) w)
       (\<lambda>s. Ok (\<lparr>sne_config = cfg, sne_ring = rb\<rparr>, s))"

text \<open>What the closures of the methods make of a result.\<close>

definition accept_result :: "(std_net_error, 'a StdNetResult) outcome \<Rightarrow> (std_net_error, fd \<times> 'a) outcome" where
  "accept_result r =
     bind_outcome r (\<lambda>x. case x of ResAccept f a \<Rightarrow> Ok (f, a) | _ \<Rightarrow> Err SnUnexpectedResult)"

definition connect_result :: "(std_net_error, 'a StdNetResult) outcome \<Rightarrow> (std_net_error, fd) outcome" where
  "connect_result r = bind_outcome r (\<lambda>x. case x of ResConnect f \<Rightarrow> Ok f | _ \<Rightarrow> Err SnUnexpectedResult)"

definition read_result :: "(std_net_error, 'a StdNetResult) outcome \<Rightarrow> (std_net_error, u8 list) outcome" where
  "read_result r = bind_outcome r (\<lambda>x. case x of ResRead d \<Rightarrow> Ok d | _ \<Rightarrow> Err SnUnexpectedResult)"

definition write_result :: "(std_net_error, 'a StdNetResult) outcome \<Rightarrow> (std_net_error, nat) outcome" where
  "write_result r = bind_outcome r (\<lambda>x. case x of ResWrite n \<Rightarrow> Ok n | _ \<Rightarrow> Err SnUnexpectedResult)"

definition close_result :: "(std_net_error, 'a StdNetResult) outcome \<Rightarrow> (std_net_error, unit) outcome" where
  "close_result r = bind_outcome r (\<lambda>x. case x of ResClose \<Rightarrow> Ok () | _ \<Rightarrow> Err SnUnexpectedResult)"

definition net_call ::
  "('ch, 'a StdNetOperation) mpsc \<Rightarrow> ('a, 'w) kernel_net \<Rightarrow> StdNetConfig \<Rightarrow> (nat \<Rightarrow> 'a StdNetOperation)
    \<Rightarrow> ('ch, 'a, 'w) std_net_state
    \<Rightarrow> ((std_net_error, 'a StdNetResult) outcome \<times> ('ch, 'a, 'w) std_net_state) option" where
  "net_call C K cfg = worker_call C (serve_net K cfg) sno_callback SnSendFailed SnReceiveFailed"

definition std_net_accept ::
  "('ch, 'a StdNetOperation) mpsc \<Rightarrow> ('a, 'w) kernel_net \<Rightarrow> StdNetEngine \<Rightarrow> fd \<Rightarrow> ('ch, 'a, 'w) std_net_state
    \<Rightarrow> ((std_net_error, fd \<times> 'a) outcome \<times> ('ch, 'a, 'w) std_net_state) option" where
  "std_net_accept C K e f s = map_option (map_prod accept_result id) (net_call C K (sne_config e) (\<lambda>t.
     \<lparr>sno_type = StdAccept, sno_addr = None, sno_fd = Some f, sno_data = None, sno_callback = Some t\<rparr>) s)"

definition std_net_connect ::
  "('ch, 'a StdNetOperation) mpsc \<Rightarrow> ('a, 'w) kernel_net \<Rightarrow> StdNetEngine \<Rightarrow> 'a \<Rightarrow> ('ch, 'a, 'w) std_net_state
    \<Rightarrow> ((std_net_error, fd) outcome \<times> ('ch, 'a, 'w) std_net_state) option" where
  "std_net_connect C K e a s = map_option (map_prod connect_result id) (net_call C K (sne_config e) (\<lambda>t.
     \<lparr>sno_type = StdConnect, sno_addr = Some a, sno_fd = None, sno_data = None, sno_callback = Some t\<rparr>) s)"

definition std_net_read ::
  "('ch, 'a StdNetOperation) mpsc \<Rightarrow> ('a, 'w) kernel_net \<Rightarrow> StdNetEngine \<Rightarrow> fd \<Rightarrow> ('ch, 'a, 'w) std_net_state
    \<Rightarrow> ((std_net_error, u8 list) outcome \<times> ('ch, 'a, 'w) std_net_state) option" where
  "std_net_read C K e f s = map_option (map_prod read_result id) (net_call C K (sne_config e) (\<lambda>t.
     \<lparr>sno_type = StdNetRead, sno_addr = None, sno_fd = Some f, sno_data = None, sno_callback = Some t\<rparr>) s)"

definition std_net_write ::
  "('ch, 'a StdNetOperation) mpsc \<Rightarrow> ('a, 'w) kernel_net \<Rightarrow> StdNetEngine \<Rightarrow> fd \<Rightarrow> u8 list \<Rightarrow> ('ch, 'a, 'w) std_net_state
    \<Rightarrow> ((std_net_error, nat) outcome \<times> ('ch, 'a, 'w) std_net_state) option" where
  "std_net_write C K e f data s = map_option (map_prod write_result id) (net_call C K (sne_config e) (\<lambda>t.
     \<lparr>sno_type = StdNetWrite, sno_addr = None, sno_fd = Some f, sno_data = Some data, sno_callback = Some t\<rparr>) s)"

definition std_net_close ::
  "('ch, 'a StdNetOperation) mpsc \<Rightarrow> ('a, 'w) kernel_net \<Rightarrow> StdNetEngine \<Rightarrow> fd \<Rightarrow> ('ch, 'a, 'w) std_net_state
    \<Rightarrow> ((std_net_error, unit) outcome \<times> ('ch, 'a, 'w) std_net_state) option" where
  "std_net_close C K e f s = map_option (map_prod close_result id) (net_call C K (sne_config e) (\<lambda>t.
     \<lparr>sno_type = StdNetClose, sno_addr = None, sno_fd = Some f, sno_data = None, sno_callback = Some t\<rparr>) s)"

definition std_net_drop :: "('ch, 'a, 'w) std_net_state \<Rightarrow> ('ch, 'a, 'w) std_net_state" where
  "std_net_drop s = worker_drop s"

subsection \<open>When the service does not panic\<close>

text \<open>
  Two things end the worker: a descriptor -1, and a configured buffer that no allocation
  can hold.
\<close>

definition servable :: "StdNetConfig \<Rightarrow> 'a StdNetOperation \<Rightarrow> bool" where
  "servable cfg op \<longleftrightarrow> sno_fd op \<noteq> Some (-1) \<and>
     (sno_type op = StdNetRead \<longrightarrow> unat (snc_buffer_size cfg) < 2 ^ 63)"

lemma from_raw_fd_Ok [simp]: "f \<noteq> -1 \<Longrightarrow> from_raw_fd f = Ok f"
  by (simp add: from_raw_fd_def)

lemma serve_returns_parts:
  "fo \<noteq> Some (-1) \<Longrightarrow> returned (fst (serve_accept K fo w))"
  "returned (fst (serve_connect K ao w))"
  "fo \<noteq> Some (-1) \<Longrightarrow> unat n < 2 ^ 63 \<Longrightarrow> returned (fst (serve_net_read K n fo w))"
  "fo \<noteq> Some (-1) \<Longrightarrow> returned (fst (serve_net_write K fo data w))"
  "fo \<noteq> Some (-1) \<Longrightarrow> returned (fst (serve_net_close K fo w))"
  by (auto simp: serve_accept_def serve_connect_def serve_net_read_def serve_net_write_def
      serve_net_close_def from_raw_fd_def split: option.split prod.split)

lemma serve_net_returns: "servable cfg op \<Longrightarrow> returned (fst (serve_net K cfg op w))"
  by (cases "sno_type op") (simp_all add: serve_net_def servable_def serve_returns_parts)

interpretation net_service: total_service "serve_net K cfg" sno_callback "servable cfg" for K cfg
  by unfold_locales (rule serve_net_returns)

end
