(* ===== verification/Fallback_Correctness.thy ===== *)
theory Fallback_Correctness
  imports Disk_Fallback Net_Fallback Net_Correctness
begin

text \<open>
  The properties of the two fallback engines, and a small system for them.
\<close>

subsection \<open>Engines that were only used\<close>

lemma std_disk_new_state:
  assumes "mpsc_laws C items room" "std_disk_new p C cfg rb fs = Ok (e, s0)"
  shows "in_order items room callback good s0" "wk_alive s0" "0 < room (wk_chan s0)"
proof -
  have "(worker_new p C (sdc_worker_threads cfg) fs :: (std_disk_error, _) outcome) = Ok s0"
    using assms(2) by (auto simp: std_disk_new_def bind_outcome_Ok_iff)
  from worker_new_in_order [OF assms(1) this]
  show "in_order items room callback good s0" "wk_alive s0" "0 < room (wk_chan s0)" by simp_all
qed

lemma std_net_new_state:
  assumes "mpsc_laws C items room" "std_net_new p C cfg rb w = Ok (e, s0)"
  shows "in_order items room callback good s0" "wk_alive s0" "0 < room (wk_chan s0)" "sne_config e = cfg"
proof -
  have "(worker_new p C (snc_worker_threads cfg) w :: (std_net_error, _) outcome) = Ok s0"
    and e: "sne_config e = cfg"
    using assms(2) by (auto simp: std_net_new_def bind_outcome_Ok_iff)
  from worker_new_in_order [OF assms(1) this(1)] e
  show "in_order items room callback good s0" "wk_alive s0" "0 < room (wk_chan s0)" "sne_config e = cfg"
    by simp_all
qed

text \<open>The files after the operations that still wait in the channel.\<close>

definition settled_files :: "('ch \<Rightarrow> StdDiskOperation list) \<Rightarrow> 'ch std_disk_state \<Rightarrow> file_system" where
  "settled_files items s = snd (snd (serve_all serve_disk sdo_callback (items (wk_chan s)) (wk_sys s)))"

definition disk_ready :: "('ch \<Rightarrow> StdDiskOperation list) \<Rightarrow> ('ch \<Rightarrow> nat) \<Rightarrow> 'ch std_disk_state \<Rightarrow> bool" where
  "disk_ready items room s \<longleftrightarrow>
     in_order items room sdo_callback (\<lambda>_. True) s \<and> wk_alive s \<and> 0 < room (wk_chan s)"

lemma disk_reach_ready:
  assumes "mpsc_laws C items room" "std_disk_new p C cfg rb fs = Ok (e, s0)"
    and "worker_reach C serve_disk sdo_callback (\<lambda>_. True) s0 s"
  shows "disk_ready items room s"
proof -
  note n = std_disk_new_state(1) [OF assms(1,2), of sdo_callback "\<lambda>_. True"]
    std_disk_new_state(2,3) [OF assms(1,2)]
  show ?thesis
    using worker_reach_in_order [OF assms(3,1) n(1)] disk_service.reach_alive [OF assms(3,1) n(1,2)] n(3)
    by (simp add: disk_ready_def)
qed

lemma disk_call_served:
  assumes "mpsc_laws C items room" "disk_ready items room s" "sdo_callback (mk (wk_next s)) = Some (wk_next s)"
  obtains s' where "disk_call C mk s = Some (fst (serve_disk (mk (wk_next s)) (settled_files items s)), s')"
    "wk_sys s' = snd (serve_disk (mk (wk_next s)) (settled_files items s))"
    "disk_ready items room s'" "items (wk_chan s') = []"
proof -
  have r: "in_order items room sdo_callback (\<lambda>_. True) s" "wk_alive s" "0 < room (wk_chan s)"
    using assms(2) by (simp_all add: disk_ready_def)
  obtain s' w where
    "worker_call C serve_disk sdo_callback StdSendFailed StdReceiveFailed mk s = Some (fst (serve_disk (mk (wk_next s)) w), s')"
    "w = snd (snd (serve_all serve_disk sdo_callback (items (wk_chan s)) (wk_sys s)))"
    "wk_sys s' = snd (serve_disk (mk (wk_next s)) w)" "in_order items room sdo_callback (\<lambda>_. True) s'"
    "wk_alive s'" "items (wk_chan s') = []" "room (wk_chan s') = room (wk_chan s)"
    by (rule disk_service.call_served [where mk = mk, OF assms(1) r TrueI assms(3)]) (rule that)
  then show ?thesis using that r(3) by (simp add: disk_call_def settled_files_def disk_ready_def)
qed

lemma settled_files_idle: "items (wk_chan s) = [] \<Longrightarrow> settled_files items s = wk_sys s"
  by (simp add: settled_files_def)

lemma std_write_file_effect:
  assumes "mpsc_laws C items room" "disk_ready items room s"
    and "std_write_file C q off data s = Some (r, s1)"
  shows "disk_ready items room s1 \<and> items (wk_chan s1) = [] \<and>
    wk_sys s1 = snd (serve_write q off (Some data) (settled_files items s)) \<and>
    r = unit_result (fst (serve_write q off (Some data) (settled_files items s)))"
proof -
  obtain s' where c: "disk_call C (\<lambda>t. \<lparr>sdo_type = StdWrite, sdo_path = q, sdo_offset = off,
        sdo_data = Some data, sdo_callback = Some t\<rparr>) s =
      Some (fst (serve_write q off (Some data) (settled_files items s)), s')"
    "wk_sys s' = snd (serve_write q off (Some data) (settled_files items s))"
    "disk_ready items room s'" "items (wk_chan s') = []"
    by (rule disk_call_served [OF assms(1,2), of "\<lambda>t. \<lparr>sdo_type = StdWrite, sdo_path = q,
        sdo_offset = off, sdo_data = Some data, sdo_callback = Some t\<rparr>"]) (simp_all add: serve_disk_def)
  then show ?thesis using assms(3) by (auto simp: std_write_file_def)
qed

lemma std_read_file_effect:
  assumes "mpsc_laws C items room" "disk_ready items room s"
    and "std_read_file C q off s = Some (r, s1)"
  shows "disk_ready items room s1 \<and> serve_read q off (settled_files items s) = (r, wk_sys s1)"
proof -
  obtain s' where c: "disk_call C (\<lambda>t. \<lparr>sdo_type = StdRead, sdo_path = q, sdo_offset = off,
        sdo_data = None, sdo_callback = Some t\<rparr>) s =
      Some (fst (serve_read q off (settled_files items s)), s')"
    "wk_sys s' = snd (serve_read q off (settled_files items s))"
    "disk_ready items room s'" "items (wk_chan s') = []"
    by (rule disk_call_served [OF assms(1,2), of "\<lambda>t. \<lparr>sdo_type = StdRead, sdo_path = q,
        sdo_offset = off, sdo_data = None, sdo_callback = Some t\<rparr>"]) (simp_all add: serve_disk_def)
  then show ?thesis using assms(3) by (auto simp: std_read_file_def)
qed

subsection \<open>A system\<close>

text \<open>No file exists; the kernel refuses nothing and moves at most two bytes at a time.\<close>

definition demo_fs :: file_system where
  "demo_fs = \<lparr>fs_files = (\<lambda>_. None), fs_verdict = (\<lambda>_. Allow 2), fs_calls = 0\<rparr>"

definition demo_std_disk :: "(nat \<times> StdDiskOperation list) std_disk_state" where
  "demo_std_disk = \<lparr>wk_chan = (64, []), wk_alive = True, wk_replies = [], wk_next = 0, wk_sys = demo_fs\<rparr>"

lemma demo_std_disk_new:
  "std_disk_new Debug list_channel default_std_disk_config demo_ring demo_fs =
     Ok (\<lparr>sde_config = default_std_disk_config, sde_ring = demo_ring\<rparr>, demo_std_disk)"
  by (simp add: std_disk_new_def worker_new_def default_std_disk_config_def list_channel_def
      demo_std_disk_def usize_mul_def overflowing_def)

lemma demo_std_disk_reach:
  "worker_reach list_channel serve_disk sdo_callback (\<lambda>_. True) demo_std_disk demo_std_disk"
  by (rule worker_reach.start)

subsection \<open>The worker\<close>

text \<open>
  C14: The loop of a fallback engine's worker comes to an end at every state, with an empty
  channel if it is still running, and has done exactly what serving the waiting operations
  one after the other does: the same replies in the same order, the same system.
\<close>

theorem worker_is_sequential:
  assumes "mpsc_laws C items room" "wk_alive s"
    and "serve_all serve callback (items (wk_chan s)) (wk_sys s) = (replies, alive, w)"
  shows "\<exists>s'. worker_loop C serve callback s = Some s' \<and> wk_alive s' = alive \<and>
    wk_replies s' = wk_replies s @ replies \<and> wk_sys s' = w \<and>
    (alive \<longrightarrow> items (wk_chan s') = []) \<and> worker_step C serve callback s' = None"
proof -
  obtain ch where ch: "worker_loop C serve callback s =
      Some (s\<lparr>wk_chan := ch, wk_alive := alive, wk_replies := wk_replies s @ replies, wk_sys := w\<rparr>)"
    "alive \<longrightarrow> items ch = []"
    using worker_loop_eq [OF assms] by blast
  let ?s = "s\<lparr>wk_chan := ch, wk_alive := alive, wk_replies := wk_replies s @ replies, wk_sys := w\<rparr>"
  have "worker_step C serve callback ?s = None"
    using ch(2) mpsc_lawsD(6) [OF assms(1), of ch]
    by (cases "mp_recv C ch") (auto simp: worker_step_def)
  then show ?thesis using ch by (intro exI [of _ ?s]) simp
qed

theorem worker_is_sequential_demo:
  "\<exists>s'. worker_loop list_channel serve_disk sdo_callback
      (demo_std_disk\<lparr>wk_next := 2, wk_chan := (64,
        [\<lparr>sdo_type = StdSync, sdo_path = [97], sdo_offset = 0, sdo_data = None, sdo_callback = Some 0\<rparr>,
         \<lparr>sdo_type = StdClose, sdo_path = [97], sdo_offset = 0, sdo_data = None, sdo_callback = Some 1\<rparr>])\<rparr>) =
      Some s' \<and> wk_replies s' = [(0, Err StdOpenFailed), (1, Ok [])]"
  using worker_is_sequential [OF list_channel_laws, of "demo_std_disk\<lparr>wk_next := 2, wk_chan := (64,
        [\<lparr>sdo_type = StdSync, sdo_path = [97], sdo_offset = 0, sdo_data = None, sdo_callback = Some 0\<rparr>,
         \<lparr>sdo_type = StdClose, sdo_path = [97], sdo_offset = 0, sdo_data = None, sdo_callback = Some 1\<rparr>])\<rparr>"
      serve_disk sdo_callback]
  by (auto simp: demo_std_disk_def demo_fs_def serve_disk_def serve_sync_def std_open_def syscall_def reply_to_def)

text \<open>
  C12: Nothing stops the worker of the fallback disk engine and no caller is forgotten:
  however reads, writes, syncs and closes were submitted and served, and the files changed by
  others, the worker is alive, the replies sent so far are those of the first callers in
  the order of their calls, and letting the worker run answers every caller exactly once.
\<close>

theorem disk_worker_answers_everyone:
  assumes "mpsc_laws C items room" "std_disk_new p C cfg rb fs = Ok (e, s0)"
    and "worker_reach C serve_disk sdo_callback (\<lambda>_. True) s0 s"
  shows "wk_alive s \<and> (\<exists>k\<le>wk_next s. map fst (wk_replies s) = [0..<k]) \<and>
    (\<exists>s'. worker_loop C serve_disk sdo_callback s = Some s' \<and> wk_alive s' \<and>
       items (wk_chan s') = [] \<and> map fst (wk_replies s') = [0..<wk_next s] \<and>
       (\<exists>rs. wk_replies s' = wk_replies s @ rs))"
proof -
  have r: "in_order items room sdo_callback (\<lambda>_. True) s" "wk_alive s"
    using disk_reach_ready [OF assms] by (simp_all add: disk_ready_def)
  then obtain k where k: "k \<le> wk_next s" "map fst (wk_replies s) = [0..<k]"
    "map sdo_callback (items (wk_chan s)) = map Some [k..<wk_next s]"
    "list_all (\<lambda>_. True) (items (wk_chan s))"
    by (auto simp: in_order_def)
  obtain s' rs where "worker_loop C serve_disk sdo_callback s = Some s'" "wk_alive s'"
    "items (wk_chan s') = []" "wk_replies s' = wk_replies s @ rs" "map fst rs = [k..<wk_next s]"
    by (rule disk_service.loop_answers_all [OF assms(1) r(2) k(4,3)]) (rule that)
  then show ?thesis using r(2) k(1,2) upt_join [OF k(1)] by auto
qed

theorem disk_worker_answers_everyone_demo:
  "\<exists>s'. worker_loop list_channel serve_disk sdo_callback
      (demo_std_disk\<lparr>wk_next := 1, wk_chan := (64,
        [\<lparr>sdo_type = StdClose, sdo_path = [97], sdo_offset = 0, sdo_data = None, sdo_callback = Some 0\<rparr>])\<rparr>) =
      Some s' \<and> map fst (wk_replies s') = [0]"
proof -
  let ?op = "\<lparr>sdo_type = StdClose, sdo_path = [97], sdo_offset = 0, sdo_data = None, sdo_callback = Some 0\<rparr>"
  have "worker_reach list_channel serve_disk sdo_callback (\<lambda>_. True) demo_std_disk
      (demo_std_disk\<lparr>wk_chan := (64, [?op]), wk_next := wk_next demo_std_disk + 1\<rparr>)"
    by (rule worker_reach.submit [OF demo_std_disk_reach, of ?op])
      (simp_all add: demo_std_disk_def list_channel_def)
  from disk_worker_answers_everyone [OF list_channel_laws demo_std_disk_new this]
  show ?thesis by (auto simp: demo_std_disk_def)
qed

subsection \<open>Files\<close>

text \<open>
  C13: A write of the fallback disk engine that reports success has put all of its data
  into the file, at its offset and after what was submitted before it, whatever short
  writes the kernel makes. A read of the same place then returns a piece of the file of at
  most 4096 bytes, which is only empty at the end of the file, so it starts with the data.
\<close>

theorem fallback_disk_round_trip:
  assumes "mpsc_laws C items room" "std_disk_new p C cfg rb fs = Ok (e, s0)"
    and "worker_reach C serve_disk sdo_callback (\<lambda>_. True) s0 s"
    and "std_write_file C q off data s = Some (Ok (), s1)"
    and "std_read_file C q off s1 = Some (Ok bytes, s2)"
  shows "\<exists>file. fs_files (wk_sys s1) = (fs_files (settled_files items s))(q := Some file) \<and>
    file = splice_at (unat off) data (content_or_empty q (settled_files items s)) \<and>
    fs_files (wk_sys s2) = fs_files (wk_sys s1) \<and>
    bytes = take (length bytes) (drop (unat off) file) \<and> length bytes \<le> 4096 \<and>
    take (length data) bytes = take (length bytes) data \<and> (bytes = [] \<longrightarrow> data = [])"
proof -
  note r = disk_reach_ready [OF assms(1-3)]
  have w: "disk_ready items room s1" "items (wk_chan s1) = []"
    "wk_sys s1 = snd (serve_write q off (Some data) (settled_files items s))"
    "unit_result (fst (serve_write q off (Some data) (settled_files items s))) = Ok ()"
    using std_write_file_effect [OF assms(1) r assms(4)] by simp_all
  let ?file = "splice_at (unat off) data (content_or_empty q (settled_files items s))"
  have f: "fs_files (wk_sys s1) = (fs_files (settled_files items s))(q := Some ?file)"
    using serve_write_effect [of q off data "settled_files items s" _ "wk_sys s1"] w(3,4)
    by (metis bind_outcome.simps(2) outcome.distinct(1) prod.collapse unit_result_def)
  have "serve_read q off (wk_sys s1) = (Ok bytes, wk_sys s2)"
    using std_read_file_effect [OF assms(1) w(1) assms(5)] settled_files_idle [of items s1] w(2) by simp
  from serve_read_effect [OF this] f have b: "fs_files (wk_sys s2) = fs_files (wk_sys s1)"
    "length bytes \<le> 4096" "bytes = take (length bytes) (drop (unat off) ?file)"
    "bytes = [] \<longrightarrow> length ?file \<le> unat off"
    by auto
  have d: "take (length data) (drop (unat off) ?file) = data" by (rule splice_at_back)
  have "take (length data) bytes = take (length bytes) data"
    using arg_cong [OF b(3), of "take (length data)"] arg_cong [OF d, of "take (length bytes)"]
    by (metis min.commute take_take)
  moreover have "bytes = [] \<longrightarrow> data = []" using b(4) d by auto
  ultimately show ?thesis using f b(1-3) by blast
qed

theorem fallback_disk_round_trip_demo:
  "\<exists>s1 s2 bytes. std_write_file list_channel [97] 0 [1, 2, 3] demo_std_disk = Some (Ok (), s1) \<and>
     fs_files (wk_sys s1) [97] = Some [1, 2, 3] \<and>
     std_read_file list_channel [97] 0 s1 = Some (Ok bytes, s2) \<and>
     take 3 bytes = take (length bytes) [1, 2, 3] \<and> bytes \<noteq> []"
proof -
  have ready: "disk_ready snd fst demo_std_disk"
    by (rule disk_reach_ready [OF list_channel_laws demo_std_disk_new demo_std_disk_reach])
  have idle: "settled_files snd demo_std_disk = demo_fs"
    by (simp add: settled_files_def demo_std_disk_def)
  have sw: "serve_write [97] 0 (Some [1, 2, 3]) demo_fs = (Ok [], demo_fs\<lparr>fs_files := [[97] \<mapsto> [1, 2, 3]], fs_calls := 4\<rparr>)"
    by (simp add: serve_write_def std_open_create_def std_seek_def syscall_def demo_fs_def
        std_write_all.simps std_contents_def splice_at_def fun_eq_iff)
  obtain s1 where s1: "std_write_file list_channel [97] 0 [1, 2, 3] demo_std_disk = Some (Ok (), s1)"
    "disk_ready snd fst s1" "snd (wk_chan s1) = []"
  proof (rule disk_call_served [OF list_channel_laws ready, of "\<lambda>t. \<lparr>sdo_type = StdWrite, sdo_path = [97],
      sdo_offset = 0, sdo_data = Some [1, 2, 3], sdo_callback = Some t\<rparr>"])
    fix s'
    assume "disk_call list_channel (\<lambda>t. \<lparr>sdo_type = StdWrite, sdo_path = [97], sdo_offset = 0,
        sdo_data = Some [1, 2, 3], sdo_callback = Some t\<rparr>) demo_std_disk =
      Some (fst (serve_disk \<lparr>sdo_type = StdWrite, sdo_path = [97], sdo_offset = 0, sdo_data = Some [1, 2, 3],
        sdo_callback = Some (wk_next demo_std_disk)\<rparr> (settled_files snd demo_std_disk)), s')"
      and "disk_ready snd fst s'" "snd (wk_chan s') = []"
    then show thesis
      using that [of s'] by (simp add: std_write_file_def serve_disk_def idle sw unit_result_def)
  qed simp
  have sys: "wk_sys s1 = demo_fs\<lparr>fs_files := [[97] \<mapsto> [1, 2, 3]], fs_calls := 4\<rparr>"
    using std_write_file_effect [OF list_channel_laws ready s1(1)] by (simp add: idle sw)
  obtain s2 where s2: "std_read_file list_channel [97] 0 s1 = Some (fst (serve_read [97] 0 (wk_sys s1)), s2)"
    by (rule disk_call_served [OF list_channel_laws s1(2), of "\<lambda>t. \<lparr>sdo_type = StdRead, sdo_path = [97],
        sdo_offset = 0, sdo_data = None, sdo_callback = Some t\<rparr>"])
      (use that in \<open>simp_all add: std_read_file_def serve_disk_def settled_files_idle s1(3)\<close>)
  have "fst (serve_read [97] 0 (wk_sys s1)) = Ok [1, 2]"
    by (simp add: sys serve_read_def std_open_def std_seek_def std_read_def std_contents_def syscall_def demo_fs_def)
  then have rd: "std_read_file list_channel [97] 0 s1 = Some (Ok [1, 2], s2)" using s2 by simp
  have "take (length [1, 2, 3 :: u8]) [1, 2 :: u8] = take (length [1, 2 :: u8]) [1, 2, 3]"
    using fallback_disk_round_trip [OF list_channel_laws demo_std_disk_new demo_std_disk_reach s1(1) rd] by blast
  moreover have "fs_files (wk_sys s1) [97] = Some [1, 2, 3]" by (simp add: sys)
  ultimately show ?thesis
    using s1(1) rd by (intro exI [of _ s1] exI [of _ s2] exI [of _ "[1, 2]"]) simp
qed

end
