(* ===== verification/Net_Fallback_Correctness.thy ===== *)
theory Net_Fallback_Correctness
  imports Fallback_Correctness
begin

text \<open>
  The properties of the fallback network engine, and a small kernel for it. The laws of
  the kernel are the documented ones: a new descriptor is one that was not open, closing
  frees it, and no other call opens or closes one.
\<close>

definition kernel_laws :: "('a, 'w) kernel_net \<Rightarrow> ('w \<Rightarrow> fd set) \<Rightarrow> bool" where
  "kernel_laws K fds \<longleftrightarrow>
     (\<forall>f w w'. kn_accept K f w = (None, w') \<longrightarrow> fds w' = fds w) \<and>
     (\<forall>f w g a w'. kn_accept K f w = (Some (g, a), w') \<longrightarrow>
        f \<in> fds w \<and> g \<notin> fds w \<and> fds w' = insert g (fds w)) \<and>
     (\<forall>f buf w r w'. kn_read K f buf w = (r, w') \<longrightarrow> fds w' = fds w) \<and>
     (\<forall>f data w r w'. kn_write K f data w = (r, w') \<longrightarrow> fds w' = fds w) \<and>
     (\<forall>f w. fds (kn_close K f w) = fds w - {f})"

lemma kernel_lawsD:
  assumes "kernel_laws K fds"
  shows "kn_accept K f w = (None, w') \<Longrightarrow> fds w' = fds w"
    and "kn_accept K f w = (Some (g, a), w') \<Longrightarrow> f \<in> fds w \<and> g \<notin> fds w \<and> fds w' = insert g (fds w)"
    and "kn_read K f buf w = (r, w') \<Longrightarrow> fds w' = fds w"
    and "kn_write K f data w = (m, w') \<Longrightarrow> fds w' = fds w"
    and "fds (kn_close K f w) = fds w - {f}"
  using assms unfolding kernel_laws_def by meson+

subsection \<open>Calls of an engine that was only used\<close>

definition net_ready ::
  "StdNetConfig \<Rightarrow> ('ch \<Rightarrow> 'a StdNetOperation list) \<Rightarrow> ('ch \<Rightarrow> nat) \<Rightarrow> ('ch, 'a, 'w) std_net_state \<Rightarrow> bool" where
  "net_ready cfg items room s \<longleftrightarrow>
     in_order items room sno_callback (servable cfg) s \<and> wk_alive s \<and> 0 < room (wk_chan s)"

text \<open>The system after the operations that still wait in the channel.\<close>

definition settled_net ::
  "('a, 'w) kernel_net \<Rightarrow> StdNetConfig \<Rightarrow> ('ch \<Rightarrow> 'a StdNetOperation list) \<Rightarrow> ('ch, 'a, 'w) std_net_state \<Rightarrow> 'w" where
  "settled_net K cfg items s =
     snd (snd (serve_all (serve_net K cfg) sno_callback (items (wk_chan s)) (wk_sys s)))"

lemma net_reach_ready:
  assumes "mpsc_laws C items room" "std_net_new p C cfg rb w = Ok (e, s0)"
    and "worker_reach C (serve_net K cfg) sno_callback (servable cfg) s0 s"
  shows "net_ready cfg items room s" "sne_config e = cfg"
proof -
  note n = std_net_new_state(1) [OF assms(1,2), of sno_callback "servable cfg"]
    std_net_new_state(2-4) [OF assms(1,2)]
  show "net_ready cfg items room s" "sne_config e = cfg"
    using worker_reach_in_order [OF assms(3,1) n(1)] net_service.reach_alive [OF assms(3,1) n(1,2)] n(3,4)
    by (simp_all add: net_ready_def)
qed

lemma net_call_served:
  assumes "mpsc_laws C items room" "net_ready cfg items room s"
    and "servable cfg (mk (wk_next s))" "sno_callback (mk (wk_next s)) = Some (wk_next s)"
  obtains s' where
    "net_call C K cfg mk s = Some (fst (serve_net K cfg (mk (wk_next s)) (settled_net K cfg items s)), s')"
    "wk_sys s' = snd (serve_net K cfg (mk (wk_next s)) (settled_net K cfg items s))"
    "net_ready cfg items room s'" "items (wk_chan s') = []"
proof -
  have r: "in_order items room sno_callback (servable cfg) s" "wk_alive s" "0 < room (wk_chan s)"
    using assms(2) by (simp_all add: net_ready_def)
  obtain s' w where
    "worker_call C (serve_net K cfg) sno_callback SnSendFailed SnReceiveFailed mk s =
       Some (fst (serve_net K cfg (mk (wk_next s)) w), s')"
    "w = snd (snd (serve_all (serve_net K cfg) sno_callback (items (wk_chan s)) (wk_sys s)))"
    "wk_sys s' = snd (serve_net K cfg (mk (wk_next s)) w)"
    "in_order items room sno_callback (servable cfg) s'"
    "wk_alive s'" "items (wk_chan s') = []" "room (wk_chan s') = room (wk_chan s)"
    by (rule net_service.call_served [where mk = mk, OF assms(1) r assms(3,4)]) (rule that)
  then show ?thesis using that r(3) by (simp add: net_call_def settled_net_def net_ready_def)
qed

text \<open>Each method answers with the result of its own operation.\<close>

lemma std_net_calls:
  assumes "mpsc_laws C items room" "net_ready cfg items room s" "sne_config e = cfg" "f \<noteq> -1"
  shows "\<exists>s'. std_net_accept C K e f s =
      Some (accept_result (fst (serve_accept K (Some f) (settled_net K cfg items s))), s') \<and>
      wk_sys s' = snd (serve_accept K (Some f) (settled_net K cfg items s))"
    and "\<exists>s'. std_net_connect C K e a s =
      Some (connect_result (fst (serve_connect K (Some a) (settled_net K cfg items s))), s') \<and>
      wk_sys s' = snd (serve_connect K (Some a) (settled_net K cfg items s))"
    and "unat (snc_buffer_size cfg) < 2 ^ 63 \<Longrightarrow> \<exists>s'. std_net_read C K e f s =
      Some (read_result (fst (serve_net_read K (snc_buffer_size cfg) (Some f) (settled_net K cfg items s))), s') \<and>
      wk_sys s' = snd (serve_net_read K (snc_buffer_size cfg) (Some f) (settled_net K cfg items s))"
    and "\<exists>s'. std_net_write C K e f data s =
      Some (write_result (fst (serve_net_write K (Some f) (Some data) (settled_net K cfg items s))), s') \<and>
      wk_sys s' = snd (serve_net_write K (Some f) (Some data) (settled_net K cfg items s))"
    and "\<exists>s'. std_net_close C K e f s =
      Some (close_result (fst (serve_net_close K (Some f) (settled_net K cfg items s))), s') \<and>
      wk_sys s' = snd (serve_net_close K (Some f) (settled_net K cfg items s))"
proof -
  note c = net_call_served [OF assms(1,2), where K = K]
  show "\<exists>s'. std_net_accept C K e f s =
      Some (accept_result (fst (serve_accept K (Some f) (settled_net K cfg items s))), s') \<and>
      wk_sys s' = snd (serve_accept K (Some f) (settled_net K cfg items s))"
    by (rule c [of "\<lambda>t. \<lparr>sno_type = StdAccept, sno_addr = None, sno_fd = Some f, sno_data = None,
        sno_callback = Some t\<rparr>"])
      (use assms(3,4) in \<open>simp_all add: servable_def std_net_accept_def serve_net_def\<close>)
  show "\<exists>s'. std_net_connect C K e a s =
      Some (connect_result (fst (serve_connect K (Some a) (settled_net K cfg items s))), s') \<and>
      wk_sys s' = snd (serve_connect K (Some a) (settled_net K cfg items s))"
    by (rule c [of "\<lambda>t. \<lparr>sno_type = StdConnect, sno_addr = Some a, sno_fd = None, sno_data = None,
        sno_callback = Some t\<rparr>"])
      (use assms(3,4) in \<open>simp_all add: servable_def std_net_connect_def serve_net_def\<close>)
  show "unat (snc_buffer_size cfg) < 2 ^ 63 \<Longrightarrow> \<exists>s'. std_net_read C K e f s =
      Some (read_result (fst (serve_net_read K (snc_buffer_size cfg) (Some f) (settled_net K cfg items s))), s') \<and>
      wk_sys s' = snd (serve_net_read K (snc_buffer_size cfg) (Some f) (settled_net K cfg items s))"
    by (rule c [of "\<lambda>t. \<lparr>sno_type = StdNetRead, sno_addr = None, sno_fd = Some f, sno_data = None,
        sno_callback = Some t\<rparr>"])
      (use assms(3,4) in \<open>simp_all add: servable_def std_net_read_def serve_net_def\<close>)
  show "\<exists>s'. std_net_write C K e f data s =
      Some (write_result (fst (serve_net_write K (Some f) (Some data) (settled_net K cfg items s))), s') \<and>
      wk_sys s' = snd (serve_net_write K (Some f) (Some data) (settled_net K cfg items s))"
    by (rule c [of "\<lambda>t. \<lparr>sno_type = StdNetWrite, sno_addr = None, sno_fd = Some f, sno_data = Some data,
        sno_callback = Some t\<rparr>"])
      (use assms(3,4) in \<open>simp_all add: servable_def std_net_write_def serve_net_def\<close>)
  show "\<exists>s'. std_net_close C K e f s =
      Some (close_result (fst (serve_net_close K (Some f) (settled_net K cfg items s))), s') \<and>
      wk_sys s' = snd (serve_net_close K (Some f) (settled_net K cfg items s))"
    by (rule c [of "\<lambda>t. \<lparr>sno_type = StdNetClose, sno_addr = None, sno_fd = Some f, sno_data = None,
        sno_callback = Some t\<rparr>"])
      (use assms(3,4) in \<open>simp_all add: servable_def std_net_close_def serve_net_def\<close>)
qed

subsection \<open>A kernel\<close>

text \<open>The system is the list of open descriptors; a call on one that is not open fails.\<close>

definition demo_kernel :: "(nat, demo_sockets) kernel_net" where
  "demo_kernel =
     \<lparr>kn_accept = (\<lambda>f w. if f \<in> set w then (Some (fresh_fd w, 0), fresh_fd w # w) else (None, w)),
      kn_connect = (\<lambda>a w. (Some (fresh_fd w), fresh_fd w # w)),
      kn_nonblocking = (\<lambda>f w. w),
      kn_read = (\<lambda>f buf w. ((if f \<in> set w then Some (min 2 (length buf)) else None, buf), w)),
      kn_write = (\<lambda>f data w. (if f \<in> set w then Some (length data) else None, w)),
      kn_close = removeAll\<rparr>"

lemma demo_kernel_laws: "kernel_laws demo_kernel set"
  unfolding kernel_laws_def demo_kernel_def using fresh_fd_new
  by (auto split: if_splits)

definition demo_std_net :: "(nat \<times> nat StdNetOperation list, nat, demo_sockets) std_net_state" where
  "demo_std_net = \<lparr>wk_chan = (64, []), wk_alive = True, wk_replies = [], wk_next = 0, wk_sys = [3]\<rparr>"

definition demo_std_net_engine :: StdNetEngine where
  "demo_std_net_engine = \<lparr>sne_config = default_std_net_config, sne_ring = demo_ring\<rparr>"

lemma demo_std_net_new:
  "std_net_new Debug list_channel default_std_net_config demo_ring [3] = Ok (demo_std_net_engine, demo_std_net)"
  by (simp add: std_net_new_def worker_new_def default_std_net_config_def list_channel_def
      demo_std_net_def demo_std_net_engine_def usize_mul_def overflowing_def)

lemma demo_std_net_reach:
  "worker_reach list_channel (serve_net demo_kernel default_std_net_config) sno_callback
     (servable default_std_net_config) demo_std_net demo_std_net"
  by (rule worker_reach.start)

lemma demo_buffer_fits: "unat (snc_buffer_size default_std_net_config) < 2 ^ 63"
  by (simp add: default_std_net_config_def)

subsection \<open>Properties\<close>

text \<open>
  C23: As long as no operation on the descriptor -1 has been sent to the worker, which would
  end it, and the buffer size is below 2 to the 63, the results of the fallback network
  engine are of the kind the caller asked for: a method called with a descriptor other than
  -1 gives a value or the error of its own system call, never the error of an unexpected
  result, a lost reply or a closed channel, and closing succeeds, whatever other operations
  wait before it.
\<close>

theorem fallback_results_are_typed:
  assumes "mpsc_laws C items room" "std_net_new p C cfg rb w = Ok (e, s0)"
    and "worker_reach C (serve_net K cfg) sno_callback (servable cfg) s0 s"
    and "f \<noteq> -1" "unat (snc_buffer_size cfg) < 2 ^ 63"
  shows "(\<exists>r s'. std_net_accept C K e f s = Some (r, s') \<and> (is_ok r \<or> r = Err SnAcceptFailed)) \<and>
    (\<exists>r s'. std_net_connect C K e a s = Some (r, s') \<and> (is_ok r \<or> r = Err SnConnectFailed)) \<and>
    (\<exists>r s'. std_net_read C K e f s = Some (r, s') \<and> (is_ok r \<or> r = Err SnReadFailed)) \<and>
    (\<exists>r s'. std_net_write C K e f data s = Some (r, s') \<and> (is_ok r \<or> r = Err SnWriteFailed)) \<and>
    (\<exists>s'. std_net_close C K e f s = Some (Ok (), s'))"
proof -
  note r = net_reach_ready [OF assms(1-3)]
  note c = std_net_calls [OF assms(1) r(1) r(2) assms(4), of K]
  let ?w = "settled_net K cfg items s"
  have "is_ok (accept_result (fst (serve_accept K (Some f) ?w))) \<or>
      accept_result (fst (serve_accept K (Some f) ?w)) = Err SnAcceptFailed"
    using assms(4) by (simp add: serve_accept_def accept_result_def split: prod.split option.split)
  moreover have "is_ok (connect_result (fst (serve_connect K (Some a) ?w))) \<or>
      connect_result (fst (serve_connect K (Some a) ?w)) = Err SnConnectFailed"
    by (simp add: serve_connect_def connect_result_def split: prod.split option.split)
  moreover have "is_ok (read_result (fst (serve_net_read K (snc_buffer_size cfg) (Some f) ?w))) \<or>
      read_result (fst (serve_net_read K (snc_buffer_size cfg) (Some f) ?w)) = Err SnReadFailed"
    using assms(4,5) by (simp add: serve_net_read_def read_result_def split: prod.split option.split)
  moreover have "is_ok (write_result (fst (serve_net_write K (Some f) (Some data) ?w))) \<or>
      write_result (fst (serve_net_write K (Some f) (Some data) ?w)) = Err SnWriteFailed"
    using assms(4) by (simp add: serve_net_write_def write_result_def split: prod.split option.split)
  moreover have "close_result (fst (serve_net_close K (Some f) ?w)) = Ok ()"
    using assms(4) by (simp add: serve_net_close_def close_result_def)
  ultimately show ?thesis
    using c(1) c(2) [of a] c(3) [OF assms(5)] c(4) [of data] c(5) by metis
qed

theorem fallback_results_are_typed_demo:
  "\<exists>r s'. std_net_accept list_channel demo_kernel demo_std_net_engine 9 demo_std_net = Some (r, s') \<and>
    (is_ok r \<or> r = Err SnAcceptFailed)"
  using fallback_results_are_typed [OF list_channel_laws demo_std_net_new demo_std_net_reach _ demo_buffer_fits, of 9 1 "[]"]
  by simp

text \<open>
  C22: Who owns a descriptor after a call of the fallback network engine: accepting always
  closes the listener; reading and writing keep the descriptor open when they succeed and
  close it when they fail; closing closes it. No other descriptor is closed.
\<close>

theorem fallback_descriptors:
  assumes "mpsc_laws C items room" "std_net_new p C cfg rb w0 = Ok (e, s0)"
    and "worker_reach C (serve_net K cfg) sno_callback (servable cfg) s0 s"
    and "kernel_laws K fds" "f \<noteq> -1" "unat (snc_buffer_size cfg) < 2 ^ 63"
    and "settled_net K cfg items s = w"
  shows "(\<exists>r s'. std_net_accept C K e f s = Some (r, s') \<and> fds (wk_sys s') =
      (case r of Ok (g, a) \<Rightarrow> insert g (fds w - {f}) | _ \<Rightarrow> fds w - {f})) \<and>
    (\<exists>r s'. std_net_read C K e f s = Some (r, s') \<and>
      fds (wk_sys s') = (if is_ok r then fds w else fds w - {f})) \<and>
    (\<exists>r s'. std_net_write C K e f data s = Some (r, s') \<and>
      fds (wk_sys s') = (if is_ok r then fds w else fds w - {f})) \<and>
    (\<exists>s'. std_net_close C K e f s = Some (Ok (), s') \<and> fds (wk_sys s') = fds w - {f})"
proof -
  note r = net_reach_ready [OF assms(1-3)]
  note c = std_net_calls [OF assms(1) r(1) r(2) assms(5), of K, unfolded assms(7)]
  note L = kernel_lawsD [OF assms(4)]
  have acc: "fds (snd (serve_accept K (Some f) w)) =
      (case accept_result (fst (serve_accept K (Some f) w)) of
         Ok (g, a) \<Rightarrow> insert g (fds w - {f}) | _ \<Rightarrow> fds w - {f})"
  proof -
    obtain x w1 where a: "kn_accept K f w = (x, w1)" by fastforce
    show ?thesis
    proof (cases x)
      case None
      then show ?thesis
        using a L(1) [of f w w1] assms(5)
        by (simp add: serve_accept_def accept_result_def drop_socket_def L(5))
    next
      case (Some ga)
      obtain g addr where ga: "ga = (g, addr)" by (cases ga)
      then have "f \<in> fds w" "g \<notin> fds w" "fds w1 = insert g (fds w)"
        using a L(2) [of f w g addr w1] Some by simp_all
      then show ?thesis
        using a Some ga assms(5)
        by (auto simp: serve_accept_def accept_result_def drop_socket_def forget_socket_def L(5))
    qed
  qed
  have rd: "fds (snd (serve_net_read K (snc_buffer_size cfg) (Some f) w)) =
      (if is_ok (read_result (fst (serve_net_read K (snc_buffer_size cfg) (Some f) w))) then fds w else fds w - {f})"
    using assms(5,6) L(3) [of f "replicate (unat (snc_buffer_size cfg)) 0" w]
    by (auto simp: serve_net_read_def read_result_def drop_socket_def forget_socket_def L(5)
        split: prod.split option.split)
  have wr: "fds (snd (serve_net_write K (Some f) (Some data) w)) =
      (if is_ok (write_result (fst (serve_net_write K (Some f) (Some data) w))) then fds w else fds w - {f})"
    using assms(5) L(4) [of f data w]
    by (auto simp: serve_net_write_def write_result_def drop_socket_def forget_socket_def L(5)
        split: prod.split option.split)
  have cl: "close_result (fst (serve_net_close K (Some f) w)) = Ok ()"
    "fds (snd (serve_net_close K (Some f) w)) = fds w - {f}"
    using assms(5) by (simp_all add: serve_net_close_def close_result_def drop_socket_def L(5))
  show ?thesis using c(1) c(3) [OF assms(6)] c(4) [of data] c(5) acc rd wr cl by metis
qed

theorem fallback_descriptors_demo:
  "\<exists>r s'. std_net_accept list_channel demo_kernel demo_std_net_engine 3 demo_std_net = Some (r, s') \<and>
    set (wk_sys s') = (case r of Ok (g, a) \<Rightarrow> insert g (set [3] - {3}) | _ \<Rightarrow> set [3] - {3})"
proof -
  have "settled_net demo_kernel default_std_net_config snd demo_std_net = [3]"
    by (simp add: settled_net_def demo_std_net_def)
  from fallback_descriptors [OF list_channel_laws demo_std_net_new demo_std_net_reach demo_kernel_laws _
      demo_buffer_fits this, of 3 "[]"]
  have "(3 :: fd) \<noteq> -1 \<Longrightarrow> ?thesis" by (rule conjunct1)
  then show ?thesis by simp
qed

text \<open>
  C37: One read of the descriptor -1 ends the fallback network engine: the caller gets an
  error, the worker is gone, and from then on every call fails to send its operation.
\<close>

theorem bad_descriptor_ends_the_engine:
  fixes K :: "('a, 'w) kernel_net"
  assumes "mpsc_laws C items room" "std_net_new p C cfg rb w = Ok (e, s0)"
    and "worker_reach C (serve_net K cfg) sno_callback (servable cfg) s0 s" "items (wk_chan s) = []"
  shows "\<exists>s1. std_net_read C K e (-1) s = Some (Err SnReceiveFailed, s1) \<and> wk_sys s1 = wk_sys s \<and>
    map_option fst (std_net_accept C K e f s1) = Some (Err SnSendFailed) \<and>
    map_option fst (std_net_connect C K e a s1) = Some (Err SnSendFailed) \<and>
    map_option fst (std_net_read C K e f s1) = Some (Err SnSendFailed) \<and>
    map_option fst (std_net_write C K e f data s1) = Some (Err SnSendFailed) \<and>
    map_option fst (std_net_close C K e f s1) = Some (Err SnSendFailed)"
proof -
  note r = net_reach_ready [OF assms(1-3)]
  have s: "in_order items room sno_callback (servable cfg) s" "wk_alive s" "0 < room (wk_chan s)"
    using r(1) by (simp_all add: net_ready_def)
  let ?mk = "\<lambda>t. \<lparr>sno_type = StdNetRead, sno_addr = None, sno_fd = Some (-1), sno_data = None, sno_callback = Some t\<rparr>
    :: 'a StdNetOperation"
  have panics: "serve_net K cfg (?mk (wk_next s)) (wk_sys s) = (Panic AssertionFailed, wk_sys s)"
    by (simp add: serve_net_def serve_net_read_def from_raw_fd_def)
  have "\<not> returned (fst (serve_net K cfg (?mk (wk_next s)) (wk_sys s)))" by (simp add: panics)
  then obtain s1 where c: "net_call C K cfg ?mk s = Some (Err SnReceiveFailed, s1)" "\<not> wk_alive s1"
    "wk_sys s1 = wk_sys s"
    unfolding net_call_def
    by (rule worker_call_panics [where mk = ?mk, OF assms(1) s assms(4)]) (simp add: panics that)
  have "std_net_read C K e (-1) s = Some (Err SnReceiveFailed, s1)"
    by (simp add: std_net_read_def r(2) c(1) read_result_def)
  then show ?thesis
    using c(2,3) by (intro exI [of _ s1]) (simp add: std_net_accept_def std_net_connect_def std_net_read_def
      std_net_write_def std_net_close_def net_call_def worker_call_dead accept_result_def
      connect_result_def read_result_def write_result_def close_result_def)
qed

theorem bad_descriptor_ends_the_engine_demo:
  "\<exists>s1. std_net_read list_channel demo_kernel demo_std_net_engine (-1) demo_std_net =
      Some (Err SnReceiveFailed, s1) \<and>
    map_option fst (std_net_close list_channel demo_kernel demo_std_net_engine 3 s1) = Some (Err SnSendFailed)"
proof -
  have "snd (wk_chan demo_std_net) = []" by (simp add: demo_std_net_def)
  from bad_descriptor_ends_the_engine [OF list_channel_laws demo_std_net_new demo_std_net_reach this, of 3 1 "[]"]
  show ?thesis by blast
qed

end
