(* ===== verification/Latency_Stats.thy ===== *)
theory Latency_Stats
  imports Elgate_Prelude
begin

text \<open>
  The statistics of the latency profile (\<open>examples/latency_profile.rs\<close>): percentiles whose
  place is computed in 64-bit floating point, the average, and the histogram with
  logarithmic buckets. A duration is its nanoseconds.
\<close>

type_synonym duration = nat

record LatencyStats =
  ls_min :: duration
  ls_max :: duration
  ls_total :: duration
  ls_count :: nat
  ls_p50 :: duration
  ls_p90 :: duration
  ls_p99 :: duration

subsection \<open>Floating point\<close>

text \<open>
  An integer as a double: 53 significant bits, rounded to nearest with ties to even. A
  product with a constant \<open>c / 2^k\<close> is the rounded product of the significands; converting
  it to \<open>usize\<close> cuts the fraction off.
\<close>

fun bits :: "nat \<Rightarrow> nat" where
  "bits n = (if n = 0 then 0 else Suc (bits (n div 2)))"

declare bits.simps [simp del]

definition round53 :: "nat \<Rightarrow> nat" where
  "round53 x =
     (if bits x \<le> 53 then x
      else
        let u = 2 ^ (bits x - 53); q = x div u; r = x mod u
        in (if u < 2 * r \<or> (u = 2 * r \<and> odd q) then q + 1 else q) * u)"

definition percentile_index :: "nat \<Rightarrow> nat \<Rightarrow> nat \<Rightarrow> nat" where
  "percentile_index n c k = round53 (round53 n * c) div 2 ^ k"

definition p50_idx :: "nat \<Rightarrow> nat" where "p50_idx n = percentile_index n 1 1"
definition p90_idx :: "nat \<Rightarrow> nat" where "p90_idx n = percentile_index n 8106479329266893 53"
definition p99_idx :: "nat \<Rightarrow> nat" where "p99_idx n = percentile_index n 4458563631096791 52"

subsection \<open>The statistics\<close>

text \<open>A \<open>Duration\<close> has 64 bits of seconds; a sum beyond that panics.\<close>

definition duration_limit :: nat where "duration_limit = 2 ^ 64 * 10 ^ 9"

definition sample_at :: "duration list \<Rightarrow> nat \<Rightarrow> ('e, duration) outcome" where
  "sample_at xs i = (if i < length xs then Ok (xs ! i) else Panic IndexOutOfBounds)"

definition stats_new :: "duration list \<Rightarrow> ('e, LatencyStats) outcome" where
  "stats_new samples =
     (if samples = [] then
        Ok \<lparr>ls_min = 0, ls_max = 0, ls_total = 0, ls_count = 0, ls_p50 = 0, ls_p90 = 0, ls_p99 = 0\<rparr>
      else
        let sorted = sort samples; n = length sorted in
        bind_outcome (sample_at sorted 0) (\<lambda>mn.
        bind_outcome (sample_at sorted (n - 1)) (\<lambda>mx.
        if duration_limit \<le> sum_list sorted then Panic ArithmeticOverflow
        else
          bind_outcome (sample_at sorted (p50_idx n)) (\<lambda>p50.
          bind_outcome (sample_at sorted (p90_idx n)) (\<lambda>p90.
          bind_outcome (sample_at sorted (p99_idx n)) (\<lambda>p99.
            Ok \<lparr>ls_min = mn, ls_max = mx, ls_total = sum_list sorted, ls_count = length samples,
                ls_p50 = p50, ls_p90 = p90, ls_p99 = p99\<rparr>))))))"

definition average :: "LatencyStats \<Rightarrow> duration" where
  "average st = (if ls_count st = 0 then 0 else (ls_total st div ls_count st) mod 2 ^ 64)"

subsection \<open>The histogram\<close>

definition as_micros :: "duration \<Rightarrow> nat" where
  "as_micros d = (d div 1000) mod 2 ^ 64"

definition bucket :: "nat \<Rightarrow> nat" where
  "bucket us =
     (if us < 10 then us
      else if us < 100 then us div 10 * 10
      else if us < 1000 then us div 100 * 100
      else if us < 10000 then us div 1000 * 1000
      else us div 10000 * 10000)"

text \<open>One more in a bucket of the ordered map.\<close>

fun bump :: "nat \<Rightarrow> (nat \<times> nat) list \<Rightarrow> (nat \<times> nat) list" where
  "bump b [] = [(b, 1)]"
| "bump b ((k, c) # h) =
     (if b < k then (b, 1) # (k, c) # h else if b = k then (k, c + 1) # h else (k, c) # bump b h)"

definition histogram :: "duration list \<Rightarrow> (nat \<times> nat) list" where
  "histogram samples = foldl (\<lambda>h us. bump (bucket us) h) [] (map as_micros samples)"

subsection \<open>Rounding errors\<close>

lemma bits_lower: "0 < n \<Longrightarrow> 2 ^ (bits n - 1) \<le> n"
proof (induction n rule: bits.induct)
  case (1 n)
  show ?case
  proof (cases "n = 1")
    case False
    then have n2: "0 < n div 2" using "1.prems" by simp
    then have "bits (n div 2) \<noteq> 0" by (simp add: bits.simps [of "n div 2"])
    then have e: "(2 :: nat) ^ bits (n div 2) = 2 * 2 ^ (bits (n div 2) - 1)"
      by (cases "bits (n div 2)") simp_all
    have "2 ^ (bits (n div 2) - 1) \<le> n div 2" using 1 n2 by simp
    then show ?thesis using "1.prems" e by (simp add: bits.simps [of n])
  qed (simp add: bits.simps [of "Suc 0"] bits.simps [of 0])
qed

lemma round53_bounds:
  shows "round53 x * 2 ^ 53 \<le> x * (2 ^ 53 + 1)" and "x * 2 ^ 53 \<le> round53 x * 2 ^ 53 + x"
proof -
  have "round53 x * 2 ^ 53 \<le> x * (2 ^ 53 + 1) \<and> x * 2 ^ 53 \<le> round53 x * 2 ^ 53 + x"
  proof (cases "bits x \<le> 53")
    case False
    define u q r where "u = (2 :: nat) ^ (bits x - 53)" and "q = x div u" and "r = x mod u"
    have "x \<noteq> 0" using False bits.simps [of 0] by (cases "x = 0") simp_all
    then have "2 ^ (bits x - 1) \<le> x" using bits_lower by simp
    moreover have "(2 :: nat) ^ (bits x - 1) = u * 2 ^ 52"
      using False power_add [of "2 :: nat" "bits x - 53" 52] by (simp add: u_def)
    ultimately have u: "u * 2 ^ 52 \<le> x" by simp
    have x: "x = q * u + r" by (simp add: q_def r_def)
    have r: "r < u" by (simp add: r_def u_def)
    have "round53 x = (if u < 2 * r \<or> (u = 2 * r \<and> odd q) then q + 1 else q) * u"
      using False by (simp add: round53_def Let_def u_def q_def r_def)
    then have "2 * round53 x \<le> 2 * x + u \<and> 2 * x \<le> 2 * round53 x + u"
      using x r by (auto simp: algebra_simps split: if_splits)
    then show ?thesis using u by (auto simp: algebra_simps)
  qed (simp add: round53_def)
  then show "round53 x * 2 ^ 53 \<le> x * (2 ^ 53 + 1)" "x * 2 ^ 53 \<le> round53 x * 2 ^ 53 + x" by simp_all
qed

lemma product_bounds:
  fixes n c :: nat
  defines "B \<equiv> round53 (round53 n * c)"
  shows "B * 2 ^ 106 \<le> n * c * (2 ^ 53 + 1) ^ 2" and "n * c * (2 ^ 53 - 1) ^ 2 \<le> B * 2 ^ 106"
proof -
  let ?A = "round53 n"
  have "B * 2 ^ 106 = B * 2 ^ 53 * 2 ^ 53" by simp
  also have "\<dots> \<le> ?A * c * (2 ^ 53 + 1) * 2 ^ 53"
    unfolding B_def by (intro mult_right_mono round53_bounds(1)) simp
  also have "\<dots> = (?A * 2 ^ 53) * (c * (2 ^ 53 + 1))" by (simp only: ac_simps)
  also have "\<dots> \<le> (n * (2 ^ 53 + 1)) * (c * (2 ^ 53 + 1))"
    by (intro mult_right_mono round53_bounds(1)) simp
  also have "\<dots> = n * c * (2 ^ 53 + 1) ^ 2" by (simp only: power2_eq_square ac_simps)
  finally show "B * 2 ^ 106 \<le> n * c * (2 ^ 53 + 1) ^ 2" .
  have low: "x * (2 ^ 53 - 1) \<le> round53 x * 2 ^ 53" for x
    using round53_bounds(2) [of x] by simp
  have "n * c * (2 ^ 53 - 1) ^ 2 = (n * (2 ^ 53 - 1)) * (c * (2 ^ 53 - 1))"
    by (simp only: power2_eq_square ac_simps)
  also have "\<dots> \<le> (?A * 2 ^ 53) * (c * (2 ^ 53 - 1))" by (intro mult_right_mono low) simp
  also have "\<dots> = ?A * c * (2 ^ 53 - 1) * 2 ^ 53" by (simp only: ac_simps)
  also have "\<dots> \<le> B * 2 ^ 53 * 2 ^ 53" unfolding B_def by (intro mult_right_mono low) simp
  finally show "n * c * (2 ^ 53 - 1) ^ 2 \<le> B * 2 ^ 106" by simp
qed

lemma percentile_index_less:
  assumes "c * (2 ^ 53 + 1) ^ 2 < 2 ^ k * 2 ^ 106" "0 < n"
  shows "percentile_index n c k < n"
proof (rule ccontr)
  assume "\<not> percentile_index n c k < n"
  then have "n * 2 ^ k \<le> round53 (round53 n * c)"
    by (simp add: percentile_index_def not_less less_eq_div_iff_mult_less_eq)
  then have "n * 2 ^ k * 2 ^ 106 \<le> n * c * (2 ^ 53 + 1) ^ 2"
    using product_bounds(1) [of n c] by (meson le_trans mult_le_mono1)
  then have "n * (2 ^ k * 2 ^ 106) \<le> n * (c * (2 ^ 53 + 1) ^ 2)" by (simp only: ac_simps)
  then show False using assms by simp
qed

lemma percentile_index_mono:
  assumes "c1 * 2 ^ k2 * (2 ^ 53 + 1) ^ 2 \<le> c2 * 2 ^ k1 * (2 ^ 53 - 1 :: nat) ^ 2"
  shows "percentile_index n c1 k1 \<le> percentile_index n c2 k2"
proof -
  let ?B = "\<lambda>c. round53 (round53 n * c)"
  have "?B c1 * 2 ^ k2 * 2 ^ 106 = ?B c1 * 2 ^ 106 * 2 ^ k2" by (simp only: ac_simps)
  also have "\<dots> \<le> n * c1 * (2 ^ 53 + 1) ^ 2 * 2 ^ k2" by (intro mult_right_mono product_bounds(1)) simp
  also have "\<dots> = n * (c1 * 2 ^ k2 * (2 ^ 53 + 1) ^ 2)" by (simp only: ac_simps)
  also have "\<dots> \<le> n * (c2 * 2 ^ k1 * (2 ^ 53 - 1) ^ 2)" by (intro mult_left_mono assms) simp
  also have "\<dots> = n * c2 * (2 ^ 53 - 1) ^ 2 * 2 ^ k1" by (simp only: ac_simps)
  also have "\<dots> \<le> ?B c2 * 2 ^ 106 * 2 ^ k1" by (intro mult_right_mono product_bounds(2)) simp
  also have "\<dots> = ?B c2 * 2 ^ k1 * 2 ^ 106" by (simp only: ac_simps)
  finally have le: "?B c1 * 2 ^ k2 \<le> ?B c2 * 2 ^ k1" by simp
  let ?i = "percentile_index n c1 k1"
  have "?i * 2 ^ k1 \<le> ?B c1" by (simp add: percentile_index_def)
  then have "?i * 2 ^ k1 * 2 ^ k2 \<le> ?B c2 * 2 ^ k1" using le by (meson le_trans mult_le_mono1)
  then have "?i * 2 ^ k2 * 2 ^ k1 \<le> ?B c2 * 2 ^ k1" by (simp only: ac_simps)
  then have "?i * 2 ^ k2 \<le> ?B c2" by simp
  then show ?thesis by (simp add: percentile_index_def less_eq_div_iff_mult_less_eq)
qed

lemma index_order: "p50_idx n \<le> p90_idx n" "p90_idx n \<le> p99_idx n" "0 < n \<Longrightarrow> p99_idx n < n"
  unfolding p50_idx_def p90_idx_def p99_idx_def
  by (intro percentile_index_mono, simp, intro percentile_index_mono, simp, intro percentile_index_less, simp_all)

text \<open>Below 2 to the 53 the place of the median is exact.\<close>

lemma bits_upper: "n < 2 ^ m \<Longrightarrow> bits n \<le> m"
proof (induction m arbitrary: n)
  case (Suc m)
  show ?case
  proof (cases "n = 0")
    case False
    have "bits (n div 2) \<le> m" using Suc by simp
    then show ?thesis using False by (simp add: bits.simps [of n])
  qed (simp add: bits.simps [of 0])
qed (simp add: bits.simps [of 0])

lemma p50_exact: "n < 2 ^ 53 \<Longrightarrow> p50_idx n = n div 2"
  using bits_upper [of n 53] by (simp add: p50_idx_def percentile_index_def round53_def)

end
