(* ===== verification/Latency_Correctness.thy ===== *)
theory Latency_Correctness
  imports Latency_Stats "HOL-Library.Multiset"
begin

text \<open>The properties of the latency statistics and of the histogram.\<close>

lemma length_filter_sort: "length (filter P (sort xs)) = length (filter P xs)"
  by (metis mset_filter mset_sort size_mset)

lemma sum_list_sort: "sum_list (sort xs) = sum_list (xs :: nat list)"
  by (metis mset_sort sum_mset_sum_list)

lemma sorted_rank:
  assumes "sorted xs" "i < length xs"
  shows "i < length (filter (\<lambda>x. x \<le> xs ! i) (xs :: nat list))"
proof -
  have "filter (\<lambda>x. x \<le> xs ! i) (take (Suc i) xs) = take (Suc i) xs"
    using assms by (intro filter_True) (auto simp: in_set_conv_nth sorted_iff_nth_mono less_Suc_eq_le)
  then have "length (filter (\<lambda>x. x \<le> xs ! i) (take (Suc i) xs)) = Suc i" using assms(2) by simp
  moreover have "length (filter (\<lambda>x. x \<le> xs ! i) (take (Suc i) xs @ drop (Suc i) xs)) \<ge>
      length (filter (\<lambda>x. x \<le> xs ! i) (take (Suc i) xs))"
    by (simp only: filter_append length_append)
  ultimately show ?thesis by simp
qed

lemma sum_list_between:
  assumes "list_all (\<lambda>x. a \<le> x \<and> x \<le> b) xs"
  shows "a * length xs \<le> sum_list xs \<and> sum_list xs \<le> b * length (xs :: nat list)"
  using assms by (induction xs) auto

text \<open>
  C40: For at least one sample, and a total within the range of a duration, the statistics
  are computed without an index out of bounds although the places of the percentiles are
  rounded doubles: all five values are samples, in their order, no sample is outside the
  minimum and the maximum, more than half of the samples are at most the median, and the
  average lies between minimum and maximum.
\<close>

theorem latency_stats_are_percentiles:
  assumes "samples \<noteq> []" "length samples < 2 ^ 53" "sum_list samples < duration_limit"
  shows "\<exists>st. (stats_new samples :: ('e, LatencyStats) outcome) = Ok st \<and>
    ls_count st = length samples \<and> ls_total st = sum_list samples \<and>
    {ls_min st, ls_p50 st, ls_p90 st, ls_p99 st, ls_max st} \<subseteq> set samples \<and>
    sorted [ls_min st, ls_p50 st, ls_p90 st, ls_p99 st, ls_max st] \<and>
    list_all (\<lambda>x. ls_min st \<le> x \<and> x \<le> ls_max st) samples \<and>
    length samples div 2 < length (filter (\<lambda>x. x \<le> ls_p50 st) samples) \<and>
    (ls_max st < 2 ^ 64 \<longrightarrow> ls_min st \<le> average st \<and> average st \<le> ls_max st)"
proof -
  let ?s = "sort samples" and ?n = "length samples"
  have n: "0 < ?n" "length ?s = ?n" using assms(1) by simp_all
  then have ne: "?s \<noteq> []" by (metis length_0_conv less_irrefl)
  note idx = index_order [of ?n]
  have i99: "p99_idx ?n < ?n" using idx(3) n(1) by simp
  then have i: "p50_idx ?n < ?n" "p90_idx ?n < ?n" using idx(1,2) by linarith+
  let ?st = "\<lparr>ls_min = ?s ! 0, ls_max = ?s ! (?n - 1), ls_total = sum_list samples, ls_count = ?n,
    ls_p50 = ?s ! p50_idx ?n, ls_p90 = ?s ! p90_idx ?n, ls_p99 = ?s ! p99_idx ?n\<rparr>"
  have new: "(stats_new samples :: ('e, LatencyStats) outcome) = Ok ?st"
    using assms(1,3) i i99 ne by (simp add: stats_new_def sample_at_def Let_def sum_list_sort)
  have mem: "?s ! k \<in> set samples" if "k < ?n" for k using that nth_mem [of k ?s] by simp
  have mono: "?s ! j \<le> ?s ! k" if "j \<le> k" "k < ?n" for j k
    using that by (intro sorted_nth_mono) simp_all
  have all: "list_all (\<lambda>x. ?s ! 0 \<le> x \<and> x \<le> ?s ! (?n - 1)) samples"
  proof (unfold list_all_iff, rule ballI)
    fix x assume "x \<in> set samples"
    then obtain k where "k < ?n" "x = ?s ! k" by (metis in_set_conv_nth n(2) set_sort)
    then show "?s ! 0 \<le> x \<and> x \<le> ?s ! (?n - 1)" using mono [of 0 k] mono [of k "?n - 1"] by auto
  qed
  have rank: "?n div 2 < length (filter (\<lambda>x. x \<le> ?s ! p50_idx ?n) samples)"
    using sorted_rank [of ?s "p50_idx ?n"] i(1) p50_exact [OF assms(2)]
    by (simp add: length_filter_sort)
  have sum: "?s ! 0 * ?n \<le> sum_list samples" "sum_list samples \<le> ?s ! (?n - 1) * ?n"
    using sum_list_between [OF all] by simp_all
  have "sum_list samples div ?n \<le> (?s ! (?n - 1) * ?n) div ?n" by (rule div_le_mono [OF sum(2)])
  also have "\<dots> = ?s ! (?n - 1)" using n(1) by (rule nonzero_mult_div_cancel_right [OF less_imp_neq [THEN not_sym]])
  finally have avg: "?s ! 0 \<le> sum_list samples div ?n" "sum_list samples div ?n \<le> ?s ! (?n - 1)"
    using sum(1) n(1) by (simp_all add: less_eq_div_iff_mult_less_eq)
  have "average ?st = sum_list samples div ?n" if "?s ! (?n - 1) < 2 ^ 64"
    using that avg n(1) by (simp add: average_def)
  then show ?thesis
    using new mem i i99 n(1) mono idx all rank avg by (intro exI [of _ ?st]) simp
qed

theorem latency_stats_are_percentiles_demo:
  "\<exists>st. (stats_new [30, 10, 20] :: (unit, LatencyStats) outcome) = Ok st \<and> ls_total st = 60 \<and>
    sorted [ls_min st, ls_p50 st, ls_p90 st, ls_p99 st, ls_max st]"
  using latency_stats_are_percentiles [of "[30, 10, 20]"] by (fastforce simp: duration_limit_def)

subsection \<open>The histogram\<close>

lemma bump_keys: "set (map fst (bump b h)) = insert b (set (map fst h))"
  by (induction b h rule: bump.induct) auto

lemma bump_sorted: "sorted_wrt (<) (map fst h) \<Longrightarrow> sorted_wrt (<) (map fst (bump b h))"
proof (induction b h rule: bump.induct)
  case (2 b k c h)
  then show ?case using bump_keys [of b h] by (auto simp flip: set_map)
qed simp

lemma bump_lookup:
  assumes "sorted_wrt (<) (map fst h)"
  shows "map_of (bump b h) x =
    (if x = b then Some (case map_of h b of None \<Rightarrow> 1 | Some c \<Rightarrow> c + 1) else map_of h x)"
  using assms
proof (induction b h rule: bump.induct)
  case (2 b k c h)
  have "map_of h b = None" if "b < k"
    using "2.prems" that by (fastforce simp: map_of_eq_None_iff)
  then show ?case using 2 by auto
qed simp

lemma bump_total: "sum_list (map snd (bump b h)) = sum_list (map snd h) + 1"
  by (induction b h rule: bump.induct) auto

definition counted :: "nat list \<Rightarrow> (nat \<times> nat) list \<Rightarrow> bool" where
  "counted us h \<longleftrightarrow> sorted_wrt (<) (map fst h) \<and> sum_list (map snd h) = length us \<and>
     (\<forall>b. map_of h b = (let c = length (filter (\<lambda>u. bucket u = b) us) in if c = 0 then None else Some c))"

lemma counted_bump: "counted us h \<Longrightarrow> counted (us @ [u]) (bump (bucket u) h)"
  using bump_sorted [of h "bucket u"] bump_lookup [of h "bucket u"] bump_total [of "bucket u" h]
  by (auto simp: counted_def Let_def)

lemma counted_foldl: "counted vs h \<Longrightarrow> counted (vs @ us) (foldl (\<lambda>h u. bump (bucket u) h) h us)"
proof (induction us arbitrary: vs h)
  case (Cons u us)
  show ?case using Cons.IH [OF counted_bump [OF Cons.prems, of u]] by simp
qed simp

lemma coarse:
  assumes "0 < k" "k \<le> (x :: nat)"
  shows "x div k * k \<le> x" "x \<le> 2 * (x div k * k)"
proof -
  have "1 * k \<le> x div k * k" using assms by (intro mult_right_mono) (simp_all add: less_eq_div_iff_mult_less_eq)
  moreover have "x div k * k + x mod k = x" by simp
  moreover have "x mod k < k" using assms(1) by simp
  ultimately show "x div k * k \<le> x" "x \<le> 2 * (x div k * k)" by linarith+
qed

text \<open>
  The histogram has its buckets in strictly increasing order, holds for each bucket the
  number of samples that fall into it and no empty bucket, and counts every sample once.
  A bucket is at most the microseconds it stands for, which are at most twice the bucket.
\<close>

theorem histogram_counts_samples:
  "sorted_wrt (<) (map fst (histogram samples)) \<and>
   sum_list (map snd (histogram samples)) = length samples \<and>
   map_of (histogram samples) b =
     (let c = length (filter (\<lambda>d. bucket (as_micros d) = b) samples) in if c = 0 then None else Some c) \<and>
   bucket us \<le> us \<and> us \<le> 2 * bucket us"
proof -
  have "counted (map as_micros samples) (histogram samples)"
    using counted_foldl [of "[]" "[]" "map as_micros samples"]
    by (simp add: histogram_def counted_def)
  moreover have "bucket us \<le> us \<and> us \<le> 2 * bucket us"
    using coarse [of 10 us] coarse [of 100 us] coarse [of 1000 us] coarse [of 10000 us]
    by (simp add: bucket_def)
  ultimately show ?thesis by (simp add: counted_def filter_map o_def)
qed

end
