(* ===== verification/Ring_Example.thy ===== *)
theory Ring_Example
  imports Ring_Races Rust_Text
begin

text \<open>
  The ring example (\<open>examples/ring_buffer.rs\<close>): a producer thread creates a ring and writes
  five messages, a consumer thread opens it and reads until it has five. A schedule
  interleaves the two threads call by call, as they run while no call of one begins before
  a call of the other has ended; nothing but the sleeps of the threads keeps their calls
  apart, so what happens when a write and a read overlap is taken from \<open>Ring_Races\<close>, where
  they are interleaved access by access. An \<open>unwrap\<close> of an error ends its thread with a panic. The time the main thread waits before it starts the consumer is taken as enough
  for the creation.
\<close>

definition example_options :: ring_options where
  "example_options = \<lparr>opt_path = ''/tmp/elgate_example_ring'', opt_size = DEFAULT_RING_SIZE,
     opt_slot_size = DEFAULT_SLOT_SIZE\<rparr>"

definition message :: "nat \<Rightarrow> u8 list" where
  "message i = map of_char (''Message '' @ decimal i)"

text \<open>The mapping, the handles of the two threads, their counters, what was read, and the
  threads that have ended with a panic (or undefined behaviour).\<close>

datatype thread = Producer | Consumer

record example_state =
  xs_mem :: "mem option"
  xs_producer :: "ring_buffer option"
  xs_written :: nat
  xs_consumer :: "ring_buffer option"
  xs_read :: "(operation_kind \<times> u8 list) list"
  xs_panicked :: "thread list"

definition example_start :: example_state where
  "example_start = \<lparr>xs_mem = None, xs_producer = None, xs_written = 0, xs_consumer = None,
     xs_read = [], xs_panicked = []\<rparr>"

definition producer_create ::
  "profile \<Rightarrow> os \<Rightarrow> 'u uuid_crate \<Rightarrow> clock \<Rightarrow> example_state \<Rightarrow> example_state" where
  "producer_create p W U now x =
     (case ring_create p W U now example_options of
        Ok (rb, m) \<Rightarrow> x\<lparr>xs_mem := Some m, xs_producer := Some rb\<rparr>
      | _ \<Rightarrow> x\<lparr>xs_panicked := Producer # xs_panicked x\<rparr>)"

text \<open>The next write, or the end of the thread. The end and a panic both drop the ring.\<close>

definition producer_step ::
  "profile \<Rightarrow> 'u uuid_crate \<Rightarrow> (nat \<Rightarrow> 'u write_ctx) \<Rightarrow> example_state \<Rightarrow> example_state" where
  "producer_step p U c x =
     (case (xs_producer x, xs_mem x) of
        (Some rb, Some m) \<Rightarrow>
          let i = xs_written x in
          if i < 5 then
            (case ring_write p U (wc_env (c i)) (wc_uuid (c i)) (wc_now (c i)) rb DiskWrite (message i) m of
               (Ok _, m1) \<Rightarrow> x\<lparr>xs_mem := Some m1, xs_written := i + 1\<rparr>
             | (_, m1) \<Rightarrow> x\<lparr>xs_mem := Some (ring_drop (rb, m1)), xs_producer := None,
                 xs_panicked := Producer # xs_panicked x\<rparr>)
          else x\<lparr>xs_mem := Some (ring_drop (rb, m)), xs_producer := None\<rparr>
      | _ \<Rightarrow> x)"

definition consumer_step ::
  "profile \<Rightarrow> os \<Rightarrow> 'u uuid_crate \<Rightarrow> nat \<Rightarrow> example_state \<Rightarrow> example_state" where
  "consumer_step p W U sp x =
     (case xs_mem x of
        None \<Rightarrow> x\<lparr>xs_panicked := Consumer # xs_panicked x\<rparr>
      | Some m \<Rightarrow>
          (case xs_consumer x of
             None \<Rightarrow>
               (case ring_open W example_options m of
                  Ok rb \<Rightarrow> x\<lparr>xs_consumer := Some rb\<rparr>
                | _ \<Rightarrow> x\<lparr>xs_panicked := Consumer # xs_panicked x\<rparr>)
           | Some rb \<Rightarrow>
               if 5 \<le> length (xs_read x) then x
               else
                 (case ring_read p U sp rb m of
                    (Ok (Some e), m1) \<Rightarrow> x\<lparr>xs_mem := Some m1, xs_read := xs_read x @ [e]\<rparr>
                  | (Ok None, m1) \<Rightarrow> x\<lparr>xs_mem := Some m1\<rparr>
                  | (_, m1) \<Rightarrow> x\<lparr>xs_mem := Some m1, xs_panicked := Consumer # xs_panicked x\<rparr>)))"

definition thread_step ::
  "profile \<Rightarrow> os \<Rightarrow> 'u uuid_crate \<Rightarrow> (nat \<Rightarrow> 'u write_ctx) \<Rightarrow> nat \<Rightarrow> thread \<Rightarrow> example_state \<Rightarrow> example_state" where
  "thread_step p W U c sp t x =
     (if t \<in> set (xs_panicked x) then x
      else case t of Producer \<Rightarrow> producer_step p U c x | Consumer \<Rightarrow> consumer_step p W U sp x)"

subsection \<open>The invariant\<close>

abbreviation example_ring :: ring_buffer where
  "example_ring \<equiv> created example_options"

definition messages :: "nat \<Rightarrow> (operation_kind \<times> u8 list) list" where
  "messages n = map (\<lambda>i. (DiskWrite, message i)) [0..<n]"

definition example_inv :: "example_state \<Rightarrow> bool" where
  "example_inv x \<longleftrightarrow> xs_panicked x = [] \<and> xs_written x \<le> 5 \<and> length (xs_read x) \<le> xs_written x \<and>
     xs_read x = messages (length (xs_read x)) \<and>
     (xs_producer x = Some example_ring \<or> xs_producer x = None \<and> xs_written x = 5) \<and>
     (\<forall>rb. xs_consumer x = Some rb \<longrightarrow> rb_slot_size rb = rb_slot_size example_ring) \<and>
     (case xs_mem x of
        None \<Rightarrow> False
      | Some m \<Rightarrow> ring_wf example_ring m \<and>
          ring_queue example_ring m = drop (length (xs_read x)) (messages (xs_written x)) \<and>
          slots m = 1023 \<and> slot_size m = opt_slot_size example_options \<and> validate m \<and>
          length m = unat DEFAULT_RING_SIZE)"

lemma example_options_valid: "valid_options example_options" "options_slot_count example_options = 1023"
  "max_payload example_ring = 4032"
  by (simp_all add: valid_options_def example_options_def options_slot_count_def max_payload_def
      created_def DEFAULT_RING_SIZE_def DEFAULT_SLOT_SIZE_def layout_simps)

lemma message_fits: "i < 5 \<Longrightarrow> length (message i) \<le> 4032"
  by (simp add: message_def decimal.simps [of i])

lemma length_messages [simp]: "length (messages n) = n"
  by (simp add: messages_def)

lemma messages_Suc: "messages (Suc n) = messages n @ [(DiskWrite, message n)]"
  by (simp add: messages_def)

lemma messages_drop:
  assumes "k < n"
  shows "drop k (messages n) = (DiskWrite, message k) # drop (Suc k) (messages n)"
proof -
  have "messages n ! k = (DiskWrite, message k)" using assms by (simp add: messages_def del: upt_Suc)
  then show ?thesis using assms by (metis Cons_nth_drop_Suc length_messages)
qed

lemma unregister_keeps_queue:
  assumes "ring_wf rb m"
  shows "ring_wf rb (unregister_producer m)" "ring_queue rb (unregister_producer m) = ring_queue rb m"
proof -
  let ?m = "unregister_producer m"
  have same: "same_slot (slot_at rb j) m ?m" for j
    by (rule same_slot_header [OF counters_changes(3) ring_geometryD(2) [OF ring_wfD(1) [OF assms]]])
  have slot: "ring_slot rb ?m k = ring_slot rb m k" for k by (simp add: ring_slot_def header_simps)
  have pend: "pending ?m = pending m" by (simp add: pending_def header_simps)
  have s: "same_slot (ring_slot rb m k) m ?m" for k unfolding ring_slot_def by (rule same)
  show "ring_wf rb ?m"
    using assms s
    by (simp add: ring_wf_def ring_geometry_def indices_in_range_def slot pend header_simps same_slot_def)
  show "ring_queue rb ?m = ring_queue rb m"
    using assms s pending_less
    by (auto simp: ring_queue_def slot pend same_slot_def ring_wf_def)
qed

subsection \<open>Its preservation\<close>

lemma example_invD:
  assumes "example_inv x"
  obtains m where "xs_mem x = Some m" "ring_wf example_ring m"
    "ring_queue example_ring m = drop (length (xs_read x)) (messages (xs_written x))"
    "slots m = 1023" "slot_size m = opt_slot_size example_options" "validate m"
    "length m = unat DEFAULT_RING_SIZE"
    "pending m = xs_written x - length (xs_read x)"
proof -
  obtain m where m: "xs_mem x = Some m" "ring_wf example_ring m"
    "ring_queue example_ring m = drop (length (xs_read x)) (messages (xs_written x))"
    "slots m = 1023" "slot_size m = opt_slot_size example_options" "validate m"
    "length m = unat DEFAULT_RING_SIZE"
    using assms by (auto simp: example_inv_def split: option.splits)
  have "pending m = xs_written x - length (xs_read x)"
    using arg_cong [OF m(3), of length] by simp
  then show ?thesis using that m by blast
qed

lemma example_write:
  assumes "example_inv x" "xs_producer x = Some rb" "xs_written x < 5"
  obtains m where "producer_step p U c x = x\<lparr>xs_mem := Some m, xs_written := Suc (xs_written x)\<rparr>"
    "example_inv (x\<lparr>xs_mem := Some m, xs_written := Suc (xs_written x)\<rparr>)"
proof -
  let ?i = "xs_written x"
  let ?W = "ring_write p U (wc_env (c ?i)) (wc_uuid (c ?i)) (wc_now (c ?i)) example_ring DiskWrite (message ?i)"
  from example_invD [OF assms(1)] obtain m where m: "xs_mem x = Some m" "ring_wf example_ring m"
    "ring_queue example_ring m = drop (length (xs_read x)) (messages ?i)"
    "slots m = 1023" "slot_size m = opt_slot_size example_options" "validate m"
    "length m = unat DEFAULT_RING_SIZE" "pending m = ?i - length (xs_read x)" .
  have rb: "rb = example_ring" using assms(1,2) by (simp add: example_inv_def)
  have room: "pending m + 1 < slots m" using m(4,8) assms(3) by simp
  have fits: "length (message ?i) \<le> max_payload example_ring"
    using message_fits [OF assms(3)] example_options_valid(3) by simp
  obtain m' where w: "?W m = (Ok (producer_idx m), m')" "ring_wf example_ring m'"
    "ring_queue example_ring m' = ring_queue example_ring m @ [(DiskWrite, message ?i)]"
    by (rule ring_write_appends [OF m(2) room fits, of p U "wc_env (c ?i)" "wc_uuid (c ?i)" "wc_now (c ?i)" DiskWrite])
      (rule that)
  note f = fixed_fieldsD [OF ring_write_fixed [OF m(2) room fits w(1)]]
  have le: "length (xs_read x) \<le> ?i" using assms(1) by (simp add: example_inv_def)
  show ?thesis
  proof (rule that [of m'])
    show "producer_step p U c x = x\<lparr>xs_mem := Some m', xs_written := Suc ?i\<rparr>"
      using assms(2,3) w(1) by (simp add: producer_step_def rb m(1))
    show "example_inv (x\<lparr>xs_mem := Some m', xs_written := Suc ?i\<rparr>)"
      using assms le w(2,3) by (simp add: example_inv_def m f messages_Suc)
  qed
qed

lemma example_producer:
  assumes "example_inv x"
  shows "example_inv (producer_step p U c x)"
    and "xs_written (producer_step p U c x) = min 5 (Suc (xs_written x))"
    and "xs_read (producer_step p U c x) = xs_read x"
    and "xs_consumer (producer_step p U c x) = xs_consumer x"
proof -
  let ?x = "producer_step p U c x"
  have "example_inv ?x \<and> xs_written ?x = min 5 (Suc (xs_written x)) \<and> xs_read ?x = xs_read x \<and>
    xs_consumer ?x = xs_consumer x"
  proof (cases "xs_producer x = None \<or> 5 \<le> xs_written x")
    case False
    then obtain rb where x: "xs_producer x = Some rb" "xs_written x < 5" by auto
    obtain m where m: "?x = x\<lparr>xs_mem := Some m, xs_written := Suc (xs_written x)\<rparr>"
      "example_inv (x\<lparr>xs_mem := Some m, xs_written := Suc (xs_written x)\<rparr>)"
      by (rule example_write [OF assms x]) (rule that)
    show ?thesis using m(2) x(2) unfolding m(1) by simp
  next
    case True
    then have five: "xs_written x = 5" using assms by (auto simp: example_inv_def)
    from example_invD [OF assms] obtain m where m: "xs_mem x = Some m" "ring_wf example_ring m"
      "ring_queue example_ring m = drop (length (xs_read x)) (messages (xs_written x))"
      "slots m = 1023" "slot_size m = opt_slot_size example_options" "validate m"
      "length m = unat DEFAULT_RING_SIZE" "pending m = xs_written x - length (xs_read x)" .
    have "?x = x \<or> ?x = x\<lparr>xs_mem := Some (unregister_producer m), xs_producer := None\<rparr>"
      using assms five
      by (auto simp: producer_step_def m(1) ring_drop_def unregister_as_producer_def example_inv_def
          created_def split: option.splits)
    then show ?thesis
      using assms five m fixed_fieldsD [OF fixed_fields_bump(5), of m] unregister_keeps_queue [OF m(2)]
      by (auto simp: example_inv_def)
  qed
  then show "example_inv ?x" "xs_written ?x = min 5 (Suc (xs_written x))" "xs_read ?x = xs_read x"
    "xs_consumer ?x = xs_consumer x"
    by simp_all
qed

lemma example_open:
  assumes "example_inv x" "xs_consumer x = None" "os_ok W example_options"
  obtains rb where "consumer_step p W U sp x = x\<lparr>xs_consumer := Some rb\<rparr>"
    "example_inv (x\<lparr>xs_consumer := Some rb\<rparr>)"
proof -
  from example_invD [OF assms(1)] obtain m where m: "xs_mem x = Some m" "ring_wf example_ring m"
    "slot_size m = opt_slot_size example_options" "validate m" "length m = unat DEFAULT_RING_SIZE" .
  have "sizeof_RingHeader \<le> length m" by (rule ring_geometryD(6) [OF ring_wfD(1) [OF m(2)]])
  then have "ring_open W example_options m = Ok (opened example_options m)"
    using assms(3) m(4,5) by (simp add: ring_open_Ok_iff os_ok_def example_options_def)
  then have "consumer_step p W U sp x = x\<lparr>xs_consumer := Some (opened example_options m)\<rparr>"
    using assms(2) by (simp add: consumer_step_def m(1))
  then show ?thesis
    using that [of "opened example_options m"] assms(1)
    by (simp add: example_inv_def opened_def created_def m(1,3))
qed

lemma example_read:
  assumes "example_inv x" "xs_consumer x = Some rb"
  obtains m where "consumer_step p W U sp x = x \<and> length (xs_read x) = xs_written x \<or>
      consumer_step p W U sp x =
        x\<lparr>xs_mem := Some m, xs_read := xs_read x @ [(DiskWrite, message (length (xs_read x)))]\<rparr> \<and>
      length (xs_read x) < xs_written x"
    "length (xs_read x) < xs_written x \<Longrightarrow> example_inv
      (x\<lparr>xs_mem := Some m, xs_read := xs_read x @ [(DiskWrite, message (length (xs_read x)))]\<rparr>)"
proof -
  let ?k = "length (xs_read x)" and ?w = "xs_written x"
  from example_invD [OF assms(1)] obtain m where m: "xs_mem x = Some m" "ring_wf example_ring m"
    "ring_queue example_ring m = drop ?k (messages ?w)" "slots m = 1023"
    "slot_size m = opt_slot_size example_options" "validate m" "length m = unat DEFAULT_RING_SIZE" .
  have i: "?k \<le> ?w" "?w \<le> 5" "rb_slot_size rb = rb_slot_size example_ring"
    "xs_read x = messages ?k"
    using assms by (simp_all add: example_inv_def)
  have wf: "ring_wf rb m" "ring_queue rb m = drop ?k (messages ?w)"
    using m(2,3) ring_wf_cong [OF i(3)] by simp_all
  show ?thesis
  proof (cases "?k = ?w")
    case True
    have "ring_read p U sp rb m = (Ok None, m)"
      by (rule ring_read_empty) (use wf True ring_wfD(4) in auto)
    then have "consumer_step p W U sp x = x" using assms(2) by (simp add: consumer_step_def m(1))
    with True show ?thesis by (intro that [of m]) simp_all
  next
    case False
    then have lt: "?k < ?w" using i(1) by simp
    obtain m' where r: "ring_read p U sp rb m = (Ok (Some (DiskWrite, message ?k)), m')"
      "ring_wf rb m'" "ring_queue rb m' = drop (Suc ?k) (messages ?w)"
      by (rule ring_read_takes [OF wf(1), of "(DiskWrite, message ?k)" "drop (Suc ?k) (messages ?w)" p U sp])
        (use wf(2) messages_drop [OF lt] in \<open>auto intro: that\<close>)
    have step: "consumer_step p W U sp x =
        x\<lparr>xs_mem := Some m', xs_read := xs_read x @ [(DiskWrite, message ?k)]\<rparr>"
      using assms(2) lt i(2) r(1) by (simp add: consumer_step_def m(1))
    have safe: "ring_safe rb m" using wf(1) by (simp add: ring_safe_def ring_wfD)
    have same: "fixed_fields m' = fixed_fields m"
      by (rule geometry.ring_read_outcome [OF safe, of p U sp]) (use r(1) in auto)
    have "messages (Suc ?k) = xs_read x @ [(DiskWrite, message ?k)]"
      using messages_Suc [of ?k] i(4) by simp
    then have "example_inv (x\<lparr>xs_mem := Some m', xs_read := xs_read x @ [(DiskWrite, message ?k)]\<rparr>)"
      using assms(1) lt r(2,3) ring_wf_cong [OF i(3)] fixed_fieldsD [OF same] m(4-7)
      by (simp add: example_inv_def)
    then show ?thesis using that step lt by blast
  qed
qed

lemma example_consumer:
  assumes "example_inv x" "os_ok W example_options"
    and x'_def: "x' = consumer_step p W U sp x"
  shows "example_inv x'" "xs_written x' = xs_written x" "xs_consumer x' \<noteq> None"
    "length (xs_read x') = (if xs_consumer x = None then length (xs_read x)
       else min (xs_written x) (Suc (length (xs_read x))))"
proof -
  let ?P = "example_inv x' \<and> xs_written x' = xs_written x \<and> xs_consumer x' \<noteq> None \<and>
    length (xs_read x') = (if xs_consumer x = None then length (xs_read x)
       else min (xs_written x) (Suc (length (xs_read x))))"
  have ?P
  proof (cases "xs_consumer x")
    case None
    obtain rb where "x' = x\<lparr>xs_consumer := Some rb\<rparr>" "example_inv (x\<lparr>xs_consumer := Some rb\<rparr>)"
      by (rule example_open [OF assms(1) None assms(2), of p U sp]) (use that x'_def in auto)
    then show ?thesis using None by simp
  next
    case (Some rb)
    let ?y = "\<lambda>m. x\<lparr>xs_mem := Some m, xs_read := xs_read x @ [(DiskWrite, message (length (xs_read x)))]\<rparr>"
    obtain m where "x' = x \<and> length (xs_read x) = xs_written x \<or>
        x' = ?y m \<and> length (xs_read x) < xs_written x"
      and inv: "length (xs_read x) < xs_written x \<Longrightarrow> example_inv (?y m)"
      by (rule example_read [OF assms(1) Some, of p W U sp, folded x'_def]) (rule that)
    then consider "x' = x" "length (xs_read x) = xs_written x"
      | "x' = ?y m" "length (xs_read x) < xs_written x" by blast
    then show ?thesis
    proof cases
      case 1
      then show ?thesis using assms(1) Some by simp
    next
      case 2
      show ?thesis using inv [OF 2(2)] 2(2) Some unfolding 2(1) by simp
    qed
  qed
  then show "example_inv x'" "xs_written x' = xs_written x" "xs_consumer x' \<noteq> None"
    "length (xs_read x') = (if xs_consumer x = None then length (xs_read x)
       else min (xs_written x) (Suc (length (xs_read x))))"
    by simp_all
qed

lemma example_created:
  assumes "os_ok W example_options"
  shows "example_inv (producer_create p W U now example_start)"
    "xs_written (producer_create p W U now example_start) = 0"
proof -
  obtain m where "ring_create p W U now example_options = Ok (example_ring, m)"
    "length m = unat (opt_size example_options)" "ring_wf example_ring m"
    "ring_queue example_ring m = []" "slots m = options_slot_count example_options"
    "slot_size m = opt_slot_size example_options" "validate m"
    by (rule ring_create_valid [OF example_options_valid(1) assms, of p U now]) (rule that)
  then show "example_inv (producer_create p W U now example_start)"
    "xs_written (producer_create p W U now example_start) = 0"
    using example_options_valid(2)
    by (simp_all add: producer_create_def example_start_def example_inv_def example_options_def
        messages_def)
qed

subsection \<open>Schedules\<close>

text \<open>A schedule names the thread that makes the next call and its spurious failures.\<close>

definition run_example ::
  "profile \<Rightarrow> os \<Rightarrow> 'u uuid_crate \<Rightarrow> (nat \<Rightarrow> 'u write_ctx) \<Rightarrow> (thread \<times> nat) list \<Rightarrow> example_state \<Rightarrow> example_state" where
  "run_example p W U c = fold (\<lambda>(t, sp). thread_step p W U c sp t)"

lemma run_example_simps [simp]:
  "run_example p W U c [] x = x"
  "run_example p W U c ((t, sp) # ts) x = run_example p W U c ts (thread_step p W U c sp t x)"
  "run_example p W U c (ts @ us) x = run_example p W U c us (run_example p W U c ts x)"
  by (simp_all add: run_example_def)

lemma thread_step_inv:
  assumes "example_inv x" "os_ok W example_options"
  shows "thread_step p W U c sp Producer x = producer_step p U c x"
    "thread_step p W U c sp Consumer x = consumer_step p W U sp x"
    "example_inv (thread_step p W U c sp t x)"
  using assms example_producer(1) [OF assms(1), of p U c] example_consumer(1) [OF assms refl, of p U sp]
  by (cases t; simp add: thread_step_def example_inv_def)+

lemma run_example_inv:
  "example_inv x \<Longrightarrow> os_ok W example_options \<Longrightarrow> example_inv (run_example p W U c ts x)"
  by (induction ts arbitrary: x) (auto simp: thread_step_inv)

lemma run_producer:
  assumes "example_inv x" "os_ok W example_options" "xs_written x + n \<ge> 5"
  shows "xs_written (run_example p W U c (replicate n (Producer, sp)) x) = 5"
  using assms
proof (induction n arbitrary: x)
  case 0
  then show ?case by (simp add: example_inv_def)
next
  case (Suc n)
  then show ?case
    using example_producer [OF Suc.prems(1), of p U c] by (simp add: thread_step_inv)
qed

lemma run_consumer:
  assumes "example_inv x" "os_ok W example_options" "xs_written x = 5" "xs_consumer x \<noteq> None"
    and "length (xs_read x) + n \<ge> 5"
  shows "length (xs_read (run_example p W U c (replicate n (Consumer, sp)) x)) = 5"
  using assms
proof (induction n arbitrary: x)
  case 0
  then show ?case by (simp add: example_inv_def)
next
  case (Suc n)
  note s = example_consumer [OF Suc.prems(1,2) refl, of p U sp]
  have "length (xs_read (run_example p W U c (replicate n (Consumer, sp)) (consumer_step p W U sp x))) = 5"
    using s Suc.prems by (intro Suc.IH) (auto simp: min_def)
  then show ?case by (simp add: thread_step_inv(2) [OF Suc.prems(1,2)])
qed

lemma run_delivers:
  assumes inv: "example_inv x" and os: "os_ok W example_options"
  defines "us \<equiv> replicate 5 (Producer, 0) @ (Consumer, 0) # replicate 5 (Consumer, 0)"
  shows "xs_read (run_example p W U c us x) = messages 5"
proof -
  let ?y = "run_example p W U c (replicate 5 (Producer, 0)) x"
  let ?z = "consumer_step p W U 0 ?y"
  have y: "example_inv ?y" by (rule run_example_inv [OF inv os])
  have w: "xs_written ?y = 5" by (rule run_producer [OF inv os]) simp
  note z = example_consumer [OF y os refl, of p U 0]
  have n: "length (xs_read (run_example p W U c (replicate 5 (Consumer, 0)) ?z)) = 5"
    by (rule run_consumer [OF z(1) os _ z(3)]) (simp_all only: z(2) w le_add2)
  have "run_example p W U c us x = run_example p W U c (replicate 5 (Consumer, 0)) ?z"
    by (simp only: us_def run_example_simps thread_step_inv(2) [OF y os])
  moreover have "example_inv (run_example p W U c (replicate 5 (Consumer, 0)) ?z)"
    by (rule run_example_inv [OF z(1) os])
  ultimately show ?thesis using n by (simp only: example_inv_def)
qed

subsection \<open>Calls that overlap\<close>

text \<open>All messages are written, the indices are equal, and the consumer waits for one more.\<close>

definition starved :: "example_state \<Rightarrow> bool" where
  "starved x \<longleftrightarrow> xs_written x = 5 \<and> xs_consumer x \<noteq> None \<and> length (xs_read x) < 5 \<and>
     (\<exists>m. xs_mem x = Some m \<and> producer_idx m = consumer_idx m)"

lemma drop_keeps_indices:
  "producer_idx (ring_drop (rb, m)) = producer_idx m" "consumer_idx (ring_drop (rb, m)) = consumer_idx m"
  by (simp_all add: ring_drop_def unregister_as_producer_def header_simps)

lemma starved_step:
  assumes "starved x"
  shows "starved (thread_step p W U c sp t x)" "xs_read (thread_step p W U c sp t x) = xs_read x"
proof -
  obtain m rb where x: "xs_mem x = Some m" "producer_idx m = consumer_idx m" "xs_consumer x = Some rb"
    "length (xs_read x) < 5" "xs_written x = 5"
    using assms by (auto simp: starved_def)
  have "ring_read p U sp rb m = (Ok None, m)" using x(2) by (simp add: ring_read_def)
  then have "consumer_step p W U sp x = x" using x by (simp add: consumer_step_def)
  moreover have "starved (producer_step p U c x) \<and> xs_read (producer_step p U c x) = xs_read x"
    using assms x by (auto simp: producer_step_def starved_def drop_keeps_indices split: option.split)
  ultimately show "starved (thread_step p W U c sp t x)" "xs_read (thread_step p W U c sp t x) = xs_read x"
    using assms by (cases t; simp add: thread_step_def)+
qed

lemma starved_run: "starved x \<Longrightarrow> xs_read (run_example p W U c ts x) = xs_read x"
  by (induction ts arbitrary: x) (auto simp: starved_step)

lemma run_example_last:
  "run_example p W U c (replicate (Suc n) (t, sp)) x =
    thread_step p W U c sp t (run_example p W U c (replicate n (t, sp)) x)"
proof -
  have "replicate (Suc n) (t, sp) = replicate n (t, sp) @ [(t, sp)]" by (simp add: replicate_append_same)
  then show ?thesis by (simp only: run_example_simps)
qed

text \<open>Four messages are delivered call by call, and the fifth write overlaps a read.\<close>

lemma four_delivered:
  assumes inv: "example_inv x" and os: "os_ok W example_options" and "xs_written x = 0"
  defines "us \<equiv> replicate 4 (Producer, 0 :: nat) @ replicate 5 (Consumer, 0)"
  shows "xs_written (run_example p W U c us x) = 4" "xs_read (run_example p W U c us x) = messages 4"
    "xs_consumer (run_example p W U c us x) \<noteq> None" "example_inv (run_example p W U c us x)"
proof -
  have w: "xs_written (run_example p W U c (replicate n (Producer, sp)) x) = n" if "n \<le> 5" for n sp
    using that
  proof (induction n)
    case (Suc n)
    have "example_inv (run_example p W U c (replicate n (Producer, sp)) x)" by (rule run_example_inv [OF inv os])
    from example_producer(2) [OF this, of p U c] thread_step_inv(1) [OF this os, of p U c sp] Suc
    show ?case by (simp add: run_example_last del: replicate.simps)
  qed (use assms(3) in simp)
  let ?y = "run_example p W U c (replicate 4 (Producer, 0 :: nat)) x"
  have y: "example_inv ?y" "xs_written ?y = 4" by (rule run_example_inv [OF inv os]) (simp add: w)
  have r: "example_inv z \<and> xs_written z = 4 \<and> xs_consumer z \<noteq> None \<and> min 4 n \<le> length (xs_read z)"
    if "z = run_example p W U c (replicate (Suc n) (Consumer, 0)) ?y" for n z
    using that
  proof (induction n arbitrary: z)
    case 0
    then show ?case
      using example_consumer [OF y(1) os refl, of p U 0] thread_step_inv(2) [OF y(1) os, of p U c 0] y(2) by simp
  next
    case (Suc n)
    let ?v = "run_example p W U c (replicate (Suc n) (Consumer, 0)) ?y"
    have v: "example_inv ?v" "xs_written ?v = 4" "xs_consumer ?v \<noteq> None" "min 4 n \<le> length (xs_read ?v)"
      using Suc.IH [OF refl] by simp_all
    have "z = thread_step p W U c 0 Consumer ?v" unfolding Suc.prems by (rule run_example_last)
    then have "z = consumer_step p W U 0 ?v" by (simp only: thread_step_inv(2) [OF v(1) os])
    from example_consumer [OF v(1) os this] v show ?case by (auto simp: min_def split: if_splits)
  qed
  have us: "run_example p W U c us x = run_example p W U c (replicate (Suc 4) (Consumer, 0)) ?y"
    by (simp add: us_def eval_nat_numeral)
  note z = r [OF us]
  then show "xs_written (run_example p W U c us x) = 4" "xs_consumer (run_example p W U c us x) \<noteq> None"
    "example_inv (run_example p W U c us x)" by simp_all
  have "length (xs_read (run_example p W U c us x)) = 4" using z by (simp add: example_inv_def)
  then show "xs_read (run_example p W U c us x) = messages 4" using z by (metis example_inv_def)
qed

lemma overlap_starves:
  assumes inv: "example_inv x" and "xs_written x = 4" "xs_read x = messages 4" "xs_consumer x \<noteq> None"
  obtains as where
    "let s = ring_run p U example_ring (Call 0 (WriteReq DiskWrite (message 4) u now) # Call 1 ReadReq # as)
        (idle (the (xs_mem x))) in
      (\<exists>k. point_of s 0 = Finished (Ok (Wrote k))) \<and> point_of s 1 = Finished (Ok (Got None)) \<and>
      starved (x\<lparr>xs_mem := Some (snd s), xs_written := 5\<rparr>)"
proof -
  from example_invD [OF inv] obtain m where m: "xs_mem x = Some m" "ring_wf example_ring m"
    "ring_queue example_ring m = drop (length (xs_read x)) (messages (xs_written x))" "slots m = 1023" .
  have e: "ring_queue example_ring m = []" "1 < slots m" "length (message 4) \<le> max_payload example_ring"
    using m(3,4) assms(2,3) message_fits [of 4] by (simp_all add: example_options_valid(3))
  from early_reader_loses_entry [OF m(2) e, of p U DiskWrite u now] obtain as where
    "let s = ring_run p U example_ring (Call 0 (WriteReq DiskWrite (message 4) u now) # Call 1 ReadReq # as) (idle m) in
      point_of s 0 = Finished (Ok (Wrote (producer_idx m))) \<and> point_of s 1 = Finished (Ok (Got None)) \<and>
      producer_idx (snd s) = consumer_idx (snd s)"
    unfolding Let_def by blast
  then show ?thesis using that [of as] assms(3,4) m(1) by (simp add: Let_def starved_def)
qed

subsection \<open>The property\<close>

text \<open>
  C34: As long as no ring calls of the two threads overlap, whatever the order in which they
  are made after the ring is created, neither thread panics, the consumer has read a prefix
  of the messages the producer has written, in their order, and from every state five more
  calls of the producer and six of the consumer deliver all five messages. But only the
  sleeps of the threads keep their calls apart: the fifth write and a read can overlap, with
  their accesses in such an order that the write succeeds, the read finds nothing, and the
  consumer, which has four messages, never gets another one however the threads go on.
\<close>

theorem example_delivers_unless_calls_overlap:
  assumes "os_ok W example_options"
  shows "(let x = run_example p W U c ts (producer_create p W U now example_start) in
      xs_panicked x = [] \<and>
      (\<exists>k\<le>xs_written x. xs_read x = map (\<lambda>i. (DiskWrite, message i)) [0..<k]) \<and>
      xs_read (run_example p W U c (replicate 5 (Producer, 0) @ replicate 6 (Consumer, 0)) x) =
        map (\<lambda>i. (DiskWrite, message i)) [0..<5]) \<and>
    (\<exists>us as. let x = run_example p W U c us (producer_create p W U now example_start);
        s = ring_run p U example_ring
          (Call 0 (WriteReq DiskWrite (message 4) (wc_uuid (c 4)) (wc_now (c 4))) # Call 1 ReadReq # as)
          (idle (the (xs_mem x)));
        z = x\<lparr>xs_mem := Some (snd s), xs_written := 5\<rparr> in
      xs_written x = 4 \<and> xs_read x = map (\<lambda>i. (DiskWrite, message i)) [0..<4] \<and>
      (\<exists>k. point_of s 0 = Finished (Ok (Wrote k))) \<and> point_of s 1 = Finished (Ok (Got None)) \<and>
      (\<forall>later. xs_read (run_example p W U c later z) = map (\<lambda>i. (DiskWrite, message i)) [0..<4]))"
proof (rule conjI)
  let ?start = "producer_create p W U now example_start"
  let ?x = "run_example p W U c ts ?start"
  note x0 = example_created [OF assms, of p U now]
  have inv: "example_inv ?x" by (rule run_example_inv [OF x0(1) assms])
  have six: "replicate 6 (Consumer, 0::nat) = (Consumer, 0) # replicate 5 (Consumer, 0)"
    by (simp add: numeral_eq_Suc)
  have "xs_panicked ?x = []" "length (xs_read ?x) \<le> xs_written ?x"
    "xs_read ?x = messages (length (xs_read ?x))"
    using inv by (simp_all only: example_inv_def)
  moreover note run_delivers [OF inv assms, of p U c, folded six]
  ultimately show "let x = ?x in xs_panicked x = [] \<and>
      (\<exists>k\<le>xs_written x. xs_read x = map (\<lambda>i. (DiskWrite, message i)) [0..<k]) \<and>
      xs_read (run_example p W U c (replicate 5 (Producer, 0) @ replicate 6 (Consumer, 0)) x) =
        map (\<lambda>i. (DiskWrite, message i)) [0..<5]"
    unfolding Let_def messages_def by blast
  let ?us = "replicate 4 (Producer, 0) @ replicate 5 (Consumer, 0)"
  let ?y = "run_example p W U c ?us ?start"
  note y = four_delivered [OF x0(1) assms x0(2), of p U c]
  obtain as where as: "let s = ring_run p U example_ring
        (Call 0 (WriteReq DiskWrite (message 4) (wc_uuid (c 4)) (wc_now (c 4))) # Call 1 ReadReq # as)
        (idle (the (xs_mem ?y))) in
      (\<exists>k. point_of s 0 = Finished (Ok (Wrote k))) \<and> point_of s 1 = Finished (Ok (Got None)) \<and>
      starved (?y\<lparr>xs_mem := Some (snd s), xs_written := 5\<rparr>)"
    by (rule overlap_starves [OF y(4,1,2,3), of p U "wc_uuid (c 4)" "wc_now (c 4)"]) (rule that)
  let ?s = "ring_run p U example_ring
    (Call 0 (WriteReq DiskWrite (message 4) (wc_uuid (c 4)) (wc_now (c 4))) # Call 1 ReadReq # as)
    (idle (the (xs_mem ?y)))"
  let ?z = "?y\<lparr>xs_mem := Some (snd ?s), xs_written := 5\<rparr>"
  have s: "\<exists>k. point_of ?s 0 = Finished (Ok (Wrote k))" "point_of ?s 1 = Finished (Ok (Got None))" "starved ?z"
    using as unfolding Let_def by blast+
  have "xs_read ?z = messages 4" using y(2) by simp
  then have later: "\<forall>later. xs_read (run_example p W U c later ?z) = messages 4"
    using starved_run [OF s(3), of p W U c] by simp
  show "\<exists>us as. let x = run_example p W U c us ?start;
        s = ring_run p U example_ring
          (Call 0 (WriteReq DiskWrite (message 4) (wc_uuid (c 4)) (wc_now (c 4))) # Call 1 ReadReq # as)
          (idle (the (xs_mem x)));
        z = x\<lparr>xs_mem := Some (snd s), xs_written := 5\<rparr> in
      xs_written x = 4 \<and> xs_read x = map (\<lambda>i. (DiskWrite, message i)) [0..<4] \<and>
      (\<exists>k. point_of s 0 = Finished (Ok (Wrote k))) \<and> point_of s 1 = Finished (Ok (Got None)) \<and>
      (\<forall>later. xs_read (run_example p W U c later z) = map (\<lambda>i. (DiskWrite, message i)) [0..<4])"
    unfolding Let_def using y(1,2) s(1,2) later unfolding messages_def by blast
qed

theorem example_delivers_unless_calls_overlap_demo:
  "xs_read (run_example Debug demo_os demo_uuid (\<lambda>_. demo_ctx)
     (replicate 5 (Producer, 0) @ replicate 6 (Consumer, 0))
     (producer_create Debug demo_os demo_uuid (Some 1) example_start)) =
   map (\<lambda>i. (DiskWrite, message i)) [0..<5]"
proof -
  have os: "os_ok demo_os example_options" by (simp add: os_ok_def demo_os_def)
  show ?thesis
    using conjunct1 [OF example_delivers_unless_calls_overlap [OF os, of Debug demo_uuid "\<lambda>_. demo_ctx" "[]" "Some 1"]]
    by (simp only: Let_def run_example_simps)
qed

end
