(* ===== verification/Spec2Isabelle.thy ===== *)
theory Spec2Isabelle
  imports Ring_Correctness Ring_Parallel Bench_Ring Numa_Threads Echo_Throughput Numa_Correctness Arch_Correctness
    Disk_Correctness Simple_Disk Cross_Files End_To_End_Correctness
    Net_Correctness Net_Executor Net_Fallback_Correctness Latency_Correctness Ring_Example
begin

text \<open>
  A verification library for elgate-core, the I/O routing core of Elgate.

  \<^bold>\<open>The program.\<close> A ring buffer in shared memory (\<open>src/ring\<close>) carries entries between
  processes: a header with two indices and counters, and slots with a status, an operation,
  a size, an id, a time and a payload. Disk and network engines (\<open>src/disk\<close>, \<open>src/net\<close>) do
  I/O and announce finished operations in a ring; each exists on \<open>tokio_uring\<close>
  (\<open>io_uring.rs\<close>) and as a fallback with one worker task behind a channel (\<open>fallback.rs\<close>).
  The architecture part (\<open>src/arch\<close>) detects cores and NUMA nodes, selects a runtime mode and
  builds pinned worker threads. All paths below are under \<open>elgate-core\<close>.

  \<^bold>\<open>Conventions.\<close> The target is 64-bit Linux: \<open>usize\<close> and \<open>u64\<close> are \<open>64 word\<close>, atomics are
  \<open>32 word\<close> or \<open>64 word\<close>. A result is an \<open>outcome\<close>: \<open>Ok\<close>, \<open>Err\<close>, \<open>Panic\<close> or undefined
  behaviour; arithmetic is checked in the profile \<open>Debug\<close> and wraps in \<open>Release\<close>. A state
  goes in and comes out of each operation. Code outside the repository is a parameter: the
  UUID crate, the system that opens and maps files, \<open>num_cpus\<close>, sysfs, \<open>core_affinity\<close>,
  \<open>mbind\<close>, the files and sockets of \<open>tokio_uring\<close>, the channel of \<open>tokio\<close>, the kernel's
  socket calls. What the code relies on of them is a definition named \<open>.._laws\<close> with a
  concrete instance (\<open>demo_..\<close>) that keeps the laws.

  \<^bold>\<open>Theories and sources.\<close>
  \<^item> \<open>Elgate_Prelude\<close>: outcomes, checked arithmetic, the layout of \<open>repr(C)\<close> structures,
    modular counters. \<open>Shared_Memory\<close>: a mapping as its bytes, loads and stores of words.
  \<^item> \<open>Ring_Slot\<close> (\<open>ring/slot.rs\<close>), \<open>Ring_Header\<close> (\<open>ring/header.rs\<close>), \<open>Ring_Buffer\<close>
    (\<open>ring/buffer.rs\<close>, \<open>ring/mod.rs\<close>): every operation on the bytes of the mapping. A ring
    handle is the record \<open>ring_buffer\<close>, the mapping a byte list \<open>mem\<close>.
  \<^item> \<open>Ring_Geometry\<close>, \<open>Ring_Queue\<close>, \<open>Ring_Create\<close>, \<open>Ring_Limits\<close>, \<open>Ring_Fifo\<close>, \<open>Ring_Safety\<close>,
    \<open>Ring_Producers\<close>: slots do not overlap; the abstract queue \<open>ring_queue\<close> of a well-formed
    ring and what each operation does to it; creation; the behaviour at the limits; the
    interface \<open>fifo_queue\<close>, of which the ring is an implementation; safety on arbitrary slot
    contents; the count of producers over every interleaving of calls.
  \<^item> \<open>Interleaving\<close>: threads whose calls are sequences of accesses, under any schedule.
    \<open>Ring_Steps\<close>: \<open>write\<close> and \<open>read\<close> of \<open>ring/buffer.rs\<close> as such calls, one load, store or
    compare-and-swap at a time; the copy of a payload is one access. \<open>Ring_Steps_Alone\<close>: a call
    that is not interrupted is the operation of \<open>Ring_Buffer\<close>. \<open>Ring_Interleaved\<close> and
    \<open>Ring_Races\<close>: what every schedule keeps, and an entry that a race loses. \<open>Ring_Writers\<close>,
    \<open>Ring_Parallel\<close>: writers without readers. \<open>Ring_Counts\<close>: one reader among writers.
  \<^item> \<open>Ring_Numa\<close>: creation on a NUMA node, with \<open>arch/cpu_info.rs\<close>.
  \<^item> \<open>Rust_Text\<close>, \<open>Cpu_Info\<close> (\<open>arch/cpu_info.rs\<close>), \<open>Runtime_Mode\<close> (\<open>arch/runtime_mode.rs\<close>),
    \<open>Thread_Builder\<close> (\<open>arch/thread_builder.rs\<close>, \<open>arch/mod.rs\<close>).
  \<^item> \<open>Engine_Notify\<close>: the announcement, a write to the ring whose error is ignored.
    \<open>Disk_Uring\<close> (\<open>disk/io_uring.rs\<close>): the state \<open>disk_state\<close> is the handle cache, the poison
    flag of its lock, the mapping and the files. \<open>Net_Uring\<close> (\<open>net/io_uring.rs\<close>): \<open>net_state\<close>
    is the connection cache, the poison flag, the mapping and the system. \<open>Net_Cache\<close> and
    \<open>Net_Operations\<close>: consistency of the cache and the outcome of each operation; the steps
    an engine can take are \<open>net_reach\<close>. \<open>Net_Executor\<close>: reads, writes and closes as tasks of
    the one thread, which wait with the lock in hand.
  \<^item> \<open>Worker_Channel\<close>: the channel, the worker loop and the calls the two fallback engines
    share; \<open>Worker_Laws\<close>: what the loop guarantees, with the interface \<open>total_service\<close> of a
    service that never panics. \<open>Disk_Fallback\<close> (\<open>disk/fallback.rs\<close>) and \<open>Net_Fallback\<close>
    (\<open>net/fallback.rs\<close>) are two such services. The disk worker uses the files of the standard
    library, modelled with their positions over an oracle for the kernel's decisions.
  \<^item> \<open>Ring_Example\<close> (\<open>examples/ring_buffer.rs\<close>): a producer and a consumer thread, interleaved
    call by call by a schedule, and a write and a read that overlap. \<open>Numa_Threads\<close>
    (\<open>examples/numa_optimization.rs\<close>): writers and a reader, interleaved access by access.
    \<open>Bench_Ring\<close> (\<open>examples/perf_benchmark.rs\<close>, \<open>examples/numa_ring_buffer.rs\<close>): the loops that
    fill a ring before they read it.
  \<^item> \<open>Std_Tools\<close>, \<open>Cross_Files\<close>, \<open>Echo_Benchmark\<close>, \<open>Echo_Throughput\<close>
    (\<open>examples/cross_platform_benchmark.rs\<close>): more of the files of the standard library; the
    benchmarks on files; the two network benchmarks, each a program and an echo server over
    one connection, with the interface \<open>draining\<close> of programs whose calls use themselves up.
  \<^item> \<open>End_To_End\<close> (\<open>examples/end_to_end.rs\<close>): two tasks on the disk and network engines, call by
    call, and the comparison of their files.
  \<^item> \<open>Simple_Disk\<close> and \<open>Latency_Stats\<close>: the disk engine and the statistics of the examples
    (\<open>examples/simple_disk_engine.rs\<close>, \<open>examples/latency_profile.rs\<close>), with the places of the
    percentiles in 64-bit floating point.
  \<^item> The properties are in the theories \<open>.._Correctness\<close>, \<open>Ring_Races\<close>, \<open>Ring_Parallel\<close>,
    \<open>Ring_Counts\<close>, \<open>Numa_Threads\<close>, \<open>Bench_Ring\<close>, \<open>Echo_Benchmark\<close>, \<open>Echo_Throughput\<close>,
    \<open>Simple_Disk\<close>, \<open>Ring_Example\<close> and \<open>Net_Executor\<close>, each with an application to a concrete
    input; \<open>Ring_Demo\<close> holds the ring they use.

  \<^bold>\<open>What is shown.\<close> The ring is a first-in first-out queue as long as one slot stays free;
  it never leaves its mapping whatever its slots hold; producers are counted exactly; its
  last slot, a full ring and an unfinished write do not behave as intended, and theorems say
  how. Access by access, no schedule makes a call panic or run on without end, claimed slots
  are different, and parallel writers put whole entries into the ring; a reader beside them
  reads no entry that was not written, but it can lose one. The disk engine never panics on a
  safe ring and announces successes while the ring has room and the path fits. The network
  engine keeps its cache consistent when its calls run one at a time; it loses connections it
  replaces and consumes listeners, and calls that overlap can block its thread. The fallback workers serve in order and answer every caller once unless an
  operation panics, which only the network engine's operations can. Detection finds the
  nodes the system describes and workers get different cores. The examples that use these
  parts deliver what they send only under conditions that theorems state: no overlapping
  calls in the ring example, enough slots in the benchmarks, a stream that is closed before
  its server is joined in the network benchmarks, and never in the end-to-end example.

  \<^bold>\<open>Bounds and fuel.\<close> There is no fuel. The retries of a writer are bounded by the code's own
  counter; the compare-and-swap loops end by the number of spurious failures their
  environment allows; \<open>worker_loop\<close> is a partial function proved total in every state;
  \<open>std_write_all\<close> ends because each round writes at least a byte. Statistics are for fewer
  than 2 to the 53 samples, where a count is exact in floating point.

  \<^bold>\<open>Not modelled.\<close> Memory orderings: accesses to the mapping take effect in the order of the
  program; torn copies of a payload. Interleavings of tasks on the thread of \<open>tokio_uring\<close> but
  for those of \<open>Net_Executor\<close>: elsewhere an operation of an engine is one step. The time at
  which the crate closes a dropped socket, but for \<open>Echo_Throughput\<close>, where it is a
  parameter. The \<open>Debug\<close> text of a disk operation. The write-ahead log, which is an empty
  module, the module files and the tests. Of the examples, the checks for io_uring, the loops
  of \<open>cross_platform_benchmark.rs\<close> and \<open>perf_benchmark.rs\<close> on the disk engine and with
  timeouts, the measuring loops of \<open>latency_profile.rs\<close>, the programs \<open>disk_io.rs\<close>,
  \<open>network_io.rs\<close>, \<open>error_handling.rs\<close>, \<open>thread_builder.rs\<close>, \<open>check_io_uring.rs\<close> and
  \<open>cpu_info.rs\<close>, which call the library in sequence, and everywhere clocks and printing.
\<close>

end
